(* ===== verification/Prelude.thy ===== *)
theory Prelude
  imports Main "HOL-Library.Word" "HOL-Library.Multiset"
begin

text \<open>
  Shared material of the JMDN verification library: the machine types of the Go
  sources, the string and decimal routines of Go's standard library that the
  components call (\<^verbatim>\<open>strings.TrimSpace\<close>, \<^verbatim>\<open>strings.ToLower\<close>,
  \<^verbatim>\<open>strings.TrimPrefix\<close>, \<^verbatim>\<open>big.Int.SetString\<close>, \<^verbatim>\<open>big.Int.String\<close>,
  \<^verbatim>\<open>strconv.ParseInt\<close>, \<^verbatim>\<open>strconv.FormatInt\<close>, \<^verbatim>\<open>hex.EncodeToString\<close>),
  and generic lemmas on lists, maps and sums.

  Go strings are byte strings, so \<^typ>\<open>string\<close> (a list of 8-bit characters) is used
  as it is. Case folding and white space are the ASCII ones: every string of the
  modelled code is a peer id, a hex key, a decimal number or an operator setting.
\<close>

subsection \<open>Machine types\<close>

type_synonym byte = "8 word"
type_synonym u64 = "64 word"
type_synonym addr = "160 word"
type_synonym hash = "byte list"

text \<open>A \<^verbatim>\<open>common.Hash\<close> is a 32-byte array; its Go zero value is the all-zero array.\<close>

definition zero_hash :: hash where
  "zero_hash = replicate 32 0"

definition wf_hash :: "hash \<Rightarrow> bool" where
  "wf_hash h \<longleftrightarrow> length h = 32"

lemma wf_zero_hash [simp]: "wf_hash zero_hash"
  by (simp add: wf_hash_def zero_hash_def)

definition str_bytes :: "string \<Rightarrow> byte list" where
  "str_bytes s = map of_char s"

lemma unat_of_char_byte: "unat (of_char c :: byte) = of_char c"
proof -
  have "(of_char c :: byte) = of_nat (of_char c)"
    by (simp only: of_nat_of_char)
  then have "unat (of_char c :: byte) = of_char c mod 2 ^ LENGTH(8)"
    by (simp only: unat_of_nat)
  also have "\<dots> = of_char c"
    using nat_of_char_less_256 [of c] by (intro mod_less) simp
  finally show ?thesis .
qed

lemma of_char_byte_eq [simp]: "(of_char c :: byte) = of_char d \<longleftrightarrow> c = d"
  by (metis unat_of_char_byte of_char_eq_iff)

lemma str_bytes_eq [simp]: "str_bytes s = str_bytes t \<longleftrightarrow> s = t"
  unfolding str_bytes_def by (rule inj_map_eq_map) (simp add: inj_def)

lemma str_bytes_append [simp]: "str_bytes (s @ t) = str_bytes s @ str_bytes t"
  by (simp add: str_bytes_def)

lemma length_str_bytes [simp]: "length (str_bytes s) = length s"
  by (simp add: str_bytes_def)

subsection \<open>Strings\<close>

definition is_space :: "char \<Rightarrow> bool" where
  "is_space c \<longleftrightarrow> (of_char c :: nat) \<in> {9, 10, 11, 12, 13, 32}"

definition TrimSpace :: "string \<Rightarrow> string" where
  "TrimSpace s = rev (dropWhile is_space (rev (dropWhile is_space s)))"

definition lower_char :: "char \<Rightarrow> char" where
  "lower_char c = (let n = of_char c :: nat in if 65 \<le> n \<and> n \<le> 90 then char_of (n + 32) else c)"

definition ToLower :: "string \<Rightarrow> string" where
  "ToLower s = map lower_char s"

definition TrimPrefix :: "string \<Rightarrow> string \<Rightarrow> string" where
  "TrimPrefix s p = (if take (length p) s = p then drop (length p) s else s)"

definition EqualFold :: "string \<Rightarrow> string \<Rightarrow> bool" where
  "EqualFold s t \<longleftrightarrow> ToLower s = ToLower t"

lemma lower_char_idem [simp]: "lower_char (lower_char c) = lower_char c"
proof -
  have "\<not> (65 \<le> (of_char (char_of (n + 32) :: char) :: nat) \<and> (of_char (char_of (n + 32) :: char) :: nat) \<le> 90)"
    if "65 \<le> n" "n \<le> 90" for n :: nat
    using that by (simp add: of_char_of)
  then show ?thesis by (auto simp: lower_char_def Let_def)
qed

lemma ToLower_idem [simp]: "ToLower (ToLower s) = ToLower s"
  by (simp add: ToLower_def)

lemma dropWhile_hd_False: "xs = [] \<or> \<not> P (hd xs) \<Longrightarrow> dropWhile P xs = xs"
  by (cases xs) auto

lemma TrimSpace_hd: "TrimSpace s \<noteq> [] \<Longrightarrow> \<not> is_space (hd (TrimSpace s))"
proof -
  assume ne: "TrimSpace s \<noteq> []"
  define t where "t = dropWhile is_space s"
  have suffix: "\<exists>zs. t = TrimSpace s @ zs"
    unfolding TrimSpace_def t_def [symmetric]
    by (metis append_take_drop_id dropWhile_eq_drop rev_append rev_rev_ident)
  then obtain zs where t: "t = TrimSpace s @ zs" by blast
  with ne have "t \<noteq> []" by simp
  then have "\<not> is_space (hd t)" unfolding t_def by (rule hd_dropWhile)
  with t ne show ?thesis by simp
qed

lemma TrimSpace_idem [simp]: "TrimSpace (TrimSpace s) = TrimSpace s"
proof -
  have "dropWhile is_space (TrimSpace s) = TrimSpace s"
    using TrimSpace_hd [of s] by (intro dropWhile_hd_False) auto
  moreover have "dropWhile is_space (rev (TrimSpace s)) = rev (TrimSpace s)"
    unfolding TrimSpace_def by simp
  ultimately show ?thesis unfolding TrimSpace_def [of "TrimSpace s"] by simp
qed

subsection \<open>Decimal numbers\<close>

definition digit_char :: "nat \<Rightarrow> char" where
  "digit_char d = char_of (48 + d)"

definition is_digit :: "char \<Rightarrow> bool" where
  "is_digit c \<longleftrightarrow> 48 \<le> (of_char c :: nat) \<and> (of_char c :: nat) \<le> 57"

definition digit_val :: "char \<Rightarrow> nat" where
  "digit_val c = of_char c - 48"

lemma digit_char_props [simp]:
  assumes "d < 10"
  shows "is_digit (digit_char d)" "digit_val (digit_char d) = d"
  using assms by (auto simp: digit_char_def is_digit_def digit_val_def of_char_of)

fun show_nat :: "nat \<Rightarrow> string" where
  "show_nat n = (if n < 10 then [digit_char n] else show_nat (n div 10) @ [digit_char (n mod 10)])"

declare show_nat.simps [simp del]

fun parse_digits :: "nat \<Rightarrow> string \<Rightarrow> nat option" where
  "parse_digits acc [] = Some acc"
| "parse_digits acc (c # cs) =
     (if is_digit c then parse_digits (acc * 10 + digit_val c) cs else None)"

definition parse_nat :: "string \<Rightarrow> nat option" where
  "parse_nat s = (if s = [] then None else parse_digits 0 s)"

text \<open>\<^verbatim>\<open>big.Int.String\<close> and \<^verbatim>\<open>strconv.FormatInt(v, 10)\<close>.\<close>

definition big_String :: "int \<Rightarrow> string" where
  "big_String i = (if i < 0 then CHR ''-'' # show_nat (nat (- i)) else show_nat (nat i))"

text \<open>\<^verbatim>\<open>new(big.Int).SetString(s, 10)\<close>: an optional sign, then at least one digit, all of the input.\<close>

definition big_SetString :: "string \<Rightarrow> int option" where
  "big_SetString s =
     (case s of
        [] \<Rightarrow> None
      | c # cs \<Rightarrow>
          if c = CHR ''-'' then map_option (\<lambda>n. - int n) (parse_nat cs)
          else if c = CHR ''+'' then map_option int (parse_nat cs)
          else map_option int (parse_nat s))"

text \<open>\<^verbatim>\<open>strconv.ParseInt(s, 10, 64)\<close>: the same syntax, an error outside the int64 range.\<close>

definition ParseInt64 :: "string \<Rightarrow> int option" where
  "ParseInt64 s =
     (case big_SetString s of
        None \<Rightarrow> None
      | Some v \<Rightarrow> if - (2 ^ 63) \<le> v \<and> v < 2 ^ 63 then Some v else None)"

lemma parse_digits_append:
  "parse_digits acc (xs @ ys) =
     (case parse_digits acc xs of None \<Rightarrow> None | Some a \<Rightarrow> parse_digits a ys)"
  by (induction acc xs rule: parse_digits.induct) auto

lemma show_nat_nonempty [simp]: "show_nat n \<noteq> []"
  by (subst show_nat.simps) simp

lemma show_nat_digits: "c \<in> set (show_nat n) \<Longrightarrow> is_digit c"
proof (induction n rule: show_nat.induct)
  case (1 n)
  then show ?case
    by (subst (asm) (2) show_nat.simps) (auto split: if_splits)
qed

lemma parse_digits_show_nat: "parse_digits 0 (show_nat n) = Some n"
proof (induction n rule: show_nat.induct)
  case (1 n)
  show ?case
  proof (cases "n < 10")
    case True
    then show ?thesis by (simp add: show_nat.simps [of n])
  next
    case False
    then have "parse_digits 0 (show_nat n) = Some (n div 10 * 10 + n mod 10)"
      by (simp add: show_nat.simps [of n] parse_digits_append "1.IH")
    then show ?thesis by simp
  qed
qed

lemma parse_nat_show_nat [simp]: "parse_nat (show_nat n) = Some n"
  by (simp add: parse_nat_def parse_digits_show_nat)

lemma show_nat_inj [simp]: "show_nat m = show_nat n \<longleftrightarrow> m = n"
  by (metis option.inject parse_nat_show_nat)

lemma sign_not_digit: "\<not> is_digit (CHR ''-'')" "\<not> is_digit (CHR ''+'')" "\<not> is_digit (CHR '':'')"
  by (simp_all add: is_digit_def)

lemma hd_show_nat_digit: "show_nat n = c # cs \<Longrightarrow> is_digit c"
  using show_nat_digits [of c n] by simp

lemma big_SetString_String [simp]: "big_SetString (big_String i) = Some i"
proof (cases "i < 0")
  case True
  then show ?thesis by (simp add: big_String_def big_SetString_def)
next
  case False
  obtain c cs where eq: "show_nat (nat i) = c # cs"
    by (cases "show_nat (nat i)") auto
  then have "c \<noteq> CHR ''-''" "c \<noteq> CHR ''+''"
    using hd_show_nat_digit [OF eq] sign_not_digit by auto
  moreover have "parse_nat (c # cs) = Some (nat i)"
    using eq parse_nat_show_nat [of "nat i"] by simp
  ultimately show ?thesis
    using False eq by (simp add: big_String_def big_SetString_def)
qed

lemma big_String_inj [simp]: "big_String i = big_String j \<longleftrightarrow> i = j"
  by (metis big_SetString_String option.inject)

lemma ParseInt64_String: "- (2 ^ 63) \<le> v \<Longrightarrow> v < 2 ^ 63 \<Longrightarrow> ParseInt64 (big_String v) = Some v"
  by (simp add: ParseInt64_def)

subsection \<open>Hexadecimal strings\<close>

definition hex_digit :: "nat \<Rightarrow> char" where
  "hex_digit d = (if d < 10 then char_of (48 + d) else char_of (87 + d))"

definition hex_byte :: "byte \<Rightarrow> string" where
  "hex_byte b = [hex_digit (unat b div 16), hex_digit (unat b mod 16)]"

text \<open>\<^verbatim>\<open>hex.EncodeToString\<close>, and \<^verbatim>\<open>common.Hash.Hex\<close> with its 0x prefix.\<close>

definition hex_encode :: "byte list \<Rightarrow> string" where
  "hex_encode bs = concat (map hex_byte bs)"

definition Hash_Hex :: "hash \<Rightarrow> string" where
  "Hash_Hex h = ''0x'' @ hex_encode h"

lemma hex_digit_inj: "a < 16 \<Longrightarrow> b < 16 \<Longrightarrow> hex_digit a = hex_digit b \<longleftrightarrow> a = b"
proof
  assume "a < 16" "b < 16" "hex_digit a = hex_digit b"
  then have "(of_char (hex_digit a) :: nat) = of_char (hex_digit b)" by simp
  with \<open>a < 16\<close> \<open>b < 16\<close> show "a = b"
    by (simp add: hex_digit_def of_char_of split: if_splits)
qed simp

lemma byte_nibble [simp]: "unat (b :: byte) div 16 < 16"
proof -
  have "unat b < 2 ^ LENGTH(8)" by (rule unsigned_less)
  then show ?thesis by simp
qed

lemma hex_byte_inj [simp]: "hex_byte a = hex_byte b \<longleftrightarrow> a = b"
proof
  assume "hex_byte a = hex_byte b"
  then have "unat a div 16 = unat b div 16" "unat a mod 16 = unat b mod 16"
    by (simp_all add: hex_byte_def hex_digit_inj)
  then have "unat a = unat b" by (metis div_mult_mod_eq)
  then show "a = b" by (rule unsigned_word_eqI)
qed simp

lemma length_hex_encode [simp]: "length (hex_encode bs) = 2 * length bs"
  by (induction bs) (simp_all add: hex_encode_def hex_byte_def)

lemma hex_encode_Nil [simp]: "hex_encode [] = []"
  by (simp add: hex_encode_def)

lemma hex_encode_Cons: "hex_encode (b # bs) = hex_byte b @ hex_encode bs"
  by (simp add: hex_encode_def)

lemma hex_encode_inj [simp]: "hex_encode xs = hex_encode ys \<longleftrightarrow> xs = ys"
proof (induction xs arbitrary: ys)
  case Nil
  then show ?case by (cases ys) (auto simp: hex_encode_Cons hex_byte_def)
next
  case (Cons x xs)
  show ?case
  proof (cases ys)
    case Nil
    then show ?thesis by (simp add: hex_encode_Cons hex_byte_def)
  next
    case (Cons y ys')
    have "length (hex_byte x) = length (hex_byte y)" by (simp add: hex_byte_def)
    then show ?thesis
      using Cons.IH Cons by (simp add: hex_encode_Cons append_eq_append_conv)
  qed
qed

lemma Hash_Hex_inj [simp]: "Hash_Hex g = Hash_Hex h \<longleftrightarrow> g = h"
  by (simp add: Hash_Hex_def)

lemma hex_digit_lower [simp]: "d < 16 \<Longrightarrow> lower_char (hex_digit d) = hex_digit d"
  by (simp add: hex_digit_def lower_char_def of_char_of Let_def)

lemma ToLower_hex_encode [simp]: "ToLower (hex_encode bs) = hex_encode bs"
proof (induction bs)
  case Nil
  then show ?case by (simp add: ToLower_def)
next
  case (Cons b bs)
  then show ?case by (simp add: hex_encode_Cons hex_byte_def ToLower_def)
qed

lemma ToLower_Hash_Hex [simp]: "ToLower (Hash_Hex h) = Hash_Hex h"
  using ToLower_hex_encode [of h]
  by (simp add: Hash_Hex_def ToLower_def lower_char_def Let_def)

lemma hex_digit_not_space [simp]: "d < 16 \<Longrightarrow> \<not> is_space (hex_digit d)"
  by (simp add: hex_digit_def is_space_def of_char_of)

lemma hex_encode_not_space: "c \<in> set (hex_encode bs) \<Longrightarrow> \<not> is_space c"
proof (induction bs)
  case (Cons b bs)
  then show ?case by (auto simp: hex_encode_Cons hex_byte_def)
qed simp

lemma TrimSpace_no_space: "\<forall>c \<in> set s. \<not> is_space c \<Longrightarrow> TrimSpace s = s"
proof -
  assume "\<forall>c \<in> set s. \<not> is_space c"
  then have "dropWhile is_space s = s" "dropWhile is_space (rev s) = rev s"
    by (metis dropWhile_hd_False list.set_sel(1), metis dropWhile_hd_False list.set_sel(1) set_rev)
  then show ?thesis by (simp add: TrimSpace_def)
qed

lemma TrimSpace_Hash_Hex [simp]: "TrimSpace (Hash_Hex h) = Hash_Hex h"
  by (rule TrimSpace_no_space)
    (auto simp: Hash_Hex_def dest: hex_encode_not_space, simp_all add: is_space_def)

text \<open>\<^verbatim>\<open>hex.DecodeString\<close>: an even number of hex digits of either case, an error otherwise.\<close>

definition hex_val :: "char \<Rightarrow> nat option" where
  "hex_val c = (let n = of_char c :: nat in
     if 48 \<le> n \<and> n \<le> 57 then Some (n - 48)
     else if 97 \<le> n \<and> n \<le> 102 then Some (n - 87)
     else if 65 \<le> n \<and> n \<le> 70 then Some (n - 55)
     else None)"

fun hex_decode :: "string \<Rightarrow> byte list option" where
  "hex_decode [] = Some []"
| "hex_decode [c] = None"
| "hex_decode (c # d # cs) =
     (case (hex_val c, hex_val d, hex_decode cs) of
        (Some a, Some b, Some bs) \<Rightarrow> Some (word_of_nat (16 * a + b) # bs)
      | _ \<Rightarrow> None)"

lemma hex_val_digit [simp]: "d < 16 \<Longrightarrow> hex_val (hex_digit d) = Some d"
  by (simp add: hex_val_def hex_digit_def of_char_of Let_def)

lemma hex_decode_encode [simp]: "hex_decode (hex_encode bs) = Some bs"
proof (induction bs)
  case (Cons b bs)
  have "(word_of_nat (16 * (unat b div 16) + unat b mod 16) :: byte) = b"
    by (simp only: mult_div_mod_eq word_of_nat_eq_iff of_nat_unat ucast_id)
  with Cons show ?case by (simp add: hex_encode_Cons hex_byte_def)
qed simp

lemma hex_val_lower [simp]: "hex_val (lower_char c) = hex_val c"
  by (simp add: hex_val_def lower_char_def of_char_of Let_def)

lemma hex_decode_ToLower [simp]: "hex_decode (ToLower s) = hex_decode s"
  by (induction s rule: hex_decode.induct) (simp_all add: ToLower_def)

lemma hex_decode_chars: "hex_decode s = Some bs \<Longrightarrow> c \<in> set s \<Longrightarrow> hex_val c \<noteq> None"
  by (induction s arbitrary: bs rule: hex_decode.induct) (auto split: option.splits)

lemma hex_val_not_space: "hex_val c \<noteq> None \<Longrightarrow> \<not> is_space c"
  by (auto simp: hex_val_def is_space_def Let_def)

subsection \<open>Runs of characters\<close>

lemma run_split:
  assumes "\<forall>x \<in> set xs. P x" "\<forall>x \<in> set xs'. P x" "\<not> P c" "\<not> P c'"
    and "xs @ c # ys = xs' @ c' # ys'"
  shows "xs = xs' \<and> c = c' \<and> ys = ys'"
proof -
  have "takeWhile P (xs @ c # ys) = xs" "takeWhile P (xs' @ c' # ys') = xs'"
    using assms(1-4) by simp_all
  with assms(5) have "xs = xs'" by metis
  with assms(5) show ?thesis by simp
qed

end
