(* ===== verification/ZKBlock.thy ===== *)
theory ZKBlock
  imports Prelude
begin

text \<open>
  The wire data of the node: \<^verbatim>\<open>src/config/ZKBlock.go\<close> (transactions, blocks, the
  advisory account nonces, the gossip wrapper), the fee-recipient structs of
  \<^verbatim>\<open>src/config/gasfee.go\<close> and the access list of \<^verbatim>\<open>src/config/constants.go\<close>.

  A Go pointer that may be nil is an \<^typ>\<open>'a option\<close>, a \<^verbatim>\<open>*big.Int\<close> is an
  \<^typ>\<open>int option\<close>, fixed-width integers are words of their width, and addresses are
  160-bit words, whose numeric order is the byte order of the 20-byte array.
\<close>

record fee_recipient =
  fr_Addr :: addr
  fr_Weight :: u64

record fee_credit =
  fc_Addr :: addr
  fc_Amount :: int

record access_tuple =
  at_Address :: addr
  at_StorageKeys :: "hash list"

record transaction =
  tx_Hash :: hash
  tx_From :: "addr option"
  tx_To :: "addr option"
  tx_Value :: "int option"
  tx_Type :: byte
  tx_Timestamp :: u64
  tx_ChainID :: "int option"
  tx_Nonce :: u64
  tx_GasLimit :: u64
  tx_GasPrice :: "int option"
  tx_MaxFee :: "int option"
  tx_MaxPriorityFee :: "int option"
  tx_Data :: "byte list"
  tx_AccessList :: "access_tuple list"
  tx_V :: "int option"
  tx_R :: "int option"
  tx_S :: "int option"

record account_nonce =
  an_Address :: addr
  an_Nonce :: u64

record zkblock =
  b_StarkProof :: "byte list"
  b_Commitment :: "32 word list"
  b_ProofHash :: string
  b_Status :: string
  b_TxnsRoot :: string
  b_Transactions :: "transaction list"
  b_Timestamp :: u64
  b_ExtraData :: string
  b_StateRoot :: hash
  b_LogsBloom :: "byte list"
  b_CoinbaseAddr :: "addr option"
  b_ZKVMAddr :: "addr option"
  b_FeeRecipients :: "fee_recipient list"
  b_PrevHash :: hash
  b_BlockHash :: hash
  b_GasLimit :: u64
  b_GasUsed :: u64
  b_BlockNumber :: u64
  b_L1TxHash :: string
  b_L1BlockNumber :: u64
  b_AccountNonces :: "account_nonce list"

record parsed_zk_transaction =
  p_Original :: transaction
  p_ValueBig :: int
  p_EffectiveGasFee :: int

record block_message =
  m_ID :: string
  m_Sender :: string
  m_Timestamp :: u64
  m_Nonce :: string
  m_Block :: "zkblock option"
  m_Hops :: u64
  m_Type :: string
  m_Data :: "string \<rightharpoonup> string"

text \<open>The zero value of the transaction and block structs, from which concrete inputs are built.\<close>

definition zero_tx :: transaction where
  "zero_tx = \<lparr>tx_Hash = zero_hash, tx_From = None, tx_To = None, tx_Value = None, tx_Type = 0,
     tx_Timestamp = 0, tx_ChainID = None, tx_Nonce = 0, tx_GasLimit = 0, tx_GasPrice = None,
     tx_MaxFee = None, tx_MaxPriorityFee = None, tx_Data = [], tx_AccessList = [],
     tx_V = None, tx_R = None, tx_S = None\<rparr>"

definition zero_block :: zkblock where
  "zero_block = \<lparr>b_StarkProof = [], b_Commitment = [], b_ProofHash = [], b_Status = [],
     b_TxnsRoot = [], b_Transactions = [], b_Timestamp = 0, b_ExtraData = [],
     b_StateRoot = zero_hash, b_LogsBloom = [], b_CoinbaseAddr = None, b_ZKVMAddr = None,
     b_FeeRecipients = [], b_PrevHash = zero_hash, b_BlockHash = zero_hash, b_GasLimit = 0,
     b_GasUsed = 0, b_BlockNumber = 0, b_L1TxHash = [], b_L1BlockNumber = 0,
     b_AccountNonces = []\<rparr>"

end
