(* ===== verification/Store.thy ===== *)
theory Store
  imports ZKBlock
begin

text \<open>
  The node's databases and the Go code that drives them.

  immudb is third-party code. Its state is the record \<open>db\<close>: the account documents
  of accountsdb (keys \<^verbatim>\<open>address:<addr>\<close>, values the JSON of an \<^verbatim>\<open>Account\<close>), the other
  keys of accountsdb, and the keys of defaultdb. Two process-wide variables of the
  node live in the same record: the first-seen map of the equivocation check and the
  state-apply mutex. Every client call consumes one
  tick, and the environment decides how the call ends: \<open>Done\<close>, \<open>Failed\<close> (an error
  and no effect), or \<open>LostAck\<close> (the server committed, the caller sees an error).
  \<^verbatim>\<open>ExecAll\<close> is atomic. The environment also supplies the wall clock.

  Go code runs in the monad \<open>'a go\<close>: it threads the database and can panic. A Go
  \<^verbatim>\<open>(T, error)\<close> pair is \<open>err + 'a\<close>. \<open>wp\<close> is the weakest-precondition reading of a
  computation; its rules, collected in \<open>wp_rules\<close>, turn a program into the condition
  its result satisfies.
\<close>

named_theorems wp_rules "weakest-precondition equations of the database monad"

subsection \<open>State and environment\<close>

record account =
  a_DIDAddress :: string
  a_Nonce :: u64
  a_Address :: addr
  a_Balance :: string
  a_TxNonce :: u64
  a_TxCountSent :: u64
  a_AccountType :: string
  a_CreatedAt :: u64
  a_UpdatedAt :: u64
  a_Metadata :: "string option"

definition zero_account :: account where
  "zero_account = \<lparr>a_DIDAddress = [], a_Nonce = 0, a_Address = 0, a_Balance = [], a_TxNonce = 0,
     a_TxCountSent = 0, a_AccountType = [], a_CreatedAt = 0, a_UpdatedAt = 0, a_Metadata = None\<rparr>"

type_synonym ledger = "addr \<rightharpoonup> account"
type_synonym kv = "string \<rightharpoonup> string"

record db =
  accounts :: ledger
  acctkv :: kv
  mainkv :: kv
  seenHeights :: "u64 \<rightharpoonup> string"
  state_lock :: bool
  tick :: nat

datatype outcome = Done | Failed | LostAck

record env =
  fault :: "nat \<Rightarrow> outcome"
  clock :: "nat \<Rightarrow> int"

datatype err =
    ENotFound
  | EDb
  | EBadRecord
  | ENoDocs
  | ETooManyEntries
  | EInvalidAccount
  | ENilConnection
  | ENegativeValue
  | ENegativeGasFee
  | ESenderMissing
  | ERecipientUnknown
  | ERecipientMissing
  | EStaleNonce
  | EInsufficientBalance
  | EBadBalance
  | EBadAmount
  | ENegativeAmount
  | EOrdinalsExhausted
  | EBlockExists
  | EBlockFailed nat err
  | EBlockFailedMarked nat err

subsection \<open>The monad\<close>

datatype 'a result = Ret 'a | Panic

type_synonym 'a go = "env \<Rightarrow> db \<Rightarrow> 'a result \<times> db"

definition ret :: "'a \<Rightarrow> 'a go" where
  "ret a = (\<lambda>e s. (Ret a, s))"

definition go_panic :: "'a go" where
  "go_panic = (\<lambda>e s. (Panic, s))"

definition bnd :: "'a go \<Rightarrow> ('a \<Rightarrow> 'b go) \<Rightarrow> 'b go" where
  "bnd m f = (\<lambda>e s. case m e s of (Ret a, s') \<Rightarrow> f a e s' | (Panic, s') \<Rightarrow> (Panic, s'))"

text \<open>\<open>attempt m h k\<close> is \<^verbatim>\<open>if v, err := m; err != nil { h } else { k }\<close>.\<close>

definition attempt :: "(err + 'a) go \<Rightarrow> (err \<Rightarrow> 'b go) \<Rightarrow> ('a \<Rightarrow> 'b go) \<Rightarrow> 'b go" where
  "attempt m h k = bnd m (\<lambda>r. case r of Inl e \<Rightarrow> h e | Inr a \<Rightarrow> k a)"

text \<open>\<open>deferring m d\<close> runs \<open>d\<close> after \<open>m\<close>, also when \<open>m\<close> panics (\<^verbatim>\<open>defer\<close>).\<close>

definition deferring :: "'a go \<Rightarrow> (db \<Rightarrow> db) \<Rightarrow> 'a go" where
  "deferring m d = (\<lambda>e s. case m e s of (r, s') \<Rightarrow> (r, d s'))"

text \<open>One client call.\<close>

definition sys :: "(outcome \<Rightarrow> db \<Rightarrow> 'a \<times> db) \<Rightarrow> 'a go" where
  "sys f = (\<lambda>e s. case f (fault e (tick s)) (s\<lparr>tick := Suc (tick s)\<rparr>) of (a, s') \<Rightarrow> (Ret a, s'))"

definition now :: "int go" where
  "now = (\<lambda>e s. (Ret (clock e (tick s)), s))"

definition LockStateApply :: "unit go" where
  "LockStateApply = (\<lambda>e s. (Ret (), s\<lparr>state_lock := True\<rparr>))"

definition UnlockStateApply :: "unit go" where
  "UnlockStateApply = (\<lambda>e s. (Ret (), s\<lparr>state_lock := False\<rparr>))"

definition wp :: "'a go \<Rightarrow> env \<Rightarrow> ('a \<Rightarrow> db \<Rightarrow> bool) \<Rightarrow> (db \<Rightarrow> bool) \<Rightarrow> db \<Rightarrow> bool" where
  "wp m e Q P s = (case m e s of (Ret a, s') \<Rightarrow> Q a s' | (Panic, s') \<Rightarrow> P s')"

lemma wp_ret [wp_rules]: "wp (ret a) e Q P s = Q a s"
  by (simp add: wp_def ret_def)

lemma wp_panic [wp_rules]: "wp go_panic e Q P s = P s"
  by (simp add: wp_def go_panic_def)

lemma wp_bnd [wp_rules]: "wp (bnd m f) e Q P s = wp m e (\<lambda>a. wp (f a) e Q P) P s"
  by (auto simp: wp_def bnd_def split: prod.splits result.splits)

lemma wp_attempt [wp_rules]:
  "wp (attempt m h k) e Q P s
     = wp m e (\<lambda>r. case r of Inl x \<Rightarrow> wp (h x) e Q P | Inr a \<Rightarrow> wp (k a) e Q P) P s"
  unfolding attempt_def wp_bnd
  by (rule arg_cong [where f = "\<lambda>X. wp m e X P s"]) (auto simp: fun_eq_iff split: sum.splits)

lemma wp_deferring [wp_rules]:
  "wp (deferring m d) e Q P s = wp m e (\<lambda>a s'. Q a (d s')) (\<lambda>s'. P (d s')) s"
  by (auto simp: wp_def deferring_def split: prod.splits result.splits)

lemma wp_sys [wp_rules]:
  "wp (sys f) e Q P s = (case f (fault e (tick s)) (s\<lparr>tick := Suc (tick s)\<rparr>) of (a, s') \<Rightarrow> Q a s')"
  by (auto simp: wp_def sys_def split: prod.splits)

lemma wp_now [wp_rules]: "wp now e Q P s = Q (clock e (tick s)) s"
  by (simp add: wp_def now_def)

lemma wp_lock [wp_rules]: "wp LockStateApply e Q P s = Q () (s\<lparr>state_lock := True\<rparr>)"
  by (simp add: wp_def LockStateApply_def)

lemma wp_unlock [wp_rules]: "wp UnlockStateApply e Q P s = Q () (s\<lparr>state_lock := False\<rparr>)"
  by (simp add: wp_def UnlockStateApply_def)

lemma wp_mono:
  assumes "wp m e Q P s" "\<And>a s'. Q a s' \<Longrightarrow> Q' a s'" "\<And>s'. P s' \<Longrightarrow> P' s'"
  shows "wp m e Q' P' s"
  using assms by (auto simp: wp_def split: prod.splits result.splits)

lemma wp_run: "wp m e Q P s \<Longrightarrow> m e s = (Ret a, s') \<Longrightarrow> Q a s'"
  by (simp add: wp_def)

lemma run_eq: "fst p = r \<Longrightarrow> p = (r, snd p)"
  by (simp add: prod_eq_iff)

lemma wp_if [wp_rules]: "wp (if b then m else m') e Q P s = (if b then wp m e Q P s else wp m' e Q P s)"
  by simp

end
