(* ===== verification/DbOps.thy ===== *)
theory DbOps
  imports Store
begin

text \<open>
  The database operations of \<^verbatim>\<open>src/DB_OPs\<close> that block execution uses: the key-value
  helpers of \<^verbatim>\<open>immuclient.go\<close>, account reads and writes of
  \<^verbatim>\<open>account_immuclient.go\<close>, the transaction and block markers of
  \<^verbatim>\<open>tx_markers.go\<close>, the applied anchor and the marker filter of
  \<^verbatim>\<open>sync_anchor.go\<close>, the tip marker of \<^verbatim>\<open>latest_block.go\<close>, the identity ordinals
  of \<^verbatim>\<open>art_ordinal.go\<close> and the first-seen records of \<^verbatim>\<open>equivocation.go\<close>.

  Acquiring a connection and selecting a database are folded into the client call
  that follows them when a failure of either is reported the same way.
\<close>

subsection \<open>Key-value helpers\<close>

text \<open>A raw read of one key; \<^const>\<open>None\<close> is immudb's key-not-found error.\<close>

definition kv_get :: "(db \<Rightarrow> kv) \<Rightarrow> string \<Rightarrow> (err + string option) go" where
  "kv_get sel key = sys (\<lambda>oc s. (case oc of Done \<Rightarrow> Inr (sel s key) | _ \<Rightarrow> Inl EDb, s))"

definition commits :: "outcome \<Rightarrow> bool" where
  "commits oc \<longleftrightarrow> oc \<noteq> Failed"

definition write_result :: "outcome \<Rightarrow> err + unit" where
  "write_result oc = (if oc = Done then Inr () else Inl EDb)"

definition ReadKey :: "string \<Rightarrow> (err + string) go" where
  "ReadKey key = bnd (kv_get mainkv key) (\<lambda>r. ret (case r of
      Inl e \<Rightarrow> Inl e | Inr None \<Rightarrow> Inl ENotFound | Inr (Some v) \<Rightarrow> Inr v))"

definition Exists :: "string \<Rightarrow> (err + bool) go" where
  "Exists key = bnd (ReadKey key) (\<lambda>r. ret (case r of
      Inr _ \<Rightarrow> Inr True | Inl e \<Rightarrow> if e = ENotFound then Inr False else Inl e))"

definition Create :: "string \<Rightarrow> string \<Rightarrow> (err + unit) go" where
  "Create key v = sys (\<lambda>oc s. (write_result oc,
      if commits oc then s\<lparr>mainkv := (mainkv s)(key \<mapsto> v)\<rparr> else s))"

text \<open>
  \<^verbatim>\<open>SafeCreate\<close> on a caller's client. When the verified write reports an error it logs
  through a pooled-connection variable that is nil on this path, which panics.
\<close>

definition SafeCreate :: "(db \<Rightarrow> db) \<Rightarrow> (err + unit) go" where
  "SafeCreate put = bnd (sys (\<lambda>oc s. (oc, if commits oc then put s else s)))
      (\<lambda>oc. if oc = Done then ret (Inr ()) else go_panic)"

definition put_acct :: "string \<Rightarrow> string \<Rightarrow> db \<Rightarrow> db" where
  "put_acct key v s = s\<lparr>acctkv := (acctkv s)(key \<mapsto> v)\<rparr>"

text \<open>\<^verbatim>\<open>json.Unmarshal\<close> into a \<^verbatim>\<open>uint64\<close>: a JSON integer in range; \<^verbatim>\<open>null\<close> leaves the zero value.\<close>

definition json_space :: "char \<Rightarrow> bool" where
  "json_space c \<longleftrightarrow> (of_char c :: nat) \<in> {9, 10, 13, 32}"

definition json_trim :: "string \<Rightarrow> string" where
  "json_trim s = rev (dropWhile json_space (rev (dropWhile json_space s)))"

definition json_u64 :: "string \<Rightarrow> u64 option" where
  "json_u64 s =
     (let t = json_trim s
      in if t = ''null'' then Some 0
         else if length t > 1 \<and> hd t = CHR ''0'' then None
         else (case parse_nat t of None \<Rightarrow> None | Some n \<Rightarrow> if n < 2 ^ 64 then Some (word_of_nat n) else None))"

definition show_u64 :: "u64 \<Rightarrow> string" where
  "show_u64 w = show_nat (unat w)"

subsection \<open>Accounts\<close>

definition GetAccount :: "addr \<Rightarrow> (err + account) go" where
  "GetAccount a = sys (\<lambda>oc s. (case oc of
       Done \<Rightarrow> (case accounts s a of None \<Rightarrow> Inl ENotFound | Some d \<Rightarrow> Inr d)
     | _ \<Rightarrow> Inl EDb, s))"

definition put_account :: "account \<Rightarrow> db \<Rightarrow> db" where
  "put_account d s = s\<lparr>accounts := (accounts s)(a_Address d \<mapsto> d)\<rparr>"

definition UpdateAccount :: "account \<Rightarrow> (err + unit) go" where
  "UpdateAccount d =
     attempt (sys (\<lambda>oc s. (if oc = Done then Inr () else Inl EDb, s))) (\<lambda>e. ret (Inl e))
       (\<lambda>_. if a_Address d = 0 then ret (Inl EInvalidAccount) else SafeCreate (put_account d))"

fun EnsureDBConnection :: "nat \<Rightarrow> (err + unit) go" where
  "EnsureDBConnection 0 = ret (Inl EDb)"
| "EnsureDBConnection (Suc n) =
     bnd (sys (\<lambda>oc s. (oc = Done, s))) (\<lambda>ok. if ok then ret (Inr ()) else EnsureDBConnection n)"

subsection \<open>Transaction and block markers\<close>

definition MarkerRevoked :: int where "MarkerRevoked = -1"
definition maxExecAllEntries :: nat where "maxExecAllEntries = 1024"
definition TxProcessedKey :: "string \<Rightarrow> string" where "TxProcessedKey h = ''tx_processed:'' @ h"
definition TxProcessingKey :: "string \<Rightarrow> string" where "TxProcessingKey h = ''tx_processing:'' @ h"
definition BlockProcessedKey :: "string \<Rightarrow> string" where "BlockProcessedKey h = ''block_processed:'' @ h"

definition markerValueApplied :: "string \<Rightarrow> bool" where
  "markerValueApplied raw = (case ParseInt64 raw of None \<Rightarrow> True | Some v \<Rightarrow> v \<noteq> MarkerRevoked)"

definition IsMarkerApplied :: "string \<Rightarrow> (err + bool) go" where
  "IsMarkerApplied key =
     attempt (kv_get acctkv key) (\<lambda>e. ret (Inl e)) (\<lambda>r. case r of
        Some v \<Rightarrow> ret (Inr (markerValueApplied v))
      | None \<Rightarrow> attempt (kv_get mainkv key) (\<lambda>e. ret (Inl e)) (\<lambda>r'. ret (Inr (case r' of
          None \<Rightarrow> False | Some v \<Rightarrow> markerValueApplied v))))"

definition markerOp :: "string \<Rightarrow> int \<Rightarrow> db \<Rightarrow> db" where
  "markerOp key v = put_acct key (big_String v)"

definition ExecAll :: "(db \<Rightarrow> db) list \<Rightarrow> (err + unit) go" where
  "ExecAll ops = sys (\<lambda>oc s. (write_result oc, if commits oc then fold (\<lambda>f. f) ops s else s))"

definition ApplyTxAtomic :: "account list \<Rightarrow> string \<Rightarrow> int \<Rightarrow> (err + unit) go" where
  "ApplyTxAtomic docs txHash appliedAt =
     (if docs = [] then ret (Inl ENoDocs)
      else if length docs + 1 > maxExecAllEntries then ret (Inl ETooManyEntries)
      else ExecAll (map put_account docs @ [markerOp (TxProcessedKey txHash) appliedAt]))"

text \<open>Marker writes are committed in chunks of 500; a failed chunk ends the loop.\<close>

function exec_chunks :: "nat \<Rightarrow> (db \<Rightarrow> db) list \<Rightarrow> (err + unit) go" where
  "exec_chunks chunk ops =
     (if ops = [] \<or> chunk = 0 then ret (Inr ())
      else attempt (ExecAll (take chunk ops)) (\<lambda>e. ret (Inl e)) (\<lambda>_. exec_chunks chunk (drop chunk ops)))"
  by auto
termination
  by (relation "measure (\<lambda>(_, ops). length ops)") auto

declare exec_chunks.simps [simp del]

text \<open>\<open>markers\<close> lists the Go map in its iteration order.\<close>

definition WriteTxProcessedMarkers :: "(string \<times> int) list \<Rightarrow> (err + unit) go" where
  "WriteTxProcessedMarkers markers = exec_chunks 500 (map (\<lambda>(h, v). markerOp (TxProcessedKey h) v) markers)"

definition RevokeTxProcessedMarkers :: "string list \<Rightarrow> (err + unit) go" where
  "RevokeTxProcessedMarkers txHashes =
     exec_chunks 500 (map (\<lambda>h. markerOp (TxProcessedKey h) MarkerRevoked) txHashes)"

definition WriteBlockProcessedMarker :: "string \<Rightarrow> (err + unit) go" where
  "WriteBlockProcessedMarker blockHash =
     bnd now (\<lambda>t. ExecAll [markerOp (BlockProcessedKey blockHash) t])"

subsection \<open>The marker filter\<close>

text \<open>One \<^verbatim>\<open>GetAll\<close> per 1000 keys; found values are recorded by transaction hash.\<close>

function collectMarkerValues :: "(db \<Rightarrow> kv) \<Rightarrow> string list \<Rightarrow> kv \<Rightarrow> (err + kv) go" where
  "collectMarkerValues sel hashes out =
     (if hashes = [] then ret (Inr out)
      else attempt (sys (\<lambda>oc s. (if oc = Done
                then Inr (\<lambda>h. if h \<in> set (take 1000 hashes) then sel s (TxProcessedKey h) else None)
                else Inl EDb, s)))
             (\<lambda>e. ret (Inl e))
             (\<lambda>found. collectMarkerValues sel (drop 1000 hashes) (out ++ found)))"
  by auto
termination
  by (relation "measure (\<lambda>(_, hashes, _). length hashes)") auto

declare collectMarkerValues.simps [simp del]

definition FilterProcessedTxMarkers :: "string list \<Rightarrow> (err + (string \<Rightarrow> bool)) go" where
  "FilterProcessedTxMarkers txHashes =
     (if txHashes = [] then ret (Inr (\<lambda>_. False))
      else attempt (collectMarkerValues acctkv txHashes Map.empty) (\<lambda>e. ret (Inl e)) (\<lambda>acct.
        let legacyKeys = filter (\<lambda>h. acct h = None) txHashes;
            applied = (\<lambda>m h. case m h of None \<Rightarrow> False | Some v \<Rightarrow> markerValueApplied v)
        in if legacyKeys = [] then ret (Inr (applied acct))
           else attempt (collectMarkerValues mainkv legacyKeys Map.empty) (\<lambda>e. ret (Inl e)) (\<lambda>main.
             ret (Inr (\<lambda>h. applied acct h \<or> applied main h)))))"

subsection \<open>The applied anchor\<close>

definition AppliedAnchorKey :: string where "AppliedAnchorKey = ''sync:accounts_last_applied_block''"

definition NextLiveAnchor :: "u64 \<Rightarrow> u64 \<Rightarrow> u64 \<times> bool" where
  "NextLiveAnchor current block = (if block = current + 1 then (block, True) else (current, False))"

definition NextReconAnchor :: "u64 \<Rightarrow> u64 \<Rightarrow> u64 \<times> bool" where
  "NextReconAnchor current target = (if target > current then (target, True) else (current, False))"

definition ShouldAdvanceReconAnchor :: "bool \<Rightarrow> int \<Rightarrow> bool \<Rightarrow> bool" where
  "ShouldAdvanceReconAnchor reconOk failedAccounts verifyPassed \<longleftrightarrow>
     reconOk \<and> failedAccounts = 0 \<and> verifyPassed"

definition CapAnchorTarget :: "u64 \<Rightarrow> u64 \<Rightarrow> u64" where
  "CapAnchorTarget target tip = (if target > tip then tip else target)"

definition readAnchorLocked :: "(err + u64 option) go" where
  "readAnchorLocked = bnd (kv_get acctkv AppliedAnchorKey) (\<lambda>r. ret (case r of
      Inl e \<Rightarrow> Inl e
    | Inr None \<Rightarrow> Inr None
    | Inr (Some raw) \<Rightarrow> (case json_u64 raw of None \<Rightarrow> Inl EBadRecord | Some w \<Rightarrow> Inr (Some w))))"

definition writeAnchorLocked :: "u64 \<Rightarrow> (err + unit) go" where
  "writeAnchorLocked v = SafeCreate (put_acct AppliedAnchorKey (show_u64 v))"

definition advanceAnchor :: "u64 \<Rightarrow> bool \<Rightarrow> (err + u64 \<times> bool) go" where
  "advanceAnchor target contiguous =
     attempt readAnchorLocked (\<lambda>e. ret (Inl e)) (\<lambda>r.
       let current = (case r of None \<Rightarrow> 0 | Some a \<Rightarrow> a);
           (nxt, advance) = (if contiguous then NextLiveAnchor current target else NextReconAnchor current target)
       in if \<not> advance then ret (Inr (current, False))
          else attempt (writeAnchorLocked nxt) (\<lambda>e. ret (Inl e)) (\<lambda>_. ret (Inr (nxt, True))))"

definition AdvanceAppliedAnchorContiguous :: "u64 \<Rightarrow> (err + u64 \<times> bool) go" where
  "AdvanceAppliedAnchorContiguous block = advanceAnchor block True"

definition AdvanceAppliedAnchorTo :: "u64 \<Rightarrow> (err + u64 \<times> bool) go" where
  "AdvanceAppliedAnchorTo target = advanceAnchor target False"

definition SeedAppliedAnchor :: "u64 \<Rightarrow> (err + bool) go" where
  "SeedAppliedAnchor legacy =
     (if legacy = 0 then ret (Inr False)
      else attempt readAnchorLocked (\<lambda>e. ret (Inl e)) (\<lambda>r. case r of
          Some _ \<Rightarrow> ret (Inr False)
        | None \<Rightarrow> attempt (writeAnchorLocked legacy) (\<lambda>e. ret (Inl e)) (\<lambda>_. ret (Inr True))))"

subsection \<open>The tip marker\<close>

definition GetLatestBlockNumber :: "(err + u64) go" where
  "GetLatestBlockNumber = bnd (ReadKey ''latest_block'') (\<lambda>r. ret (case r of
      Inl e \<Rightarrow> if e = ENotFound then Inr 0 else Inl e
    | Inr raw \<Rightarrow> (case json_u64 raw of None \<Rightarrow> Inl EBadRecord | Some w \<Rightarrow> Inr w)))"

definition nextLatestBlock :: "u64 \<Rightarrow> u64 \<Rightarrow> u64 \<times> bool" where
  "nextLatestBlock current candidate = (if candidate > current then (candidate, True) else (current, False))"

definition UpdateLatestBlockMonotonic :: "u64 \<Rightarrow> (err + u64 \<times> bool) go" where
  "UpdateLatestBlockMonotonic blockNumber =
     attempt GetLatestBlockNumber (\<lambda>e. ret (Inl e)) (\<lambda>current.
       let (nxt, advance) = nextLatestBlock current blockNumber
       in if \<not> advance then ret (Inr (current, False))
          else attempt (Create ''latest_block'' (show_u64 nxt)) (\<lambda>e. ret (Inl e)) (\<lambda>_. ret (Inr (nxt, True))))"

subsection \<open>Identity ordinals\<close>

definition ARTOrdinalMax :: u64 where "ARTOrdinalMax = 2 ^ 40"
definition artOrdinalKey :: string where "artOrdinalKey = ''art_ordinal_next''"

definition readARTOrdinalNext :: "(err + u64) go" where
  "readARTOrdinalNext = bnd (ReadKey artOrdinalKey) (\<lambda>r. ret (case r of
      Inl e \<Rightarrow> if e = ENotFound then Inr 1 else Inl e
    | Inr raw \<Rightarrow> (case json_u64 raw of
          None \<Rightarrow> Inl EBadRecord | Some w \<Rightarrow> Inr (if w = 0 then 1 else w))))"

definition reserveARTOrdinals :: "u64 \<Rightarrow> (err + u64) go" where
  "reserveARTOrdinals n =
     (if n = 0 then ret (Inl EOrdinalsExhausted)
      else attempt readARTOrdinalNext (\<lambda>e. ret (Inl e)) (\<lambda>nxt.
        if nxt + n \<ge> ARTOrdinalMax then ret (Inl EOrdinalsExhausted)
        else attempt (Create artOrdinalKey (show_u64 (nxt + n))) (\<lambda>e. ret (Inl e)) (\<lambda>_. ret (Inr nxt))))"

definition BumpARTOrdinalFloor :: "u64 \<Rightarrow> (err + unit) go" where
  "BumpARTOrdinalFloor fl =
     (if fl = 0 \<or> fl \<ge> ARTOrdinalMax then ret (Inr ())
      else attempt readARTOrdinalNext (\<lambda>e. ret (Inl e)) (\<lambda>nxt.
        if fl \<le> nxt then ret (Inr ()) else Create artOrdinalKey (show_u64 fl)))"

subsection \<open>Encodings\<close>

lemma show_nat_hd: "1 < length (show_nat n) \<Longrightarrow> hd (show_nat n) \<noteq> CHR ''0''"
proof (induction n rule: show_nat.induct)
  case (1 n)
  then have n: "\<not> n < 10" by (auto simp: show_nat.simps [of n] split: if_splits)
  show ?case
  proof (cases "n div 10 < 10")
    case True
    have "of_char (digit_char (n div 10)) = 48 + n div 10"
      using True by (simp add: digit_char_def of_char_of)
    moreover have "n div 10 \<noteq> 0" using n by simp
    ultimately have "digit_char (n div 10) \<noteq> CHR ''0''" by auto
    with True n show ?thesis by (simp add: show_nat.simps [of n] show_nat.simps [of "n div 10"])
  next
    case False
    then have "1 < length (show_nat (n div 10))"
      by (simp add: show_nat.simps [of "n div 10"])
    with "1.IH" n show ?thesis by (simp add: show_nat.simps [of n])
  qed
qed

lemma digit_not_json_space: "is_digit c \<Longrightarrow> \<not> json_space c"
  by (auto simp: is_digit_def json_space_def)

lemma json_trim_digits: "\<forall>c \<in> set t. is_digit c \<Longrightarrow> json_trim t = t"
proof -
  assume "\<forall>c \<in> set t. is_digit c"
  then have ns: "\<forall>c \<in> set t. \<not> json_space c" using digit_not_json_space by blast
  have "dropWhile json_space t = t" "dropWhile json_space (rev t) = rev t"
    using ns by (metis dropWhile_hd_False list.set_sel(1), metis ns dropWhile_hd_False list.set_sel(1) set_rev)
  then show ?thesis by (simp add: json_trim_def)
qed

lemma json_u64_show [simp]: "json_u64 (show_u64 w) = Some w"
proof -
  let ?t = "show_nat (unat w)"
  have dig: "\<forall>c \<in> set ?t. is_digit c" using show_nat_digits by blast
  have "?t \<noteq> ''null''" using dig by (auto simp: is_digit_def)
  moreover have "unat w < 2 ^ 64" using unsigned_less [of w] by simp
  ultimately show ?thesis
    using json_trim_digits [OF dig] show_nat_hd [of "unat w"]
    by (auto simp: json_u64_def show_u64_def Let_def)
qed

lemma markerValueApplied_String:
  "- (2 ^ 63) \<le> v \<Longrightarrow> v < 2 ^ 63 \<Longrightarrow> markerValueApplied (big_String v) \<longleftrightarrow> v \<noteq> -1"
  by (simp add: markerValueApplied_def ParseInt64_String MarkerRevoked_def)

lemma marker_keys_distinct [simp]:
  "TxProcessedKey h = TxProcessedKey h' \<longleftrightarrow> h = h'"
  "BlockProcessedKey h = BlockProcessedKey h' \<longleftrightarrow> h = h'"
  "TxProcessedKey h \<noteq> BlockProcessedKey h'" "BlockProcessedKey h \<noteq> TxProcessedKey h'"
  "TxProcessedKey h \<noteq> AppliedAnchorKey" "AppliedAnchorKey \<noteq> TxProcessedKey h"
  "BlockProcessedKey h \<noteq> AppliedAnchorKey" "AppliedAnchorKey \<noteq> BlockProcessedKey h"
  by (simp_all add: TxProcessedKey_def BlockProcessedKey_def AppliedAnchorKey_def)

subsection \<open>Weakest preconditions of the operations\<close>

lemma wp_kv_get [wp_rules]:
  "wp (kv_get sel key) e Q P s =
     Q (if fault e (tick s) = Done then Inr (sel (s\<lparr>tick := Suc (tick s)\<rparr>) key) else Inl EDb) (s\<lparr>tick := Suc (tick s)\<rparr>)"
  by (simp add: kv_get_def wp_rules split: outcome.splits)

lemma wp_Create [wp_rules]:
  "wp (Create key v) e Q P s =
     Q (write_result (fault e (tick s)))
       (if commits (fault e (tick s)) then s\<lparr>tick := Suc (tick s), mainkv := (mainkv s)(key \<mapsto> v)\<rparr>
        else s\<lparr>tick := Suc (tick s)\<rparr>)"
  by (simp add: Create_def wp_rules)

lemma wp_SafeCreate [wp_rules]:
  "wp (SafeCreate put) e Q P s =
     (case fault e (tick s) of
        Done \<Rightarrow> Q (Inr ()) (put (s\<lparr>tick := Suc (tick s)\<rparr>))
      | Failed \<Rightarrow> P (s\<lparr>tick := Suc (tick s)\<rparr>)
      | LostAck \<Rightarrow> P (put (s\<lparr>tick := Suc (tick s)\<rparr>)))"
  by (simp add: SafeCreate_def wp_rules commits_def split: outcome.splits)

lemma wp_GetAccount [wp_rules]:
  "wp (GetAccount a) e Q P s =
     Q (if fault e (tick s) = Done then (case accounts s a of None \<Rightarrow> Inl ENotFound | Some d \<Rightarrow> Inr d) else Inl EDb)
       (s\<lparr>tick := Suc (tick s)\<rparr>)"
  by (simp add: GetAccount_def wp_rules split: outcome.splits)

lemma wp_ExecAll [wp_rules]:
  "wp (ExecAll ops) e Q P s =
     Q (write_result (fault e (tick s)))
       (if commits (fault e (tick s)) then fold (\<lambda>f. f) ops (s\<lparr>tick := Suc (tick s)\<rparr>) else s\<lparr>tick := Suc (tick s)\<rparr>)"
  by (simp add: ExecAll_def wp_rules)

lemma write_result_simps [simp]:
  "write_result Done = Inr ()" "write_result Failed = Inl EDb" "write_result LostAck = Inl EDb"
  by (simp_all add: write_result_def)

lemma commits_simps [simp]: "commits Done" "\<not> commits Failed" "commits LostAck"
  by (simp_all add: commits_def)

subsection \<open>Markers that only move forward\<close>

definition anchor_of :: "db \<Rightarrow> u64" where
  "anchor_of s = (case acctkv s AppliedAnchorKey of None \<Rightarrow> 0
     | Some raw \<Rightarrow> (case json_u64 raw of None \<Rightarrow> 0 | Some w \<Rightarrow> w))"

definition tip_of :: "db \<Rightarrow> u64" where
  "tip_of s = (case mainkv s ''latest_block'' of None \<Rightarrow> 0
     | Some raw \<Rightarrow> (case json_u64 raw of None \<Rightarrow> 0 | Some w \<Rightarrow> w))"

definition ordinal_of :: "db \<Rightarrow> u64" where
  "ordinal_of s = (case mainkv s artOrdinalKey of None \<Rightarrow> 1
     | Some raw \<Rightarrow> (case json_u64 raw of None \<Rightarrow> 1 | Some w \<Rightarrow> if w = 0 then 1 else w))"

lemma anchor_of_put [simp]: "anchor_of (put_acct AppliedAnchorKey (show_u64 w) s) = w"
  by (simp add: anchor_of_def put_acct_def)

lemma anchor_of_tick [simp]: "anchor_of (s\<lparr>tick := t\<rparr>) = anchor_of s"
  by (simp add: anchor_of_def)

lemma tip_of_tick [simp]: "tip_of (s\<lparr>tick := t\<rparr>) = tip_of s"
  by (simp add: tip_of_def)

lemma ordinal_of_tick [simp]: "ordinal_of (s\<lparr>tick := t\<rparr>) = ordinal_of s"
  by (simp add: ordinal_of_def)

lemma wp_readAnchorLocked [wp_rules]:
  "wp readAnchorLocked e Q P s =
     Q (if fault e (tick s) \<noteq> Done then Inl EDb
        else case acctkv s AppliedAnchorKey of None \<Rightarrow> Inr None
           | Some raw \<Rightarrow> (case json_u64 raw of None \<Rightarrow> Inl EBadRecord | Some w \<Rightarrow> Inr (Some w)))
       (s\<lparr>tick := Suc (tick s)\<rparr>)"
  by (simp add: readAnchorLocked_def wp_rules split: option.splits)

lemma advanceAnchor_wp:
  "wp (advanceAnchor target contiguous) e
     (\<lambda>r s'. accounts s' = accounts s \<and> mainkv s' = mainkv s \<and>
        (case r of
           Inr (a, True) \<Rightarrow> a = target \<and> anchor_of s' = target \<and>
             (if contiguous then target = anchor_of s + 1 else anchor_of s < target)
         | Inr (a, False) \<Rightarrow> a = anchor_of s \<and> acctkv s' = acctkv s \<and>
             (if contiguous then target \<noteq> anchor_of s + 1 else target \<le> anchor_of s)
         | Inl _ \<Rightarrow> acctkv s' = acctkv s))
     (\<lambda>s'. accounts s' = accounts s \<and> mainkv s' = mainkv s \<and>
        (anchor_of s' = anchor_of s \<or>
         anchor_of s' = target \<and> (if contiguous then target = anchor_of s + 1 else anchor_of s < target)))
     s"
  by (auto simp: advanceAnchor_def wp_rules writeAnchorLocked_def NextLiveAnchor_def NextReconAnchor_def
      anchor_of_def put_acct_def Let_def split: option.splits outcome.splits)
    (simp_all add: word_gt_0)

lemma wp_ReadKey [wp_rules]:
  "wp (ReadKey key) e Q P s =
     Q (if fault e (tick s) \<noteq> Done then Inl EDb
        else case mainkv s key of None \<Rightarrow> Inl ENotFound | Some v \<Rightarrow> Inr v)
       (s\<lparr>tick := Suc (tick s)\<rparr>)"
  by (simp add: ReadKey_def wp_rules split: option.splits)

lemma wp_GetLatestBlockNumber [wp_rules]:
  "wp GetLatestBlockNumber e Q P s =
     Q (if fault e (tick s) \<noteq> Done then Inl EDb
        else case mainkv s ''latest_block'' of None \<Rightarrow> Inr 0
           | Some raw \<Rightarrow> (case json_u64 raw of None \<Rightarrow> Inl EBadRecord | Some w \<Rightarrow> Inr w))
       (s\<lparr>tick := Suc (tick s)\<rparr>)"
  by (simp add: GetLatestBlockNumber_def wp_rules split: option.splits)

lemma UpdateLatestBlockMonotonic_wp:
  "wp (UpdateLatestBlockMonotonic n) e
     (\<lambda>r s'. accounts s' = accounts s \<and> acctkv s' = acctkv s \<and> tip_of s \<le> tip_of s' \<and>
        (tip_of s' = tip_of s \<or> tip_of s' = n) \<and>
        (\<forall>t moved. r = Inr (t, moved) \<longrightarrow> tip_of s' = t \<and> t = max (tip_of s) n))
     (\<lambda>s'. False) s"
proof (cases "fault e (tick s) = Done")
  case True
  then show ?thesis
    by (cases "fault e (Suc (tick s))"; cases "mainkv s ''latest_block''")
       (simp_all add: UpdateLatestBlockMonotonic_def nextLatestBlock_def wp_rules tip_of_def max_def
         word_gt_0 less_imp_le split: option.split)
qed (simp add: UpdateLatestBlockMonotonic_def wp_rules)

lemma wp_readARTOrdinalNext [wp_rules]:
  "wp readARTOrdinalNext e Q P s =
     Q (if fault e (tick s) \<noteq> Done then Inl EDb
        else case mainkv s artOrdinalKey of None \<Rightarrow> Inr 1
           | Some raw \<Rightarrow> (case json_u64 raw of None \<Rightarrow> Inl EBadRecord | Some w \<Rightarrow> Inr (if w = 0 then 1 else w)))
       (s\<lparr>tick := Suc (tick s)\<rparr>)"
  by (simp add: readARTOrdinalNext_def wp_rules split: option.splits)

lemma reserveARTOrdinals_wp:
  assumes "ordinal_of s < ARTOrdinalMax" "n < ARTOrdinalMax"
  shows "wp (reserveARTOrdinals n) e
     (\<lambda>r s'. accounts s' = accounts s \<and> acctkv s' = acctkv s \<and>
        (\<forall>first. r = Inr first \<longrightarrow> first = ordinal_of s \<and> ordinal_of s' = first + n) \<and>
        ordinal_of s \<le> ordinal_of s' \<and> ordinal_of s' < ARTOrdinalMax)
     (\<lambda>s'. False) s"
proof (cases "n = 0 \<or> fault e (tick s) \<noteq> Done")
  case True
  with assms show ?thesis by (auto simp: reserveARTOrdinals_def wp_rules)
next
  case False
  then have n: "n \<noteq> 0" and ok: "fault e (tick s) = Done" by auto
  have "unat (ordinal_of s) + unat n < 2 ^ 64"
    using assms unfolding ARTOrdinalMax_def word_less_nat_alt by simp
  then have le: "ordinal_of s \<le> ordinal_of s + n"
    by (simp add: word_le_nat_alt unat_word_ariths)
  moreover have "ordinal_of s \<noteq> 0"
    by (auto simp: ordinal_of_def split: option.splits)
  ultimately have nz: "ordinal_of s + n \<noteq> 0" by auto
  consider (bad) raw where "mainkv s artOrdinalKey = Some raw" "json_u64 raw = None"
    | (good) "(case mainkv s artOrdinalKey of None \<Rightarrow> Inr 1
           | Some raw \<Rightarrow> (case json_u64 raw of None \<Rightarrow> Inl EBadRecord | Some w \<Rightarrow> Inr (if w = 0 then 1 else w)))
         = Inr (ordinal_of s)"
    by (cases "mainkv s artOrdinalKey"; cases "json_u64 (the (mainkv s artOrdinalKey))")
       (auto simp: ordinal_of_def)
  then show ?thesis
  proof cases
    case bad
    with n ok assms show ?thesis by (simp add: reserveARTOrdinals_def wp_rules)
  next
    case good
    have put: "ordinal_of (s\<lparr>tick := t, mainkv := (mainkv s)(artOrdinalKey \<mapsto> show_u64 (ordinal_of s + n))\<rparr>)
        = ordinal_of s + n" for t
      using nz by (simp add: ordinal_of_def)
    from n ok assms good le show ?thesis
      by (cases "fault e (Suc (tick s))")
         (simp_all add: reserveARTOrdinals_def wp_rules put not_le)
  qed
qed

subsection \<open>Properties\<close>

text \<open>
  C24. The applied anchor is exact under every database fault: a successful advance
  stores exactly the requested block, and only when the rule allows it (the live path
  only \<^verbatim>\<open>anchor+1\<close>, reconciliation only a larger target); a refused or failed advance
  stores nothing; and even when the write panics after a lost acknowledgement the
  stored anchor is the old one or the permitted one. Account documents are never
  touched.
\<close>
theorem anchor_advance_exact:
  assumes "advanceAnchor target contiguous e s = (r, s')"
  shows "accounts s' = accounts s \<and>
     (anchor_of s' = anchor_of s \<or>
      anchor_of s' = target \<and> (if contiguous then target = anchor_of s + 1 else anchor_of s < target)) \<and>
     (r = Ret (Inr (a, True)) \<longrightarrow> anchor_of s' = target \<and> a = target) \<and>
     (\<forall>x. r = Ret (Inl x) \<longrightarrow> acctkv s' = acctkv s)"
  using advanceAnchor_wp [of target contiguous e s] assms
  by (auto simp: wp_def anchor_of_def split: result.splits sum.splits bool.splits)

definition fresh_db :: db where
  "fresh_db = \<lparr>accounts = Map.empty, acctkv = Map.empty, mainkv = Map.empty, seenHeights = Map.empty, state_lock = False, tick = 0\<rparr>"

definition calm :: env where
  "calm = \<lparr>fault = (\<lambda>_. Done), clock = (\<lambda>_. 1700000000)\<rparr>"

theorem anchor_advance_exact_witness:
  "anchor_of (snd (advanceAnchor 1 True calm fresh_db)) = 1 \<and>
   anchor_of (snd (advanceAnchor 5 True calm fresh_db)) = 0"
proof -
  have run: "fst (advanceAnchor 1 True calm fresh_db) = Ret (Inr (1, True))" by code_simp
  have skip: "fst (advanceAnchor 5 True calm fresh_db) = Ret (Inr (0, False))" by code_simp
  have a0: "anchor_of fresh_db = 0" by (simp add: anchor_of_def fresh_db_def)
  from anchor_advance_exact [OF run_eq [OF run], of 1] anchor_advance_exact [OF run_eq [OF skip], of 0] a0 show ?thesis by auto
qed

text \<open>
  C25. The tip marker never moves back, under every database fault (a write that is
  committed but reported as failed included), and a successful update leaves the
  larger of the stored and the offered block number.
\<close>
theorem latest_block_monotonic:
  "wp (UpdateLatestBlockMonotonic n) e
     (\<lambda>r s'. tip_of s \<le> tip_of s' \<and> (tip_of s' = tip_of s \<or> tip_of s' = n) \<and>
        accounts s' = accounts s \<and> (r = Inr (t, moved) \<longrightarrow> tip_of s' = t \<and> t = max (tip_of s) n))
     (\<lambda>s'. False) s"
  by (rule wp_mono [OF UpdateLatestBlockMonotonic_wp]) auto

theorem latest_block_monotonic_witness:
  "wp (UpdateLatestBlockMonotonic 7) calm (\<lambda>r s'. tip_of fresh_db \<le> tip_of s') (\<lambda>_. False) fresh_db"
  by (rule wp_mono [OF latest_block_monotonic [of 7 calm fresh_db 7 True]]) auto

text \<open>
  C26. Identity ordinals are never handed out twice: while the counter is inside the
  ordinal space, a reservation, however the database behaves, never lowers the stored
  counter, and a successful reservation of \<open>n\<close> ordinals starting at \<open>first\<close> leaves the
  counter at \<open>first + n\<close>, so the next reservation starts after the last one handed out.
\<close>
theorem ordinals_never_reused:
  assumes "ordinal_of s < ARTOrdinalMax" "n < ARTOrdinalMax"
    and "reserveARTOrdinals n e s = (Ret r, s')"
  shows "ordinal_of s \<le> ordinal_of s' \<and> ordinal_of s' < ARTOrdinalMax \<and>
     (r = Inr first \<longrightarrow> first = ordinal_of s \<and> ordinal_of s' = first + n)"
  using reserveARTOrdinals_wp [OF assms(1,2), of e] assms(3) by (auto simp: wp_def)

theorem ordinals_never_reused_witness:
  "ordinal_of (snd (reserveARTOrdinals 3 calm fresh_db)) = 4"
proof -
  have run: "fst (reserveARTOrdinals 3 calm fresh_db) = Ret (Inr 1)" by code_simp
  have o: "ordinal_of fresh_db = 1" by (simp add: ordinal_of_def fresh_db_def)
  from ordinals_never_reused [OF _ _ run_eq [OF run], of 1] o show ?thesis by (simp add: ARTOrdinalMax_def)
qed

end
