(* ===== verification/GasFee.thy ===== *)
theory GasFee
  imports ZKBlock
begin

text \<open>
  The consensus fee formula of \<^verbatim>\<open>src/config/gasfee.go\<close>: the split of a
  transaction's fee between the ZKVM address and the coinbase side, and the
  effective price and limit a transaction pays. Live execution and catch-up
  reconciliation both call these functions; the conservation results of
  \<^verbatim>\<open>BlockProcessing\<close> and \<^verbatim>\<open>AccountRecon\<close> rest on the exactness proved here.
\<close>

subsection \<open>Splitting a fee\<close>

primrec total_weight :: "fee_recipient list \<Rightarrow> int" where
  "total_weight [] = 0"
| "total_weight (r # rs) = (if fr_Weight r > 0 then uint (fr_Weight r) else 0) + total_weight rs"

text \<open>
  The distribution loop: recipients of weight 0 are skipped, every other one is
  credited the floor of its share.
\<close>

primrec distribute :: "int \<Rightarrow> int \<Rightarrow> fee_recipient list \<Rightarrow> fee_credit list" where
  "distribute share totalW [] = []"
| "distribute share totalW (r # rs) =
     (if fr_Weight r = 0 then distribute share totalW rs
      else \<lparr>fc_Addr = fr_Addr r, fc_Amount = share * uint (fr_Weight r) div totalW\<rparr>
             # distribute share totalW rs)"

definition credit_sum :: "fee_credit list \<Rightarrow> int" where
  "credit_sum cs = sum_list (map fc_Amount cs)"

definition add_remainder :: "int \<Rightarrow> fee_credit list \<Rightarrow> fee_credit list" where
  "add_remainder rem cs =
     (case cs of [] \<Rightarrow> [] | c # cs' \<Rightarrow> if rem = 0 then cs else c\<lparr>fc_Amount := fc_Amount c + rem\<rparr> # cs')"

text \<open>
  The body after the canonical sort, for the order \<open>ordered\<close> the sort produced.
  Go's \<^verbatim>\<open>sort.Slice\<close> does not promise an order among recipients with equal
  addresses, so the result is studied for every sorted permutation.
\<close>

definition split_ordered :: "int \<Rightarrow> fee_recipient list \<Rightarrow> fee_credit list" where
  "split_ordered share ordered =
     (let credits = distribute share (total_weight ordered) ordered
      in add_remainder (share - credit_sum credits) credits)"

definition SplitFee :: "int option \<Rightarrow> addr \<Rightarrow> fee_recipient list \<Rightarrow> int \<times> fee_credit list" where
  "SplitFee gasFee coinbase recipients =
     (let g = (case gasFee of None \<Rightarrow> 0 | Some g \<Rightarrow> g);
          zkvmShare = g div 2;
          coinbaseShare = g - zkvmShare;
          totalW = total_weight recipients
      in if recipients = [] \<or> totalW = 0
         then (zkvmShare, [\<lparr>fc_Addr = coinbase, fc_Amount = coinbaseShare\<rparr>])
         else (zkvmShare, split_ordered coinbaseShare (sort_key fr_Addr recipients)))"

subsection \<open>Effective price, limit and fee\<close>

definition BaseFeeWei :: int where "BaseFeeWei = 35000000000"
definition FallbackGasPriceWei :: int where "FallbackGasPriceWei = 1000000000"
definition FallbackTxGasLimit :: u64 where "FallbackTxGasLimit = 21000"

definition EffectiveGasPrice :: "byte \<Rightarrow> int option \<Rightarrow> int option \<Rightarrow> int option \<Rightarrow> int" where
  "EffectiveGasPrice txType gasPrice maxFee maxPriorityFee =
     (if txType = 2 then
        (let mf = (case maxFee of None \<Rightarrow> BaseFeeWei | Some f \<Rightarrow> f);
             tip = (case maxPriorityFee of None \<Rightarrow> 0 | Some t \<Rightarrow> t);
             basePlusTip = BaseFeeWei + tip
         in if mf \<le> basePlusTip then mf else basePlusTip)
      else case gasPrice of Some p \<Rightarrow> p
         | None \<Rightarrow> (case maxFee of Some p \<Rightarrow> p
         | None \<Rightarrow> (case maxPriorityFee of Some p \<Rightarrow> p
         | None \<Rightarrow> FallbackGasPriceWei)))"

definition EffectiveGasLimit :: "u64 \<Rightarrow> u64" where
  "EffectiveGasLimit gasLimit = (if gasLimit = 0 then FallbackTxGasLimit else gasLimit)"

definition GasFee :: "byte \<Rightarrow> u64 \<Rightarrow> int option \<Rightarrow> int option \<Rightarrow> int option \<Rightarrow> int" where
  "GasFee txType gasLimit gasPrice maxFee maxPriorityFee =
     uint (EffectiveGasLimit gasLimit) * EffectiveGasPrice txType gasPrice maxFee maxPriorityFee"

subsection \<open>Exactness\<close>

lemma credit_sum_simps [simp]:
  "credit_sum [] = 0" "credit_sum (c # cs) = fc_Amount c + credit_sum cs"
  by (simp_all add: credit_sum_def)

lemma total_weight_nonneg: "0 \<le> total_weight rs"
  by (induction rs) auto

lemma weight_uint [simp]: "(if (0::u64) < w then uint w else 0) = uint w"
  by (auto simp: word_gt_0)

lemma total_weight_uint: "total_weight rs = sum_list (map (uint \<circ> fr_Weight) rs)"
  by (induction rs) auto

lemma total_weight_perm: "mset rs = mset rs' \<Longrightarrow> total_weight rs = total_weight rs'"
  unfolding total_weight_uint
  by (metis mset_map sum_mset_sum_list)

lemma uint_pos_iff: "0 < uint (w :: 'a::len word) \<longleftrightarrow> w \<noteq> 0"
  using unsigned_eq_0_iff [of w] by (metis order_less_le unsigned_greater_eq)

lemma distribute_empty_iff: "distribute share totalW rs = [] \<longleftrightarrow> total_weight rs = 0"
proof (induction rs)
  case (Cons r rs)
  have "fr_Weight r \<noteq> 0 \<Longrightarrow> 0 < uint (fr_Weight r) + total_weight rs"
    using total_weight_nonneg [of rs] by (intro add_pos_nonneg) (simp_all add: uint_pos_iff)
  with Cons show ?case by auto
qed simp

lemma credit_sum_add_remainder: "cs \<noteq> [] \<Longrightarrow> credit_sum (add_remainder rem cs) = credit_sum cs + rem"
  by (cases cs) (auto simp: add_remainder_def)

lemma credit_sum_split_ordered: "total_weight rs \<noteq> 0 \<Longrightarrow> credit_sum (split_ordered share rs) = share"
  by (simp add: split_ordered_def Let_def credit_sum_add_remainder distribute_empty_iff)

lemma total_weight_sort [simp]: "total_weight (sort_key f rs) = total_weight rs"
  by (rule total_weight_perm) simp

lemma SplitFee_fst [simp]: "fst (SplitFee gasFee coinbase rs) = (case gasFee of None \<Rightarrow> 0 | Some g \<Rightarrow> g) div 2"
  by (simp add: SplitFee_def Let_def)

lemma SplitFee_sum:
  "fst (SplitFee gasFee coinbase rs) + credit_sum (snd (SplitFee gasFee coinbase rs))
     = (case gasFee of None \<Rightarrow> 0 | Some g \<Rightarrow> g)"
  by (simp add: SplitFee_def Let_def credit_sum_split_ordered)

subsection \<open>Bounds on the individual credits\<close>

lemma distribute_sum_upper:
  assumes "0 < t" "0 \<le> share"
  shows "t * credit_sum (distribute share t rs) \<le> share * total_weight rs"
proof (induction rs)
  case (Cons r rs)
  have "t * (share * uint (fr_Weight r) div t) \<le> share * uint (fr_Weight r)"
    using assms by (metis mult.commute pos_mod_sign minus_mod_eq_mult_div diff_le_eq
        le_add_same_cancel1)
  with Cons show ?case by (auto simp: distrib_left)
qed simp

lemma distribute_sum_lower:
  assumes "0 < t" "0 \<le> share"
  shows "share * total_weight rs \<le> t * credit_sum (distribute share t rs) + int (length (distribute share t rs)) * (t - 1)"
proof (induction rs)
  case (Cons r rs)
  have "share * uint (fr_Weight r) = t * (share * uint (fr_Weight r) div t) + share * uint (fr_Weight r) mod t"
    by simp
  moreover have "share * uint (fr_Weight r) mod t \<le> t - 1"
    using assms by simp
  ultimately have "share * uint (fr_Weight r) \<le> t * (share * uint (fr_Weight r) div t) + (t - 1)"
    by linarith
  with Cons show ?case by (auto simp: distrib_left algebra_simps)
qed simp

lemma distribute_remainder:
  assumes "total_weight rs \<noteq> 0" "0 \<le> share"
  defines "cs \<equiv> distribute share (total_weight rs) rs"
  shows "0 \<le> share - credit_sum cs" and "share - credit_sum cs < int (length cs)"
proof -
  define t where "t = total_weight rs"
  have t: "0 < t" using assms(1) total_weight_nonneg [of rs] by (simp add: t_def)
  have "t * credit_sum cs \<le> t * share"
    using distribute_sum_upper [OF t assms(2), of rs] by (simp add: cs_def t_def mult.commute)
  with t show "0 \<le> share - credit_sum cs" by simp
  have ne: "cs \<noteq> []" using assms(1) by (simp add: cs_def distribute_empty_iff)
  have "t * share \<le> t * credit_sum cs + int (length cs) * (t - 1)"
    using distribute_sum_lower [OF t assms(2), of rs] by (simp add: cs_def t_def mult.commute)
  also have "\<dots> < t * credit_sum cs + t * int (length cs)"
    using ne t by (simp add: right_diff_distrib mult.commute)
  finally have "t * share < t * (credit_sum cs + int (length cs))" by (simp add: distrib_left)
  with t show "share - credit_sum cs < int (length cs)" by simp
qed

lemma distribute_nonneg: "0 < t \<Longrightarrow> 0 \<le> share \<Longrightarrow> c \<in> set (distribute share t rs) \<Longrightarrow> 0 \<le> fc_Amount c"
  by (induction rs) (auto split: if_splits simp: pos_imp_zdiv_nonneg_iff)

lemma add_remainder_nonneg:
  "(\<And>c. c \<in> set cs \<Longrightarrow> 0 \<le> fc_Amount c) \<Longrightarrow> 0 \<le> rem \<Longrightarrow> c \<in> set (add_remainder rem cs) \<Longrightarrow> 0 \<le> fc_Amount c"
  by (cases cs) (auto simp: add_remainder_def split: if_splits)

lemma SplitFee_nonneg:
  assumes "0 \<le> g"
  shows "0 \<le> fst (SplitFee (Some g) coinbase rs)"
    and "c \<in> set (snd (SplitFee (Some g) coinbase rs)) \<Longrightarrow> 0 \<le> fc_Amount c"
proof -
  show "0 \<le> fst (SplitFee (Some g) coinbase rs)" using assms by simp
  have share: "0 \<le> g - g div 2" using assms by linarith
  assume c: "c \<in> set (snd (SplitFee (Some g) coinbase rs))"
  show "0 \<le> fc_Amount c"
  proof (cases "rs = [] \<or> total_weight rs = 0")
    case True
    with c share show ?thesis by (auto simp: SplitFee_def Let_def)
  next
    case False
    define os where "os = sort_key fr_Addr rs"
    have t: "total_weight os \<noteq> 0" "0 < total_weight os"
      using False total_weight_nonneg [of rs] by (simp_all add: os_def)
    have "c \<in> set (split_ordered (g - g div 2) os)"
      using c False by (simp add: SplitFee_def Let_def os_def)
    then show ?thesis
      unfolding split_ordered_def Let_def
      using distribute_nonneg [OF t(2) share] distribute_remainder(1) [OF t(1) share]
      by (rule add_remainder_nonneg [rotated 2])
  qed
qed

subsection \<open>Independence of the recipient order\<close>

definition credited :: "addr \<Rightarrow> fee_credit list \<Rightarrow> int" where
  "credited a cs = sum_list (map fc_Amount (filter (\<lambda>c. fc_Addr c = a) cs))"

lemma credited_simps [simp]:
  "credited a [] = 0"
  "credited a (c # cs) = (if fc_Addr c = a then fc_Amount c else 0) + credited a cs"
  by (simp_all add: credited_def)

lemma credited_add_remainder:
  "credited a (add_remainder rem cs)
     = credited a cs + (if cs \<noteq> [] \<and> fc_Addr (hd cs) = a then rem else 0)"
  by (cases cs) (auto simp: add_remainder_def)

lemma credited_distribute:
  "credited a (distribute share t rs)
     = sum_list (map (\<lambda>r. if fr_Addr r = a then share * uint (fr_Weight r) div t else 0) rs)"
  by (induction rs) auto

lemma credit_sum_distribute:
  "credit_sum (distribute share t rs) = sum_list (map (\<lambda>r. share * uint (fr_Weight r) div t) rs)"
  by (induction rs) auto

lemma sum_list_map_perm: "mset xs = mset ys \<Longrightarrow> sum_list (map f xs) = (sum_list (map f ys) :: int)"
  by (metis mset_map sum_mset_sum_list)

lemma distribute_filter: "distribute share t rs = distribute share t (filter (\<lambda>r. fr_Weight r \<noteq> 0) rs)"
  by (induction rs) auto

lemma hd_sorted_Min:
  assumes "sorted (map f xs)" "xs \<noteq> []" shows "f (hd xs) = Min (f ` set xs)"
  using assms by (cases xs) (auto intro!: Min_eqI [symmetric])

lemma distribute_hd:
  assumes "sorted (map fr_Addr os)" "total_weight os \<noteq> 0"
  shows "fc_Addr (hd (distribute share t os)) = Min (fr_Addr ` {r \<in> set os. fr_Weight r \<noteq> 0})"
proof -
  define fs where "fs = filter (\<lambda>r. fr_Weight r \<noteq> 0) os"
  have ne: "fs \<noteq> []"
    using assms(2) distribute_filter [of share t os] distribute_empty_iff [of share t os]
    by (auto simp: fs_def)
  have "fc_Addr (hd (distribute share t fs)) = fr_Addr (hd fs)"
  proof -
    have "fr_Weight (hd fs) \<noteq> 0" using hd_in_set [OF ne] by (auto simp: fs_def)
    with ne show ?thesis by (cases fs) auto
  qed
  also have "\<dots> = Min (fr_Addr ` set fs)"
    using assms(1) ne by (intro hd_sorted_Min) (auto simp: fs_def sorted_filter)
  finally show ?thesis using distribute_filter [of share t os] by (simp add: fs_def)
qed

lemma split_ordered_perm:
  assumes "mset os = mset os'" "sorted (map fr_Addr os)" "sorted (map fr_Addr os')"
    and "total_weight os \<noteq> 0"
  shows "credited a (split_ordered share os) = credited a (split_ordered share os')"
proof -
  note tw = total_weight_perm [OF assms(1)]
  have set: "set os = set os'" using assms(1) by (rule mset_eq_setD)
  have "distribute share t os = [] \<longleftrightarrow> distribute share t os' = []" for t
    by (simp add: distribute_empty_iff tw)
  moreover have "fc_Addr (hd (distribute share t os)) = fc_Addr (hd (distribute share t os'))" for t
    using distribute_hd assms tw by (simp add: set)
  ultimately show ?thesis
    unfolding split_ordered_def Let_def credited_add_remainder credited_distribute
      credit_sum_distribute tw
    by (simp add: sum_list_map_perm [OF assms(1)])
qed

subsection \<open>Properties\<close>

text \<open>
  C23. \<^verbatim>\<open>SplitFee\<close> is exact to the wei: whatever the fee (nil included), the coinbase
  and the recipient list (empty, all weights zero, duplicated addresses), the ZKVM
  share plus all returned credits is the fee. This is the invariant its comment
  guarantees.
\<close>
theorem SplitFee_exact:
  "fst (SplitFee gasFee coinbase rs) + sum_list (map fc_Amount (snd (SplitFee gasFee coinbase rs)))
     = (case gasFee of None \<Rightarrow> 0 | Some g \<Rightarrow> g)"
  using SplitFee_sum unfolding credit_sum_def .

text \<open>
  The distribution does not depend on the order in which the block lists its
  recipients, nor on how the sort orders recipients with equal addresses: every
  address is credited the same total for any sorted permutation of the list.
\<close>
theorem SplitFee_order_independent:
  assumes "mset ordered = mset rs" "sorted (map fr_Addr ordered)" "total_weight rs \<noteq> 0"
  shows "credited a (snd (SplitFee (Some g) coinbase rs))
           = credited a (split_ordered (g - g div 2) ordered)"
proof -
  from assms(3) have "rs \<noteq> []" by auto
  with assms(3) have "snd (SplitFee (Some g) coinbase rs) = split_ordered (g - g div 2) (sort_key fr_Addr rs)"
    by (simp add: SplitFee_def Let_def)
  also have "credited a \<dots> = credited a (split_ordered (g - g div 2) ordered)"
    using assms by (intro split_ordered_perm) simp_all
  finally show ?thesis .
qed

theorem SplitFee_order_independent_witness:
  "credited 7 (snd (SplitFee (Some 11) 1
      [\<lparr>fr_Addr = 9, fr_Weight = 1\<rparr>, \<lparr>fr_Addr = 7, fr_Weight = 3\<rparr>, \<lparr>fr_Addr = 7, fr_Weight = 1\<rparr>])) = 5"
  using SplitFee_order_independent [of
      "[\<lparr>fr_Addr = 7, fr_Weight = 1\<rparr>, \<lparr>fr_Addr = 7, fr_Weight = 3\<rparr>, \<lparr>fr_Addr = 9, fr_Weight = 1\<rparr>]"
      "[\<lparr>fr_Addr = 9, fr_Weight = 1\<rparr>, \<lparr>fr_Addr = 7, fr_Weight = 3\<rparr>, \<lparr>fr_Addr = 7, fr_Weight = 1\<rparr>]" 7 11 1]
  by (simp add: split_ordered_def add_remainder_def)

end
