(* ===== verification/BlockProcessing.thy ===== *)
theory BlockProcessing
  imports DbOps GasFee
begin

text \<open>
  Block execution: \<^verbatim>\<open>src/messaging/BlockProcessing/Processing.go\<close>. One transaction is
  staged in memory (\<open>txStage\<close>), then committed with its \<^verbatim>\<open>tx_processed\<close> marker in one
  atomic write; a block runs its transactions in order and, when one fails, revokes
  the markers of the others and restores a snapshot of the accounts it read first.

  Log and trace calls have no effect on state and are left out; where they
  dereference a nil pointer the model panics. The per-transaction and per-block
  mutexes serialise goroutines and have no effect on one run. The iteration order of
  the Go map of affected accounts is the argument \<open>ord\<close>.
\<close>

subsection \<open>The transaction stage\<close>

record tx_stage =
  st_docs :: "addr \<rightharpoonup> account"
  st_order :: "addr list"

definition newTxStage :: tx_stage where
  "newTxStage = \<lparr>st_docs = Map.empty, st_order = []\<rparr>"

definition stage_get :: "tx_stage \<Rightarrow> addr \<Rightarrow> (err + account) go" where
  "stage_get st a = (case st_docs st a of Some doc \<Rightarrow> ret (Inr doc) | None \<Rightarrow> GetAccount a)"

definition stage_put :: "account \<Rightarrow> tx_stage \<Rightarrow> tx_stage" where
  "stage_put doc st =
     \<lparr>st_docs = (st_docs st)(a_Address doc \<mapsto> doc),
      st_order = (if st_docs st (a_Address doc) = None then st_order st @ [a_Address doc] else st_order st)\<rparr>"

definition staged :: "tx_stage \<Rightarrow> account list" where
  "staged st = List.map_filter (st_docs st) (st_order st)"

definition adoptCarriedNonce :: "tx_stage \<Rightarrow> addr \<Rightarrow> (addr \<rightharpoonup> u64) \<Rightarrow> tx_stage go" where
  "adoptCarriedNonce st a carried =
     (case carried a of
        None \<Rightarrow> ret st
      | Some nonce \<Rightarrow>
          if nonce = 0 then ret st
          else bnd (stage_get st a) (\<lambda>r. case r of
              Inl _ \<Rightarrow> ret st
            | Inr doc \<Rightarrow> ret (if a_Nonce doc = nonce then st else stage_put (doc\<lparr>a_Nonce := nonce\<rparr>) st)))"

definition nanos :: "u64 \<Rightarrow> u64" where
  "nanos ts = ts * 1000000000"

definition parseTransaction :: "transaction \<Rightarrow> err + parsed_zk_transaction" where
  "parseTransaction tx =
     (let value = (case tx_Value tx of Some v \<Rightarrow> v | None \<Rightarrow> 0);
          fee = EffectiveGasPrice (tx_Type tx) (tx_GasPrice tx) (tx_MaxFee tx) (tx_MaxPriorityFee tx)
      in if value < 0 then Inl ENegativeValue
         else if fee < 0 then Inl ENegativeGasFee
         else Inr \<lparr>p_Original = tx, p_ValueBig = value, p_EffectiveGasFee = fee\<rparr>)"

definition deductFromSender ::
  "addr \<Rightarrow> u64 \<Rightarrow> string \<Rightarrow> tx_stage \<Rightarrow> u64 \<Rightarrow> (err + tx_stage) go" where
  "deductFromSender from_did nonce amount st blockTimestamp =
     attempt (stage_get st from_did) (\<lambda>e. ret (Inl e)) (\<lambda>doc.
       case big_SetString (a_Balance doc) of
         None \<Rightarrow> ret (Inl EBadBalance)
       | Some currentBalance \<Rightarrow>
           if nonce < a_TxNonce doc then ret (Inl EStaleNonce)
           else (case big_SetString amount of
               None \<Rightarrow> ret (Inl EBadAmount)
             | Some deductAmount \<Rightarrow>
                 if deductAmount < 0 then ret (Inl ENegativeAmount)
                 else if currentBalance < deductAmount then ret (Inl EInsufficientBalance)
                 else ret (Inr (stage_put
                   (doc\<lparr>a_Balance := big_String (currentBalance - deductAmount), a_TxNonce := nonce + 1,
                        a_TxCountSent := a_TxCountSent doc + 1, a_UpdatedAt := nanos blockTimestamp\<rparr>) st))))"

definition addToRecipient :: "addr \<Rightarrow> string \<Rightarrow> tx_stage \<Rightarrow> u64 \<Rightarrow> (err + tx_stage) go" where
  "addToRecipient to_addr amount st blockTimestamp =
     attempt (stage_get st to_addr) (\<lambda>e. ret (Inl e)) (\<lambda>doc.
       case big_SetString (a_Balance doc) of
         None \<Rightarrow> ret (Inl EBadBalance)
       | Some currentBalance \<Rightarrow> (case big_SetString amount of
           None \<Rightarrow> ret (Inl EBadAmount)
         | Some addAmount \<Rightarrow>
             if addAmount < 0 then ret (Inl ENegativeAmount)
             else ret (Inr (stage_put
               (doc\<lparr>a_Balance := big_String (currentBalance + addAmount),
                    a_UpdatedAt := nanos blockTimestamp\<rparr>) st))))"

primrec credit_all :: "fee_credit list \<Rightarrow> tx_stage \<Rightarrow> u64 \<Rightarrow> (err + tx_stage) go" where
  "credit_all [] st ts = ret (Inr st)"
| "credit_all (c # cs) st ts =
     attempt (addToRecipient (fc_Addr c) (big_String (fc_Amount c)) st ts) (\<lambda>e. ret (Inl e))
       (\<lambda>st'. credit_all cs st' ts)"

subsection \<open>One transaction\<close>

definition cleanupProcessingMarkers :: "string \<Rightarrow> unit go" where
  "cleanupProcessingMarkers txHash =
     bnd (Exists (TxProcessingKey txHash)) (\<lambda>r. case r of
        Inr True \<Rightarrow> bnd (Create (TxProcessingKey txHash) (big_String (-1))) (\<lambda>_. ret ())
      | _ \<Rightarrow> ret ())"

definition accountExists :: "addr \<Rightarrow> (err + bool) go" where
  "accountExists a = bnd (GetAccount a) (\<lambda>r. ret (case r of
      Inr _ \<Rightarrow> Inr True | Inl e \<Rightarrow> if e = ENotFound then Inr False else Inl e))"

text \<open>The reads that fill \<^verbatim>\<open>originalState\<close>; only their errors matter later.\<close>

primrec read_original_state :: "addr list \<Rightarrow> (err + unit) go" where
  "read_original_state [] = ret (Inr ())"
| "read_original_state (a # as) = bnd (GetAccount a) (\<lambda>r. case r of
      Inr _ \<Rightarrow> read_original_state as
    | Inl e \<Rightarrow> if e = ENotFound then read_original_state as else ret (Inl e))"

definition created_account :: "addr \<Rightarrow> string \<Rightarrow> u64 \<Rightarrow> u64 \<Rightarrow> account" where
  "created_account to_addr to_hex carriedNonce blockTimestamp =
     zero_account\<lparr>a_Nonce := carriedNonce, a_DIDAddress := ''did:jmdt:metamask:'' @ to_hex,
       a_Address := to_addr, a_Balance := ''0'', a_AccountType := ''user'',
       a_CreatedAt := nanos blockTimestamp, a_UpdatedAt := nanos blockTimestamp\<rparr>"

text \<open>The deduction and the credits: steps 1 to 3 of \<^verbatim>\<open>processTransaction\<close>.\<close>

definition settle_stage ::
  "transaction \<Rightarrow> addr \<Rightarrow> addr \<Rightarrow> addr \<Rightarrow> addr \<Rightarrow> fee_recipient list \<Rightarrow> u64 \<Rightarrow> int \<Rightarrow> tx_stage \<Rightarrow> (err + tx_stage) go" where
  "settle_stage tx from_did to_addr coinbase zkvm feeRecipients ts value st =
     (let fee = GasFee (tx_Type tx) (tx_GasLimit tx) (tx_GasPrice tx) (tx_MaxFee tx) (tx_MaxPriorityFee tx);
          (zkvmShare, credits) = SplitFee (Some fee) coinbase feeRecipients
      in attempt (deductFromSender from_did (tx_Nonce tx) (big_String (value + fee)) st ts) (\<lambda>e. ret (Inl e)) (\<lambda>st3.
         attempt (addToRecipient to_addr (big_String value) st3 ts) (\<lambda>e. ret (Inl e)) (\<lambda>st4.
         attempt (credit_all credits st4 ts) (\<lambda>e. ret (Inl e)) (\<lambda>st5.
         addToRecipient zkvm (big_String zkvmShare) st5 ts))))"

text \<open>
  The whole staging part: in-stage creation of a missing recipient, adoption of the
  carried identities, then the settlement. \<open>hexa\<close> is \<^verbatim>\<open>Address.Hex\<close> (an EIP-55
  checksum string).
\<close>

definition stage_transaction ::
  "(addr \<Rightarrow> string) \<Rightarrow> transaction \<Rightarrow> addr \<Rightarrow> addr \<Rightarrow> addr \<Rightarrow> addr \<Rightarrow> fee_recipient list \<Rightarrow> u64 \<Rightarrow>
     (addr \<rightharpoonup> u64) \<Rightarrow> int \<Rightarrow> bool \<Rightarrow> (err + tx_stage) go" where
  "stage_transaction hexa tx from_did to_addr coinbase zkvm feeRecipients ts carried value recipientExists =
     (let st0 = (if recipientExists then newTxStage
                 else stage_put (created_account to_addr (hexa to_addr)
                        (case carried to_addr of Some n \<Rightarrow> n | None \<Rightarrow> 0) ts) newTxStage)
      in bnd (adoptCarriedNonce st0 from_did carried) (\<lambda>st1.
         bnd (if recipientExists then adoptCarriedNonce st1 to_addr carried else ret st1)
           (settle_stage tx from_did to_addr coinbase zkvm feeRecipients ts value)))"

definition fail_tx :: "string \<Rightarrow> err \<Rightarrow> (err + unit) go" where
  "fail_tx h e = bnd (cleanupProcessingMarkers h) (\<lambda>_. ret (Inl e))"

definition commit_stage :: "string \<Rightarrow> tx_stage \<Rightarrow> (err + unit) go" where
  "commit_stage h st = bnd now (\<lambda>t.
     attempt (ApplyTxAtomic (staged st) h t) (\<lambda>e. fail_tx h e)
       (\<lambda>_. bnd (cleanupProcessingMarkers h) (\<lambda>_. ret (Inr ()))))"

text \<open>From the existence checks to the commit.\<close>

definition transfer_between ::
  "(addr \<Rightarrow> string) \<Rightarrow> transaction \<Rightarrow> addr \<Rightarrow> addr \<Rightarrow> addr \<Rightarrow> addr \<Rightarrow> fee_recipient list \<Rightarrow> u64 \<Rightarrow>
     (addr \<rightharpoonup> u64) \<Rightarrow> int \<Rightarrow> (err + unit) go" where
  "transfer_between hexa tx from_did to_addr coinbase zkvm feeRecipients ts carried value =
     (let h = Hash_Hex (tx_Hash tx);
          hasCarriedNonce = (case carried to_addr of None \<Rightarrow> False | Some n \<Rightarrow> n \<noteq> 0)
      in bnd (accountExists from_did) (\<lambda>senderExists.
         if senderExists \<noteq> Inr True then fail_tx h ESenderMissing
         else attempt (accountExists to_addr) (\<lambda>_. fail_tx h ERecipientUnknown) (\<lambda>recipientExists.
              if \<not> recipientExists \<and> \<not> hasCarriedNonce then fail_tx h ERecipientMissing
              else attempt (stage_transaction hexa tx from_did to_addr coinbase zkvm feeRecipients ts carried
                              value recipientExists)
                     (\<lambda>e. fail_tx h e) (commit_stage h))))"

text \<open>From the value parsing on, after the marker bookkeeping.\<close>

definition execute_transaction ::
  "(addr \<Rightarrow> string) \<Rightarrow> transaction \<Rightarrow> addr \<Rightarrow> addr \<Rightarrow> addr \<Rightarrow> addr \<Rightarrow> fee_recipient list \<Rightarrow> u64 \<Rightarrow>
     (addr \<rightharpoonup> u64) \<Rightarrow> (err + unit) go" where
  "execute_transaction hexa tx from_did to_addr coinbase zkvm feeRecipients ts carried =
     (case parseTransaction tx of
        Inl e \<Rightarrow> fail_tx (Hash_Hex (tx_Hash tx)) e
      | Inr parsed \<Rightarrow>
          transfer_between hexa tx from_did to_addr coinbase zkvm feeRecipients ts carried (p_ValueBig parsed))"

definition process_locked ::
  "(addr \<Rightarrow> string) \<Rightarrow> transaction \<Rightarrow> addr \<Rightarrow> addr \<Rightarrow> addr \<Rightarrow> addr \<Rightarrow> fee_recipient list \<Rightarrow> u64 \<Rightarrow>
     (addr \<rightharpoonup> u64) \<Rightarrow> (err + unit) go" where
  "process_locked hexa tx from_did to_addr coinbase zkvm feeRecipients ts carried =
     (let h = Hash_Hex (tx_Hash tx)
      in bnd (IsMarkerApplied (TxProcessedKey h)) (\<lambda>processed.
         if processed = Inr True then ret (Inr ())
         else bnd (Exists (TxProcessingKey h)) (\<lambda>processing.
              bnd (if processing = Inr True then bnd (ReadKey (TxProcessingKey h)) (\<lambda>_. ret ()) else ret ()) (\<lambda>_.
              bnd now (\<lambda>t.
              bnd (Create (TxProcessingKey h) (big_String t)) (\<lambda>_.
              attempt (read_original_state [from_did, to_addr, coinbase, zkvm]) (\<lambda>e. fail_tx h e) (\<lambda>_.
              execute_transaction hexa tx from_did to_addr coinbase zkvm feeRecipients ts carried)))))))"

definition unlock_state :: "db \<Rightarrow> db" where
  "unlock_state s = s\<lparr>state_lock := False\<rparr>"

definition processTransaction ::
  "(addr \<Rightarrow> string) \<Rightarrow> transaction \<Rightarrow> addr \<Rightarrow> addr \<Rightarrow> fee_recipient list \<Rightarrow> u64 \<Rightarrow>
     (addr \<rightharpoonup> u64) \<Rightarrow> (err + unit) go" where
  "processTransaction hexa tx coinbase zkvm feeRecipients ts carried =
     (case (tx_From tx, tx_To tx) of
        (Some from_did, Some to_addr) \<Rightarrow>
          attempt (EnsureDBConnection 3) (\<lambda>e. ret (Inl e)) (\<lambda>_.
            bnd LockStateApply (\<lambda>_.
              deferring (process_locked hexa tx from_did to_addr coinbase zkvm feeRecipients ts carried)
                unlock_state))
      | _ \<Rightarrow> go_panic)"

subsection \<open>One block\<close>

record account_snapshot =
  sn_Balance :: string
  sn_TxNonce :: u64
  sn_TxCountSent :: u64
  sn_UpdatedAt :: u64

definition snapshot_of :: "account \<Rightarrow> account_snapshot" where
  "snapshot_of doc = \<lparr>sn_Balance = a_Balance doc, sn_TxNonce = a_TxNonce doc,
     sn_TxCountSent = a_TxCountSent doc, sn_UpdatedAt = a_UpdatedAt doc\<rparr>"

definition zero_snapshot :: account_snapshot where
  "zero_snapshot = \<lparr>sn_Balance = ''0'', sn_TxNonce = 0, sn_TxCountSent = 0, sn_UpdatedAt = 0\<rparr>"

definition restore_snapshot :: "account_snapshot \<Rightarrow> account \<Rightarrow> account" where
  "restore_snapshot sn doc = doc\<lparr>a_Balance := sn_Balance sn, a_TxNonce := sn_TxNonce sn,
     a_TxCountSent := sn_TxCountSent sn, a_UpdatedAt := sn_UpdatedAt sn\<rparr>"

text \<open>The snapshot loop: every read error, not only key-not-found, gives the zero snapshot.\<close>

primrec take_snapshots :: "addr list \<Rightarrow> (addr \<rightharpoonup> account_snapshot) \<Rightarrow> (addr \<rightharpoonup> account_snapshot) go" where
  "take_snapshots [] m = ret m"
| "take_snapshots (a # as) m = bnd (GetAccount a) (\<lambda>r.
     take_snapshots as (m(a \<mapsto> (case r of Inr doc \<Rightarrow> snapshot_of doc | Inl _ \<Rightarrow> zero_snapshot))))"

text \<open>\<open>keys\<close> is the order in which the Go map \<open>snapshots\<close> is iterated.\<close>

primrec rollbackState :: "(addr \<rightharpoonup> account_snapshot) \<Rightarrow> addr list \<Rightarrow> (err + unit) go" where
  "rollbackState snapshots [] = ret (Inr ())"
| "rollbackState snapshots (a # keys) =
     (case snapshots a of
        None \<Rightarrow> rollbackState snapshots keys
      | Some sn \<Rightarrow> bnd (GetAccount a) (\<lambda>r.
          let doc = (case r of Inr d \<Rightarrow> d | Inl _ \<Rightarrow> zero_account\<lparr>a_Address := a\<rparr>)
          in attempt (UpdateAccount (restore_snapshot sn doc)) (\<lambda>e. ret (Inl e))
               (\<lambda>_. rollbackState snapshots keys)))"

primrec cleanup_all :: "string list \<Rightarrow> unit go" where
  "cleanup_all [] = ret ()"
| "cleanup_all (h # hs) = bnd (cleanupProcessingMarkers h) (\<lambda>_. cleanup_all hs)"

definition advanceAppliedAnchor :: "u64 \<Rightarrow> unit go" where
  "advanceAppliedAnchor blockNumber = bnd (AdvanceAppliedAnchorContiguous blockNumber) (\<lambda>_. ret ())"

text \<open>The failure branch of the loop: revoke the markers of the prefix, then restore the accounts.\<close>

definition abort_block ::
  "(addr \<rightharpoonup> account_snapshot) \<Rightarrow> addr list \<Rightarrow> nat \<Rightarrow> string \<Rightarrow> string list \<Rightarrow> err \<Rightarrow> (err + 'a) go" where
  "abort_block snapshots keys i txHash succ x =
     bnd LockStateApply (\<lambda>_.
     attempt (RevokeTxProcessedMarkers succ)
       (\<lambda>_. bnd UnlockStateApply (\<lambda>_. bnd (cleanupProcessingMarkers txHash)
              (\<lambda>_. ret (Inl (EBlockFailedMarked i x)))))
       (\<lambda>_. bnd (rollbackState snapshots keys) (\<lambda>_.
            bnd UnlockStateApply (\<lambda>_.
            bnd (cleanup_all succ) (\<lambda>_.
            bnd (cleanupProcessingMarkers txHash) (\<lambda>_. ret (Inl (EBlockFailed i x))))))))"

text \<open>
  The loop over the transactions; \<open>seen\<close> is \<^verbatim>\<open>processedTxs\<close>, \<open>succ\<close> is
  \<^verbatim>\<open>successfullyProcessedTxs\<close>, \<open>live\<close> is \<^verbatim>\<open>liveApplied\<close>.
\<close>

primrec process_loop ::
  "(transaction \<Rightarrow> (err + unit) go) \<Rightarrow> (addr \<rightharpoonup> account_snapshot) \<Rightarrow> addr list \<Rightarrow> (string \<Rightarrow> bool) \<Rightarrow>
     transaction list \<Rightarrow> nat \<Rightarrow> string list \<Rightarrow> string list \<Rightarrow> (err + string list) go" where
  "process_loop proc snapshots keys live [] i seen succ = ret (Inr succ)"
| "process_loop proc snapshots keys live (tx # txs) i seen succ =
     (let h = Hash_Hex (tx_Hash tx)
      in if h \<in> set seen then process_loop proc snapshots keys live txs (Suc i) seen succ
         else if live h then process_loop proc snapshots keys live txs (Suc i) (h # seen) succ
         else attempt (proc tx) (\<lambda>x. abort_block snapshots keys i h succ x)
                (\<lambda>_. process_loop proc snapshots keys live txs (Suc i) (h # seen) (succ @ [h])))"

definition carried_nonces :: "account_nonce list \<Rightarrow> (addr \<rightharpoonup> u64)" where
  "carried_nonces ans = fold (\<lambda>an m. m(an_Address an \<mapsto> an_Nonce an)) ans Map.empty"

definition max_carried_ordinal :: "account_nonce list \<Rightarrow> u64" where
  "max_carried_ordinal ans =
     fold (\<lambda>an m. if an_Nonce an < ARTOrdinalMax \<and> an_Nonce an > m then an_Nonce an else m) ans 0"

text \<open>The keys of the Go map of affected accounts; \<^const>\<open>None\<close> when a pointer is nil (a panic).\<close>

primrec tx_accounts :: "transaction list \<Rightarrow> addr list option" where
  "tx_accounts [] = Some []"
| "tx_accounts (tx # txs) = (case (tx_From tx, tx_To tx, tx_accounts txs) of
      (Some f, Some t, Some as) \<Rightarrow> Some (f # t # as) | _ \<Rightarrow> None)"

text \<open>After the loop: the block marker, whose failure is not fatal, and the advisory cleanups.\<close>

definition finish_block :: "string \<Rightarrow> string list \<Rightarrow> unit go" where
  "finish_block blockHash succ =
     (if succ = [] then ret () else bnd (WriteBlockProcessedMarker blockHash) (\<lambda>_. cleanup_all succ))"

definition execute_block ::
  "(addr \<Rightarrow> string) \<Rightarrow> (nat \<Rightarrow> addr list \<Rightarrow> addr list) \<Rightarrow> zkblock \<Rightarrow> addr \<Rightarrow> addr \<Rightarrow> addr list \<Rightarrow> (err + unit) go" where
  "execute_block hexa ord block coinbase zkvm affected =
     (let txs = b_Transactions block;
          proc = (\<lambda>tx. processTransaction hexa tx coinbase zkvm (b_FeeRecipients block) (b_Timestamp block)
                         (carried_nonces (b_AccountNonces block)))
      in bnd (take_snapshots (ord 0 affected) Map.empty) (\<lambda>originalState.
         attempt (FilterProcessedTxMarkers (map (\<lambda>tx. Hash_Hex (tx_Hash tx)) txs)) (\<lambda>e. ret (Inl e)) (\<lambda>live.
         attempt (process_loop proc originalState (ord 1 affected) live txs 0 [] []) (\<lambda>e. ret (Inl e)) (\<lambda>succ.
         bnd (finish_block (Hash_Hex (b_BlockHash block)) succ) (\<lambda>_.
         bnd (advanceAppliedAnchor (b_BlockNumber block)) (\<lambda>_. ret (Inr ())))))))"

definition collect_and_execute :: "(addr \<Rightarrow> string) \<Rightarrow> (nat \<Rightarrow> addr list \<Rightarrow> addr list) \<Rightarrow> zkblock \<Rightarrow> (err + unit) go" where
  "collect_and_execute hexa ord block =
     (case (tx_accounts (b_Transactions block), b_CoinbaseAddr block, b_ZKVMAddr block) of
        (Some as, Some coinbase, Some zkvm) \<Rightarrow>
          execute_block hexa ord block coinbase zkvm (remdups (as @ [coinbase, zkvm]))
      | _ \<Rightarrow> go_panic)"

definition bump_ordinal_floor :: "u64 \<Rightarrow> unit go" where
  "bump_ordinal_floor maxOrd =
     (if maxOrd > 0 then bnd (BumpARTOrdinalFloor (maxOrd + 1)) (\<lambda>_. ret ()) else ret ())"

definition ProcessBlockTransactions ::
  "(addr \<Rightarrow> string) \<Rightarrow> (nat \<Rightarrow> addr list \<Rightarrow> addr list) \<Rightarrow> zkblock \<Rightarrow> (err + unit) go" where
  "ProcessBlockTransactions hexa ord block =
     bnd (IsMarkerApplied (BlockProcessedKey (Hash_Hex (b_BlockHash block)))) (\<lambda>processed.
     if processed = Inr True then bnd (advanceAppliedAnchor (b_BlockNumber block)) (\<lambda>_. ret (Inr ()))
     else bnd (bump_ordinal_floor (max_carried_ordinal (b_AccountNonces block)))
            (\<lambda>_. collect_and_execute hexa ord block))"

end
