(* ===== verification/Ledger.thy ===== *)
theory Ledger
  imports BlockProcessing
begin

text \<open>
  The abstract ledger that block execution implements. A ledger maps addresses to
  account documents; the functions below say what one transfer does to it, with no
  database, no staging area and no markers. \<^verbatim>\<open>TxExecution\<close> proves that the staged code
  of \<^verbatim>\<open>src/messaging/BlockProcessing/Processing.go\<close> implements them; here the accounting
  facts are proved: the exact balance change of every address, conservation of the
  supply, non-negative balances, and the nonce rule.
\<close>

named_theorems ledger_simps "balances and nonces after a ledger update"

subsection \<open>Balances\<close>

definition bal :: "account \<Rightarrow> int" where
  "bal d = (case big_SetString (a_Balance d) of Some v \<Rightarrow> v | None \<Rightarrow> 0)"

definition balance_at :: "ledger \<Rightarrow> addr \<Rightarrow> int" where
  "balance_at L a = (case L a of None \<Rightarrow> 0 | Some d \<Rightarrow> bal d)"

definition nonce_at :: "ledger \<Rightarrow> addr \<Rightarrow> u64" where
  "nonce_at L a = (case L a of None \<Rightarrow> 0 | Some d \<Rightarrow> a_TxNonce d)"

definition sent_at :: "ledger \<Rightarrow> addr \<Rightarrow> u64" where
  "sent_at L a = (case L a of None \<Rightarrow> 0 | Some d \<Rightarrow> a_TxCountSent d)"

definition total_supply :: "ledger \<Rightarrow> int" where
  "total_supply L = (\<Sum>a \<in> dom L. balance_at L a)"

definition solvent :: "ledger \<Rightarrow> bool" where
  "solvent L \<longleftrightarrow> (\<forall>a. 0 \<le> balance_at L a)"

definition keyed :: "ledger \<Rightarrow> bool" where
  "keyed L \<longleftrightarrow> (\<forall>a d. L a = Some d \<longrightarrow> a_Address d = a)"

subsection \<open>Ledger operations\<close>

definition and_then :: "err + 'a \<Rightarrow> ('a \<Rightarrow> err + 'b) \<Rightarrow> err + 'b" where
  "and_then r f = (case r of Inl e \<Rightarrow> Inl e | Inr a \<Rightarrow> f a)"

definition ledger_debit :: "addr \<Rightarrow> u64 \<Rightarrow> int \<Rightarrow> u64 \<Rightarrow> ledger \<Rightarrow> err + ledger" where
  "ledger_debit a nonce amount ts L =
     (case L a of
        None \<Rightarrow> Inl ENotFound
      | Some d \<Rightarrow> (case big_SetString (a_Balance d) of
          None \<Rightarrow> Inl EBadBalance
        | Some b \<Rightarrow>
            if nonce < a_TxNonce d then Inl EStaleNonce
            else if amount < 0 then Inl ENegativeAmount
            else if b < amount then Inl EInsufficientBalance
            else Inr (L(a \<mapsto> d\<lparr>a_Balance := big_String (b - amount), a_TxNonce := nonce + 1,
                            a_TxCountSent := a_TxCountSent d + 1, a_UpdatedAt := nanos ts\<rparr>))))"

definition ledger_credit :: "addr \<Rightarrow> int \<Rightarrow> u64 \<Rightarrow> ledger \<Rightarrow> err + ledger" where
  "ledger_credit a amount ts L =
     (case L a of
        None \<Rightarrow> Inl ENotFound
      | Some d \<Rightarrow> (case big_SetString (a_Balance d) of
          None \<Rightarrow> Inl EBadBalance
        | Some b \<Rightarrow>
            if amount < 0 then Inl ENegativeAmount
            else Inr (L(a \<mapsto> d\<lparr>a_Balance := big_String (b + amount), a_UpdatedAt := nanos ts\<rparr>))))"

primrec ledger_credits :: "fee_credit list \<Rightarrow> u64 \<Rightarrow> ledger \<Rightarrow> err + ledger" where
  "ledger_credits [] ts L = Inr L"
| "ledger_credits (c # cs) ts L =
     and_then (ledger_credit (fc_Addr c) (fc_Amount c) ts L) (ledger_credits cs ts)"

text \<open>Adoption of a carried identity; a failed read skips it, so \<open>ok\<close> says whether it happened.\<close>

definition ledger_adopt :: "bool \<Rightarrow> (addr \<rightharpoonup> u64) \<Rightarrow> addr \<Rightarrow> ledger \<Rightarrow> ledger" where
  "ledger_adopt ok carried a L =
     (case (carried a, L a) of
        (Some n, Some d) \<Rightarrow> if ok \<and> n \<noteq> 0 then L(a \<mapsto> d\<lparr>a_Nonce := n\<rparr>) else L
      | _ \<Rightarrow> L)"

definition tx_fee :: "transaction \<Rightarrow> int" where
  "tx_fee tx = GasFee (tx_Type tx) (tx_GasLimit tx) (tx_GasPrice tx) (tx_MaxFee tx) (tx_MaxPriorityFee tx)"

definition tx_amount :: "transaction \<Rightarrow> int" where
  "tx_amount tx = (case tx_Value tx of Some v \<Rightarrow> v | None \<Rightarrow> 0)"

definition ledger_settle ::
  "transaction \<Rightarrow> addr \<Rightarrow> addr \<Rightarrow> addr \<Rightarrow> addr \<Rightarrow> fee_recipient list \<Rightarrow> u64 \<Rightarrow> ledger \<Rightarrow> err + ledger" where
  "ledger_settle tx f t coinbase zkvm recips ts L =
     and_then (ledger_debit f (tx_Nonce tx) (tx_amount tx + tx_fee tx) ts L) (\<lambda>L3.
     and_then (ledger_credit t (tx_amount tx) ts L3) (\<lambda>L4.
     and_then (ledger_credits (snd (SplitFee (Some (tx_fee tx)) coinbase recips)) ts L4)
       (ledger_credit zkvm (fst (SplitFee (Some (tx_fee tx)) coinbase recips)) ts)))"

definition ledger_create :: "(addr \<Rightarrow> string) \<Rightarrow> addr \<Rightarrow> u64 \<Rightarrow> (addr \<rightharpoonup> u64) \<Rightarrow> ledger \<Rightarrow> ledger" where
  "ledger_create hexa t ts carried L =
     (if L t = None then L(t \<mapsto> created_account t (hexa t) (case carried t of Some n \<Rightarrow> n | None \<Rightarrow> 0) ts) else L)"

definition ledger_transfer ::
  "bool \<Rightarrow> bool \<Rightarrow> (addr \<Rightarrow> string) \<Rightarrow> transaction \<Rightarrow> addr \<Rightarrow> addr \<Rightarrow> addr \<Rightarrow> addr \<Rightarrow> fee_recipient list \<Rightarrow> u64 \<Rightarrow>
     (addr \<rightharpoonup> u64) \<Rightarrow> ledger \<Rightarrow> err + ledger" where
  "ledger_transfer okf okt hexa tx f t coinbase zkvm recips ts carried L =
     (let L1 = ledger_adopt okf carried f (ledger_create hexa t ts carried L)
      in ledger_settle tx f t coinbase zkvm recips ts
           (if L t = None then L1 else ledger_adopt okt carried t L1))"

text \<open>The whole transaction: value checks, existence of the parties, then the transfer.\<close>

definition ledger_apply ::
  "bool \<Rightarrow> bool \<Rightarrow> (addr \<Rightarrow> string) \<Rightarrow> transaction \<Rightarrow> addr \<Rightarrow> addr \<Rightarrow> addr \<Rightarrow> addr \<Rightarrow> fee_recipient list \<Rightarrow> u64 \<Rightarrow>
     (addr \<rightharpoonup> u64) \<Rightarrow> ledger \<Rightarrow> err + ledger" where
  "ledger_apply okf okt hexa tx f t coinbase zkvm recips ts carried L =
     (if tx_amount tx < 0 then Inl ENegativeValue
      else if EffectiveGasPrice (tx_Type tx) (tx_GasPrice tx) (tx_MaxFee tx) (tx_MaxPriorityFee tx) < 0
      then Inl ENegativeGasFee
      else if L f = None then Inl ESenderMissing
      else if L t = None \<and> (carried t = None \<or> carried t = Some 0) then Inl ERecipientMissing
      else ledger_transfer okf okt hexa tx f t coinbase zkvm recips ts carried L)"

lemma ledger_apply_transfer:
  assumes "ledger_apply okf okt hexa tx f t coinbase zkvm recips ts carried L = Inr L'"
  shows "ledger_transfer okf okt hexa tx f t coinbase zkvm recips ts carried L = Inr L'"
  using assms by (auto simp: ledger_apply_def split: if_splits)

subsection \<open>Effects on balances and nonces\<close>

lemma balance_at_upd [ledger_simps]: "balance_at (L(a \<mapsto> d)) x = (if x = a then bal d else balance_at L x)"
  by (simp add: balance_at_def)

lemma nonce_at_upd [ledger_simps]: "nonce_at (L(a \<mapsto> d)) x = (if x = a then a_TxNonce d else nonce_at L x)"
  by (simp add: nonce_at_def)

lemma sent_at_upd [ledger_simps]: "sent_at (L(a \<mapsto> d)) x = (if x = a then a_TxCountSent d else sent_at L x)"
  by (simp add: sent_at_def)

lemma bal_upd [simp]:
  "bal (d\<lparr>a_Nonce := n\<rparr>) = bal d" "bal (d\<lparr>a_TxNonce := n\<rparr>) = bal d" "bal (d\<lparr>a_TxCountSent := n\<rparr>) = bal d"
  "bal (d\<lparr>a_UpdatedAt := n\<rparr>) = bal d" "bal (d\<lparr>a_Balance := big_String v\<rparr>) = v"
  by (simp_all add: bal_def)

lemma big_zero: "big_SetString ''0'' = Some 0"
  by code_simp

lemma bal_created [simp]: "bal (created_account a h n ts) = 0"
  by (simp add: bal_def created_account_def big_zero)

lemma ledger_debit_effect:
  assumes "ledger_debit a nonce amount ts L = Inr L'"
  shows "balance_at L' x = balance_at L x - (if x = a then amount else 0)"
    and "nonce_at L' x = (if x = a then nonce + 1 else nonce_at L x)"
    and "sent_at L' x = (if x = a then sent_at L x + 1 else sent_at L x)"
    and "dom L' = dom L" "0 \<le> amount" "amount \<le> balance_at L a" "nonce_at L a \<le> nonce" "L a \<noteq> None"
    and "keyed L \<Longrightarrow> keyed L'"
  using assms
  by (auto simp: ledger_debit_def ledger_simps balance_at_def nonce_at_def sent_at_def bal_def keyed_def not_less
      split: option.splits if_splits)

lemma ledger_credit_effect:
  assumes "ledger_credit a amount ts L = Inr L'"
  shows "balance_at L' x = balance_at L x + (if x = a then amount else 0)"
    and "nonce_at L' x = nonce_at L x" "sent_at L' x = sent_at L x"
    and "dom L' = dom L" "0 \<le> amount" "keyed L \<Longrightarrow> keyed L'"
  using assms
  by (auto simp: ledger_credit_def balance_at_def nonce_at_def sent_at_def bal_def keyed_def
      split: option.splits if_splits)

lemma and_then_Inr: "and_then r f = Inr b \<longleftrightarrow> (\<exists>a. r = Inr a \<and> f a = Inr b)"
  by (auto simp: and_then_def split: sum.splits)

lemma ledger_credits_effect:
  assumes "ledger_credits cs ts L = Inr L'"
  shows "balance_at L' x = balance_at L x + credited x cs \<and> nonce_at L' x = nonce_at L x \<and>
     sent_at L' x = sent_at L x \<and> dom L' = dom L \<and> (keyed L \<longrightarrow> keyed L') \<and> (\<forall>c \<in> set cs. 0 \<le> fc_Amount c)"
  using assms
proof (induction cs arbitrary: L)
  case Nil
  then show ?case by simp
next
  case (Cons c cs)
  then obtain M where M: "ledger_credit (fc_Addr c) (fc_Amount c) ts L = Inr M" "ledger_credits cs ts M = Inr L'"
    by (auto simp: and_then_Inr)
  from Cons.IH [OF M(2)] ledger_credit_effect [OF M(1)] show ?case by auto
qed

lemma ledger_adopt_effect [simp]:
  "balance_at (ledger_adopt ok carried a L) x = balance_at L x"
  "nonce_at (ledger_adopt ok carried a L) x = nonce_at L x"
  "sent_at (ledger_adopt ok carried a L) x = sent_at L x"
  "dom (ledger_adopt ok carried a L) = dom L"
  "keyed L \<Longrightarrow> keyed (ledger_adopt ok carried a L)"
  by (auto simp: ledger_adopt_def balance_at_def nonce_at_def sent_at_def keyed_def split: option.splits)

lemma ledger_create_effect [simp]:
  "balance_at (ledger_create hexa t ts carried L) x = balance_at L x"
  "nonce_at (ledger_create hexa t ts carried L) x = nonce_at L x"
  "sent_at (ledger_create hexa t ts carried L) x = sent_at L x"
  "dom (ledger_create hexa t ts carried L) = insert t (dom L)"
  "keyed L \<Longrightarrow> keyed (ledger_create hexa t ts carried L)"
  by (auto simp: ledger_create_def balance_at_def nonce_at_def sent_at_def keyed_def)
     (simp_all add: created_account_def zero_account_def)

lemma ledger_transfer_steps:
  assumes "ledger_transfer okf okt hexa tx f t coinbase zkvm recips ts carried L = Inr L'"
  obtains L2 L3 L4 L5 where
    "\<forall>x. balance_at L2 x = balance_at L x" "\<forall>x. nonce_at L2 x = nonce_at L x" "\<forall>x. sent_at L2 x = sent_at L x"
    "dom L2 = insert t (dom L)" "keyed L \<longrightarrow> keyed L2"
    "ledger_debit f (tx_Nonce tx) (tx_amount tx + tx_fee tx) ts L2 = Inr L3"
    "ledger_credit t (tx_amount tx) ts L3 = Inr L4"
    "ledger_credits (snd (SplitFee (Some (tx_fee tx)) coinbase recips)) ts L4 = Inr L5"
    "ledger_credit zkvm (fst (SplitFee (Some (tx_fee tx)) coinbase recips)) ts L5 = Inr L'"
proof -
  define L1 where "L1 = ledger_adopt okf carried f (ledger_create hexa t ts carried L)"
  define L2 where "L2 = (if L t = None then L1 else ledger_adopt okt carried t L1)"
  have L2: "balance_at L2 x = balance_at L x" "nonce_at L2 x = nonce_at L x" "sent_at L2 x = sent_at L x"
      "dom L2 = insert t (dom L)" "keyed L \<Longrightarrow> keyed L2" for x
    by (simp_all add: L2_def L1_def)
  have "ledger_settle tx f t coinbase zkvm recips ts L2 = Inr L'"
    using assms unfolding ledger_transfer_def L2_def L1_def Let_def .
  then show thesis
    unfolding ledger_settle_def and_then_Inr using L2 by (elim exE conjE, intro that) simp_all
qed

text \<open>What one transfer does to every address.\<close>

lemma ledger_transfer_effect:
  assumes "ledger_transfer okf okt hexa tx f t coinbase zkvm recips ts carried L = Inr L'"
  shows "balance_at L' x = balance_at L x - (if x = f then tx_amount tx + tx_fee tx else 0)
           + (if x = t then tx_amount tx else 0)
           + credited x (snd (SplitFee (Some (tx_fee tx)) coinbase recips))
           + (if x = zkvm then tx_fee tx div 2 else 0)"
    and "nonce_at L' x = (if x = f then tx_Nonce tx + 1 else nonce_at L x)"
    and "sent_at L' x = (if x = f then sent_at L x + 1 else sent_at L x)"
    and "dom L' = insert t (dom L)" "keyed L \<Longrightarrow> keyed L'"
    and "0 \<le> tx_amount tx" "tx_amount tx + tx_fee tx \<le> balance_at L f" "nonce_at L f \<le> tx_Nonce tx"
    and "0 \<le> tx_fee tx div 2" "\<forall>c \<in> set (snd (SplitFee (Some (tx_fee tx)) coinbase recips)). 0 \<le> fc_Amount c"
proof -
  from assms obtain L2 L3 L4 L5 where L2: "\<And>x. balance_at L2 x = balance_at L x"
      "\<And>x. nonce_at L2 x = nonce_at L x" "\<And>x. sent_at L2 x = sent_at L x"
      "dom L2 = insert t (dom L)" "keyed L \<longrightarrow> keyed L2"
    and steps: "ledger_debit f (tx_Nonce tx) (tx_amount tx + tx_fee tx) ts L2 = Inr L3"
      "ledger_credit t (tx_amount tx) ts L3 = Inr L4"
      "ledger_credits (snd (SplitFee (Some (tx_fee tx)) coinbase recips)) ts L4 = Inr L5"
      "ledger_credit zkvm (fst (SplitFee (Some (tx_fee tx)) coinbase recips)) ts L5 = Inr L'"
    by (rule ledger_transfer_steps) blast
  note d = ledger_debit_effect [OF steps(1)] and c1 = ledger_credit_effect [OF steps(2)]
    and cs = ledger_credits_effect [OF steps(3)] and c2 = ledger_credit_effect [OF steps(4)]
  show "balance_at L' x = balance_at L x - (if x = f then tx_amount tx + tx_fee tx else 0)
           + (if x = t then tx_amount tx else 0)
           + credited x (snd (SplitFee (Some (tx_fee tx)) coinbase recips))
           + (if x = zkvm then tx_fee tx div 2 else 0)"
    using cs [of x] by (simp add: c2 c1 d(1) L2)
  show "nonce_at L' x = (if x = f then tx_Nonce tx + 1 else nonce_at L x)"
    "sent_at L' x = (if x = f then sent_at L x + 1 else sent_at L x)" "dom L' = insert t (dom L)"
    using cs [of x] by (simp_all add: c2 c1 d L2)
  show "keyed L \<Longrightarrow> keyed L'" using cs c2(6) c1(6) d(9) L2(5) by blast
  show "0 \<le> tx_amount tx" "tx_amount tx + tx_fee tx \<le> balance_at L f" "nonce_at L f \<le> tx_Nonce tx"
    using c1(5) d(6,7) by (simp_all add: L2)
  show "0 \<le> tx_fee tx div 2" "\<forall>c \<in> set (snd (SplitFee (Some (tx_fee tx)) coinbase recips)). 0 \<le> fc_Amount c"
    using c2(5) cs by simp_all
qed

subsection \<open>Conservation and solvency\<close>

lemma balance_at_notin: "a \<notin> dom L \<Longrightarrow> balance_at L a = 0"
  by (simp add: balance_at_def domIff)

lemma total_supply_over: "finite A \<Longrightarrow> dom L \<subseteq> A \<Longrightarrow> total_supply L = (\<Sum>a \<in> A. balance_at L a)"
  unfolding total_supply_def by (rule sum.mono_neutral_left) (auto simp: balance_at_notin)

lemma credited_nonneg: "\<forall>c \<in> set cs. 0 \<le> fc_Amount c \<Longrightarrow> 0 \<le> credited a cs"
  by (induction cs) auto

lemma sum_credited:
  "finite A \<Longrightarrow> fc_Addr ` set cs \<subseteq> A \<Longrightarrow> (\<Sum>a \<in> A. credited a cs) = credit_sum cs"
proof (induction cs)
  case (Cons c cs)
  have "(\<Sum>a \<in> A. if a = fc_Addr c then fc_Amount c else 0) = fc_Amount c"
    using Cons.prems by (simp add: sum.delta)
  with Cons show ?case by (simp add: sum.distrib eq_commute)
qed simp

lemma ledger_transfer_supply:
  assumes step: "ledger_transfer okf okt hexa tx f t coinbase zkvm recips ts carried L = Inr L'"
    and fin: "finite (dom L)"
  shows "total_supply L' = total_supply L"
proof -
  let ?cs = "snd (SplitFee (Some (tx_fee tx)) coinbase recips)"
  let ?A = "dom L' \<union> dom L \<union> {f, zkvm, t} \<union> fc_Addr ` set ?cs"
  note eff = ledger_transfer_effect [OF step]
  have A: "finite ?A" using fin by (simp add: eff(4))
  have "total_supply L' = (\<Sum>a \<in> ?A. balance_at L' a)" by (rule total_supply_over [OF A]) auto
  also have "\<dots> = (\<Sum>a \<in> ?A. balance_at L a) - (tx_amount tx + tx_fee tx) + tx_amount tx
      + (\<Sum>a \<in> ?A. credited a ?cs) + tx_fee tx div 2"
    unfolding eff(1) using A by (simp add: sum.distrib sum_subtractf sum.delta del: finite_Un)
  also have "(\<Sum>a \<in> ?A. credited a ?cs) = credit_sum ?cs" by (rule sum_credited [OF A]) auto
  also have "credit_sum ?cs = tx_fee tx - tx_fee tx div 2"
    using SplitFee_sum [of "Some (tx_fee tx)" coinbase recips] by simp
  also have "(\<Sum>a \<in> ?A. balance_at L a) = total_supply L"
    by (rule total_supply_over [OF A, symmetric]) blast
  finally show ?thesis by simp
qed

lemma ledger_transfer_solvent:
  assumes step: "ledger_transfer okf okt hexa tx f t coinbase zkvm recips ts carried L = Inr L'"
    and "solvent L"
  shows "solvent L'"
  unfolding solvent_def
proof
  fix x
  note eff = ledger_transfer_effect [OF step]
  have "0 \<le> balance_at L x - (if x = f then tx_amount tx + tx_fee tx else 0)"
    using eff(7) assms(2) by (simp add: solvent_def)
  moreover have "0 \<le> credited x (snd (SplitFee (Some (tx_fee tx)) coinbase recips))"
    by (rule credited_nonneg [OF eff(10)])
  ultimately show "0 \<le> balance_at L' x"
    unfolding eff(1) using eff(6,9) by (intro add_nonneg_nonneg) simp_all
qed

end
