(* ===== verification/TxExecution.thy ===== *)
theory TxExecution
  imports Ledger
begin

text \<open>
  Execution of one transaction implements the abstract transfer of \<^verbatim>\<open>Ledger\<close>, whatever
  the database does: staging only reads, the commit writes the balances and the
  \<^verbatim>\<open>tx_processed\<close> marker together or not at all, and a stored nonce above the
  transaction's makes every run harmless.
\<close>

named_theorems stage_wp "weakest preconditions of the staging steps"

subsection \<open>Reading leaves the data alone\<close>

definition ticked :: "db \<Rightarrow> db \<Rightarrow> bool" where
  "ticked s s' \<longleftrightarrow> s' = s\<lparr>tick := tick s'\<rparr>"

lemma ticked_refl [simp, intro]: "ticked s s"
  by (simp add: ticked_def)

lemma ticked_tick [simp, intro]: "ticked s (s\<lparr>tick := n\<rparr>)"
  by (simp add: ticked_def)

lemma ticked_from_tick [simp]: "ticked (s\<lparr>tick := n\<rparr>) s' \<longleftrightarrow> ticked s s'"
  by (simp add: ticked_def)

lemma ticked_trans: "ticked s s' \<Longrightarrow> ticked s' s'' \<Longrightarrow> ticked s s''"
  unfolding ticked_def by (metis db.ext_inject db.surjective db.update_convs(6))

lemma ticked_fields:
  assumes "ticked s s'"
  shows "accounts s' = accounts s" "acctkv s' = acctkv s" "mainkv s' = mainkv s"
    "seenHeights s' = seenHeights s" "state_lock s' = state_lock s"
proof -
  have eq: "s' = s\<lparr>tick := tick s'\<rparr>" using assms by (simp add: ticked_def)
  show "accounts s' = accounts s" by (subst eq) simp
  show "acctkv s' = acctkv s" by (subst eq) simp
  show "mainkv s' = mainkv s" by (subst eq) simp
  show "seenHeights s' = seenHeights s" by (subst eq) simp
  show "state_lock s' = state_lock s" by (subst eq) simp
qed

definition faultless :: "env \<Rightarrow> bool" where
  "faultless e \<longleftrightarrow> (\<forall>n. fault e n = Done)"

lemma faultlessD [simp]: "faultless e \<Longrightarrow> fault e n = Done"
  by (simp add: faultless_def)

subsection \<open>The stage as an overlay\<close>

text \<open>\<open>A\<close> bounds the addresses a stage may hold.\<close>

definition stage_ok :: "addr set \<Rightarrow> tx_stage \<Rightarrow> bool" where
  "stage_ok A st \<longleftrightarrow> keyed (st_docs st) \<and> distinct (st_order st) \<and> set (st_order st) = dom (st_docs st) \<and>
     dom (st_docs st) \<subseteq> A"

definition overlay :: "ledger \<Rightarrow> tx_stage \<Rightarrow> ledger" where
  "overlay L st = L ++ st_docs st"

lemma stage_ok_new [simp]: "stage_ok A newTxStage" "overlay L newTxStage = L"
  by (simp_all add: stage_ok_def newTxStage_def keyed_def overlay_def)

lemma stage_ok_put [intro]: "stage_ok A st \<Longrightarrow> a_Address d \<in> A \<Longrightarrow> stage_ok A (stage_put d st)"
  by (auto simp: stage_ok_def stage_put_def keyed_def)

lemma overlay_put [simp]: "overlay L (stage_put d st) = (overlay L st)(a_Address d \<mapsto> d)"
  by (simp add: overlay_def stage_put_def)

lemma keyed_overlay: "keyed L \<Longrightarrow> stage_ok A st \<Longrightarrow> keyed (overlay L st)"
  by (auto simp: keyed_def overlay_def stage_ok_def map_add_def split: option.splits)

lemma wp_stage_get [stage_wp]:
  "wp (stage_get st a) e Q P s =
     (if st_docs st a = None
      then Q (if fault e (tick s) = Done then (case overlay (accounts s) st a of None \<Rightarrow> Inl ENotFound | Some d \<Rightarrow> Inr d)
              else Inl EDb) (s\<lparr>tick := Suc (tick s)\<rparr>)
      else Q (case overlay (accounts s) st a of None \<Rightarrow> Inl ENotFound | Some d \<Rightarrow> Inr d) s)"
  by (auto simp: stage_get_def wp_rules overlay_def map_add_def split: option.splits)

text \<open>The staged result \<open>r\<close> is the abstract result \<open>spec\<close>, or a database error.\<close>

definition refines :: "env \<Rightarrow> addr set \<Rightarrow> ledger \<Rightarrow> err + tx_stage \<Rightarrow> err + ledger \<Rightarrow> bool" where
  "refines e A L r spec \<longleftrightarrow> (case r of
      Inl x \<Rightarrow> spec = Inl x \<or> x = EDb \<and> \<not> faultless e
    | Inr st \<Rightarrow> stage_ok A st \<and> spec = Inr (overlay L st))"

lemma refines_simps [simp]:
  "refines e A L (Inl x) spec \<longleftrightarrow> spec = Inl x \<or> x = EDb \<and> \<not> faultless e"
  "refines e A L (Inr st) spec \<longleftrightarrow> stage_ok A st \<and> spec = Inr (overlay L st)"
  by (simp_all add: refines_def)

lemma stage_get_wp:
  assumes "keyed (accounts s)" "stage_ok A st"
    and "\<And>d s'. ticked s s' \<Longrightarrow> overlay (accounts s) st a = Some d \<Longrightarrow> a_Address d = a \<Longrightarrow> Q (Inr d) s'"
    and "\<And>s'. ticked s s' \<Longrightarrow> overlay (accounts s) st a = None \<Longrightarrow> Q (Inl ENotFound) s'"
    and "\<And>s'. ticked s s' \<Longrightarrow> \<not> faultless e \<Longrightarrow> Q (Inl EDb) s'"
  shows "wp (stage_get st a) e Q P s"
proof -
  have "overlay (accounts s) st a = Some d \<Longrightarrow> a_Address d = a" for d
    using keyed_overlay [OF assms(1,2)] by (simp add: keyed_def)
  moreover have "fault e (tick s) \<noteq> Done \<Longrightarrow> \<not> faultless e" by auto
  ultimately show ?thesis
    using assms(3-5) by (auto simp: wp_stage_get split: option.split)
qed

lemma deductFromSender_wp:
  assumes "keyed (accounts s)" "stage_ok A st" "a \<in> A"
  shows "wp (deductFromSender a nonce (big_String amount) st ts) e
     (\<lambda>r s'. ticked s s' \<and> refines e A (accounts s) r (ledger_debit a nonce amount ts (overlay (accounts s) st)))
     (\<lambda>_. False) s"
  unfolding deductFromSender_def wp_attempt
  by (rule stage_get_wp [OF assms(1,2)])
     (use assms(2,3) in \<open>auto simp: wp_rules ledger_debit_def split: option.split\<close>)

lemma addToRecipient_wp:
  assumes "keyed (accounts s)" "stage_ok A st" "a \<in> A"
  shows "wp (addToRecipient a (big_String amount) st ts) e
     (\<lambda>r s'. ticked s s' \<and> refines e A (accounts s) r (ledger_credit a amount ts (overlay (accounts s) st)))
     (\<lambda>_. False) s"
  unfolding addToRecipient_def wp_attempt
  by (rule stage_get_wp [OF assms(1,2)])
     (use assms(2,3) in \<open>auto simp: wp_rules ledger_credit_def split: option.split\<close>)

text \<open>Sequencing of two refinements: the shape of every \<^verbatim>\<open>if err != nil { return err }\<close> of the staging code.\<close>

lemma refines_bind:
  assumes m: "wp m e (\<lambda>r s'. ticked s s' \<and> refines e A (accounts s) r spec) (\<lambda>_. False) s"
    and k: "\<And>st s'. ticked s s' \<Longrightarrow> stage_ok A st \<Longrightarrow>
        wp (k st) e (\<lambda>r s''. ticked s' s'' \<and> refines e A (accounts s') r (f (overlay (accounts s') st))) (\<lambda>_. False) s'"
  shows "wp (attempt m (\<lambda>x. ret (Inl x)) k) e
     (\<lambda>r s'. ticked s s' \<and> refines e A (accounts s) r (and_then spec f)) (\<lambda>_. False) s"
  unfolding wp_attempt
proof (rule wp_mono [OF m])
  fix r s' assume r: "ticked s s' \<and> refines e A (accounts s) r spec"
  then have acc: "accounts s' = accounts s" using ticked_fields by blast
  show "(case r of Inl x \<Rightarrow> wp (ret (Inl x)) e (\<lambda>r s'. ticked s s' \<and> refines e A (accounts s) r (and_then spec f)) (\<lambda>_. False)
      | Inr st \<Rightarrow> wp (k st) e (\<lambda>r s'. ticked s s' \<and> refines e A (accounts s) r (and_then spec f)) (\<lambda>_. False)) s'"
  proof (cases r)
    case (Inl x)
    with r show ?thesis by (auto simp: wp_rules and_then_def)
  next
    case (Inr st)
    with r have "stage_ok A st" "spec = Inr (overlay (accounts s) st)" by simp_all
    with k [of s' st] r acc show ?thesis
      by (auto simp: Inr and_then_def elim!: wp_mono intro: ticked_trans)
  qed
qed simp

lemma credit_all_wp:
  assumes "keyed (accounts s)" "stage_ok A st" "fc_Addr ` set cs \<subseteq> A"
  shows "wp (credit_all cs st ts) e
     (\<lambda>r s'. ticked s s' \<and> refines e A (accounts s) r (ledger_credits cs ts (overlay (accounts s) st)))
     (\<lambda>_. False) s"
  using assms
proof (induction cs arbitrary: s st)
  case Nil
  then show ?case by (simp add: wp_rules)
next
  case (Cons c cs)
  show ?case
    unfolding credit_all.simps ledger_credits.simps
    by (rule refines_bind [OF addToRecipient_wp [OF Cons.prems(1,2)]])
       (use Cons.prems(3) in simp, rule Cons.IH, use Cons.prems in \<open>simp_all add: ticked_fields\<close>)
qed

lemma adoptCarriedNonce_wp:
  assumes "keyed (accounts s)" "stage_ok A st" "a \<in> A"
  shows "wp (adoptCarriedNonce st a carried) e
     (\<lambda>st' s'. ticked s s' \<and> stage_ok A st' \<and> (\<exists>ok. (faultless e \<longrightarrow> ok) \<and>
        overlay (accounts s) st' = ledger_adopt ok carried a (overlay (accounts s) st))) (\<lambda>_. False) s"
proof (cases "carried a = None \<or> carried a = Some 0")
  case True
  then show ?thesis using assms
    by (auto simp: adoptCarriedNonce_def wp_rules ledger_adopt_def split: option.splits)
next
  case False
  then obtain n where n: "carried a = Some n" "n \<noteq> 0" by auto
  have same: "a_Nonce d = n \<Longrightarrow> d\<lparr>a_Nonce := n\<rparr> = d" for d :: account by auto
  show ?thesis
    unfolding adoptCarriedNonce_def n option.case wp_bnd if_not_P [OF n(2)]
  proof (rule stage_get_wp [OF assms(1,2)], goal_cases)
    case (1 d s')
    with assms(2,3) n show ?case
      by (auto simp: wp_rules ledger_adopt_def same fun_upd_idem intro!: exI [of _ True])
  next
    case (2 s')
    with assms(2) n show ?case by (auto simp: wp_rules ledger_adopt_def intro!: exI [of _ True])
  next
    case (3 s')
    with assms(2) n show ?case
      by (auto simp: wp_rules ledger_adopt_def split: option.split intro!: exI [of _ False])
  qed
qed

subsection \<open>The staged transfer\<close>

text \<open>The addresses one transaction touches.\<close>

definition touched :: "transaction \<Rightarrow> addr \<Rightarrow> addr \<Rightarrow> addr \<Rightarrow> addr \<Rightarrow> fee_recipient list \<Rightarrow> addr set" where
  "touched tx f t coinbase zkvm recips =
     {f, t, zkvm} \<union> fc_Addr ` set (snd (SplitFee (Some (tx_fee tx)) coinbase recips))"

lemma settle_stage_wp:
  assumes k: "keyed (accounts s)" and st: "stage_ok A st" and A: "touched tx f t coinbase zkvm recips \<subseteq> A"
  shows "wp (settle_stage tx f t coinbase zkvm recips ts (tx_amount tx) st) e
     (\<lambda>r s'. ticked s s' \<and>
        refines e A (accounts s) r (ledger_settle tx f t coinbase zkvm recips ts (overlay (accounts s) st)))
     (\<lambda>_. False) s"
proof -
  have k': "\<And>u v. ticked s u \<Longrightarrow> keyed (accounts u)" "\<And>u v. ticked s u \<Longrightarrow> ticked u v \<Longrightarrow> keyed (accounts v)"
      "\<And>u v w. ticked s u \<Longrightarrow> ticked u v \<Longrightarrow> ticked v w \<Longrightarrow> keyed (accounts w)"
    using k by (simp_all add: ticked_fields)
  show ?thesis
    unfolding settle_stage_def ledger_settle_def tx_fee_def Let_def split_beta
    by (intro refines_bind deductFromSender_wp addToRecipient_wp credit_all_wp st)
       (use k' A in \<open>auto simp: touched_def tx_fee_def\<close>)
qed

lemma stage_transaction_wp:
  assumes k: "keyed (accounts s)" and ex: "recipientExists = (accounts s t \<noteq> None)"
    and A: "touched tx f t coinbase zkvm recips \<subseteq> A"
  shows "wp (stage_transaction hexa tx f t coinbase zkvm recips ts carried (tx_amount tx) recipientExists) e
     (\<lambda>r s'. ticked s s' \<and> (\<exists>okf okt. (faultless e \<longrightarrow> okf \<and> okt) \<and>
        refines e A (accounts s) r (ledger_transfer okf okt hexa tx f t coinbase zkvm recips ts carried (accounts s))))
     (\<lambda>_. False) s"
proof -
  have mem: "f \<in> A" "t \<in> A" using A by (auto simp: touched_def)
  let ?L0 = "ledger_create hexa t ts carried (accounts s)"
  define st0 where "st0 = (if recipientExists then newTxStage
     else stage_put (created_account t (hexa t) (case carried t of Some n \<Rightarrow> n | None \<Rightarrow> 0) ts) newTxStage)"
  have st0: "stage_ok A st0" "overlay (accounts s) st0 = ?L0"
    unfolding st0_def using mem by (auto simp: ex ledger_create_def created_account_def zero_account_def)
  have settle: "wp (settle_stage tx f t coinbase zkvm recips ts (tx_amount tx) st) e
      (\<lambda>r s''. ticked s s'' \<and> (\<exists>okf okt. (faultless e \<longrightarrow> okf \<and> okt) \<and>
        refines e A (accounts s) r (ledger_transfer okf okt hexa tx f t coinbase zkvm recips ts carried (accounts s))))
      (\<lambda>_. False) s'"
    if t: "ticked s s'" and st: "stage_ok A st" and ok: "faultless e \<longrightarrow> okf \<and> okt"
      and L: "overlay (accounts s) st = (if accounts s t = None then ledger_adopt okf carried f ?L0
                else ledger_adopt okt carried t (ledger_adopt okf carried f ?L0))" for st s' okf okt
  proof (rule wp_mono [OF settle_stage_wp [OF _ st A]])
    show "keyed (accounts s')" using k t by (simp add: ticked_fields)
  next
    fix r s'' assume r: "ticked s' s'' \<and> refines e A (accounts s') r
        (ledger_settle tx f t coinbase zkvm recips ts (overlay (accounts s') st))"
    moreover have "ledger_settle tx f t coinbase zkvm recips ts (overlay (accounts s') st)
        = ledger_transfer okf okt hexa tx f t coinbase zkvm recips ts carried (accounts s)"
      unfolding ledger_transfer_def Let_def ticked_fields(1) [OF t] L ..
    ultimately show "ticked s s'' \<and> (\<exists>okf okt. (faultless e \<longrightarrow> okf \<and> okt) \<and>
        refines e A (accounts s) r (ledger_transfer okf okt hexa tx f t coinbase zkvm recips ts carried (accounts s)))"
      using ok ticked_trans [OF t] unfolding ticked_fields(1) [OF t] by metis
  qed simp
  show ?thesis
    unfolding stage_transaction_def Let_def st0_def [symmetric] wp_bnd
  proof (rule wp_mono [OF adoptCarriedNonce_wp [OF k st0(1) mem(1)]], goal_cases)
    case (1 st1 s1)
    then obtain okf where s1: "ticked s s1" and st1: "stage_ok A st1" and okf: "faultless e \<longrightarrow> okf"
        and L1: "overlay (accounts s) st1 = ledger_adopt okf carried f ?L0"
      by (auto simp: st0)
    have k1: "keyed (accounts s1)" using k s1 by (simp add: ticked_fields)
    show ?case
    proof (cases recipientExists)
      case False
      with settle [OF s1 st1, of okf True] okf L1 ex show ?thesis by (simp add: wp_rules)
    next
      case True
      show ?thesis
        unfolding if_P [OF True]
        by (rule wp_mono [OF adoptCarriedNonce_wp [OF k1 st1 mem(2)]])
           (use s1 okf L1 ex True in \<open>auto simp: ticked_fields intro!: settle [where okf = okf] intro: ticked_trans\<close>)
    qed
  qed simp
qed

subsection \<open>Markers and advisory keys\<close>

definition marker_applied :: "db \<Rightarrow> string \<Rightarrow> bool" where
  "marker_applied s key = (case acctkv s key of
      Some v \<Rightarrow> markerValueApplied v
    | None \<Rightarrow> (case mainkv s key of None \<Rightarrow> False | Some v \<Rightarrow> markerValueApplied v))"

text \<open>Only \<^verbatim>\<open>tx_processing\<close> keys of defaultdb may differ.\<close>

definition advisory :: "db \<Rightarrow> db \<Rightarrow> bool" where
  "advisory s s' \<longleftrightarrow> accounts s' = accounts s \<and> acctkv s' = acctkv s \<and> seenHeights s' = seenHeights s \<and>
     state_lock s' = state_lock s \<and> (\<forall>k. (\<forall>h. k \<noteq> TxProcessingKey h) \<longrightarrow> mainkv s' k = mainkv s k)"

lemma advisory_refl [simp, intro]: "advisory s s"
  by (simp add: advisory_def)

lemma advisory_ticked [intro]: "ticked s s' \<Longrightarrow> advisory s s'"
  by (simp add: advisory_def ticked_fields)

lemma advisory_from_tick [simp]: "advisory (s\<lparr>tick := n\<rparr>) s' \<longleftrightarrow> advisory s s'"
  by (simp add: advisory_def)

lemma advisory_trans: "advisory s s' \<Longrightarrow> advisory s' s'' \<Longrightarrow> advisory s s''"
  by (simp add: advisory_def)

lemma processing_key_distinct [simp]:
  "TxProcessedKey h \<noteq> TxProcessingKey h'" "BlockProcessedKey h \<noteq> TxProcessingKey h'"
  "artOrdinalKey \<noteq> TxProcessingKey h'"
  by (simp_all add: TxProcessedKey_def BlockProcessedKey_def TxProcessingKey_def artOrdinalKey_def)

lemma advisory_mainkv:
  assumes "advisory s s'"
  shows "mainkv s' (TxProcessedKey h) = mainkv s (TxProcessedKey h)"
    "mainkv s' (BlockProcessedKey h) = mainkv s (BlockProcessedKey h)" "acctkv s' = acctkv s" "accounts s' = accounts s"
  using assms processing_key_distinct unfolding advisory_def by (blast+)

lemma advisory_marker: "advisory s s' \<Longrightarrow> marker_applied s' (TxProcessedKey h) = marker_applied s (TxProcessedKey h)"
  "advisory s s' \<Longrightarrow> marker_applied s' (BlockProcessedKey h) = marker_applied s (BlockProcessedKey h)"
  by (simp_all add: marker_applied_def advisory_mainkv split: option.split)

lemma IsMarkerApplied_wp:
  assumes "\<And>s'. ticked s s' \<Longrightarrow> Q (Inr (marker_applied s key)) s'"
    and "\<And>s'. ticked s s' \<Longrightarrow> \<not> faultless e \<Longrightarrow> Q (Inl EDb) s'"
  shows "wp (IsMarkerApplied key) e Q P s"
proof -
  have "fault e n \<noteq> Done \<Longrightarrow> \<not> faultless e" for n by auto
  then show ?thesis
    using assms by (auto simp: IsMarkerApplied_def wp_rules marker_applied_def ticked_def split: option.splits)
qed

lemma cleanupProcessingMarkers_wp:
  assumes "\<And>s'. advisory s s' \<Longrightarrow> Q () s'"
  shows "wp (cleanupProcessingMarkers h) e Q P s"
  using assms
  by (auto simp: cleanupProcessingMarkers_def Exists_def wp_rules advisory_def split: option.splits)

lemma fail_tx_wp:
  assumes "\<And>s'. advisory s s' \<Longrightarrow> Q (Inl x) s'"
  shows "wp (fail_tx h x) e Q P s"
  unfolding fail_tx_def wp_bnd by (rule cleanupProcessingMarkers_wp) (simp add: wp_rules assms)

lemma read_original_state_wp:
  assumes "\<And>s'. ticked s s' \<Longrightarrow> Q (Inr ()) s'" "\<And>s'. ticked s s' \<Longrightarrow> \<not> faultless e \<Longrightarrow> Q (Inl EDb) s'"
  shows "wp (read_original_state as) e Q P s"
  using assms
proof (induction as arbitrary: s)
  case Nil
  then show ?case by (simp add: wp_rules)
next
  case (Cons a as)
  have "wp (read_original_state as) e Q P (s\<lparr>tick := Suc (tick s)\<rparr>)"
    by (rule Cons.IH) (use Cons.prems in \<open>auto intro: ticked_trans\<close>)
  moreover have "fault e (tick s) \<noteq> Done \<Longrightarrow> \<not> faultless e" by auto
  ultimately show ?case using Cons.prems by (auto simp: wp_rules split: option.split)
qed

lemma accountExists_wp:
  assumes "\<And>s'. ticked s s' \<Longrightarrow> Q (Inr (accounts s a \<noteq> None)) s'"
    and "\<And>s'. ticked s s' \<Longrightarrow> \<not> faultless e \<Longrightarrow> Q (Inl EDb) s'"
  shows "wp (accountExists a) e Q P s"
proof -
  have "fault e (tick s) \<noteq> Done \<Longrightarrow> \<not> faultless e" by auto
  then show ?thesis
    using assms(1) [of "s\<lparr>tick := Suc (tick s)\<rparr>"] assms(2) [of "s\<lparr>tick := Suc (tick s)\<rparr>"]
    by (auto simp: accountExists_def wp_rules split: option.splits)
qed

subsection \<open>The atomic commit\<close>

lemma fold_put_account:
  assumes "keyed docs" "set os \<subseteq> dom docs"
  shows "fold put_account (List.map_filter docs os) s
     = s\<lparr>accounts := (\<lambda>a. if a \<in> set os then docs a else accounts s a)\<rparr>"
  using assms(2)
proof (induction os arbitrary: s)
  case Nil
  then show ?case by simp
next
  case (Cons a os)
  then obtain d where d: "docs a = Some d" by auto
  with assms(1) have "a_Address d = a" by (simp add: keyed_def)
  with Cons d show ?case
    by (auto simp: List.map_filter_def put_account_def fun_eq_iff intro!: arg_cong [where f = "\<lambda>f. s\<lparr>accounts := f\<rparr>"])
qed

lemma fold_staged:
  assumes "stage_ok A st"
  shows "fold put_account (staged st) s = s\<lparr>accounts := overlay (accounts s) st\<rparr>"
proof -
  have "(\<lambda>a. if a \<in> set (st_order st) then st_docs st a else accounts s a) = overlay (accounts s) st"
    using assms by (auto simp: stage_ok_def overlay_def map_add_def fun_eq_iff split: option.splits)
  then show ?thesis
    using fold_put_account [of "st_docs st" "st_order st" s] assms by (simp add: stage_ok_def staged_def)
qed

lemma staged_length:
  assumes "stage_ok A st" "finite A"
  shows "length (staged st) \<le> card A" "staged st = [] \<Longrightarrow> overlay L st = L"
proof -
  have "length (staged st) \<le> length (st_order st)" by (simp add: staged_def List.map_filter_def)
  also have "\<dots> = card (dom (st_docs st))"
    using assms(1) distinct_card [of "st_order st"] by (simp add: stage_ok_def)
  also have "\<dots> \<le> card A" using assms by (simp add: stage_ok_def card_mono)
  finally show "length (staged st) \<le> card A" .
  assume "staged st = []"
  then have "\<forall>a \<in> set (st_order st). st_docs st a = None"
    by (auto simp: staged_def List.map_filter_def filter_empty_conv)
  with assms(1) have "dom (st_docs st) = {}" by (auto simp: stage_ok_def)
  then show "overlay L st = L" by (simp add: overlay_def)
qed

lemma length_split_credits: "length (snd (SplitFee g coinbase recips)) \<le> max 1 (length recips)"
proof -
  have "length (distribute share w rs) \<le> length rs" for share w rs by (induction rs) auto
  moreover have "length (add_remainder rem cs) = length cs" for rem cs
    by (cases cs) (simp_all add: add_remainder_def)
  moreover have "length (sort_key fr_Addr recips) = length recips" by simp
  ultimately show ?thesis unfolding SplitFee_def split_ordered_def Let_def
    by (smt (verit, ccfv_SIG) length_Cons list.size(3) max.coboundedI1 max.coboundedI2 One_nat_def le_refl snd_conv)
qed

lemma touched_card: "finite (touched tx f t coinbase zkvm recips)"
  "length recips \<le> 1020 \<Longrightarrow> card (touched tx f t coinbase zkvm recips) < maxExecAllEntries"
proof -
  let ?cs = "snd (SplitFee (Some (tx_fee tx)) coinbase recips)"
  show "finite (touched tx f t coinbase zkvm recips)" by (simp add: touched_def)
  assume "length recips \<le> 1020"
  then have "card (fc_Addr ` set ?cs) \<le> 1020"
    using length_split_credits [of "Some (tx_fee tx)" coinbase recips] card_image_le [of "set ?cs" fc_Addr]
      card_length [of ?cs] by (simp add: max_def split: if_splits)
  moreover have "card {f, t, zkvm} \<le> 3" by (simp add: card_insert_if)
  ultimately show "card (touched tx f t coinbase zkvm recips) < maxExecAllEntries"
    using card_Un_le [of "{f, t, zkvm}" "fc_Addr ` set ?cs"] by (simp add: touched_def maxExecAllEntries_def)
qed

definition committed :: "env \<Rightarrow> string \<Rightarrow> ledger \<Rightarrow> db \<Rightarrow> db \<Rightarrow> bool" where
  "committed e h L' s s' \<longleftrightarrow> accounts s' = L' \<and>
     (\<exists>n. acctkv s' = (acctkv s)(TxProcessedKey h \<mapsto> big_String (clock e n))) \<and>
     seenHeights s' = seenHeights s \<and> state_lock s' = state_lock s \<and>
     (\<forall>k. (\<forall>h. k \<noteq> TxProcessingKey h) \<longrightarrow> mainkv s' k = mainkv s k)"

definition lossy :: "env \<Rightarrow> bool" where
  "lossy e \<longleftrightarrow> (\<exists>n. fault e n = LostAck)"

text \<open>
  How a run that passed the marker check ends: with an error and nothing but advisory
  keys changed, or with the abstract result and the marker committed together. The
  caller is told of the commit unless the acknowledgement was lost. When \<open>exact\<close> holds
  the error is the one of the abstract transaction.
\<close>

definition tx_ran :: "bool \<Rightarrow> env \<Rightarrow> string \<Rightarrow> (bool \<Rightarrow> bool \<Rightarrow> err + ledger) \<Rightarrow> db \<Rightarrow> err + unit \<Rightarrow> db \<Rightarrow> bool" where
  "tx_ran exact e h spec s r s' \<longleftrightarrow>
     (advisory s s' \<and> (\<exists>x. r = Inl x \<and> (exact \<longrightarrow> spec True True = Inl x))) \<or>
     (\<exists>okf okt L'. spec okf okt = Inr L' \<and> committed e h L' s s' \<and> (faultless e \<longrightarrow> okf \<and> okt) \<and>
        (r = Inr () \<or> lossy e))"

lemma tx_ran_before:
  "advisory s0 s \<Longrightarrow> tx_ran exact e h spec s r s' \<Longrightarrow> tx_ran exact e h spec s0 r s'"
  unfolding tx_ran_def committed_def advisory_def by auto

lemma tx_ran_after:
  "advisory s' s'' \<Longrightarrow> tx_ran exact e h spec s r s' \<Longrightarrow> tx_ran exact e h spec s r s''"
  unfolding tx_ran_def committed_def advisory_def by auto

lemma tx_ran_fail:
  assumes "exact \<Longrightarrow> spec True True = Inl x"
  shows "wp (fail_tx h x) e (tx_ran exact e h spec s) (\<lambda>_. False) s"
  by (rule fail_tx_wp) (use assms in \<open>auto simp: tx_ran_def\<close>)

lemma fold_ops: "fold (\<lambda>f. f) (map g ds) s = fold g ds s"
  by (induction ds arbitrary: s) simp_all

lemma commit_wp:
  assumes st: "stage_ok A st" "finite A" and fit: "exact \<Longrightarrow> card A < maxExecAllEntries"
    and spec: "spec okf okt = Inr (overlay (accounts s) st)" "overlay (accounts s) st \<noteq> accounts s"
    and ok: "faultless e \<longrightarrow> okf \<and> okt" and exact: "exact \<Longrightarrow> faultless e"
  shows "wp (commit_stage h st) e (tx_ran exact e h spec s) (\<lambda>_. False) s"
proof -
  have ne: "staged st \<noteq> []" using staged_length(2) [OF st] spec(2) by metis
  show ?thesis
  proof (cases "length (staged st) + 1 > maxExecAllEntries")
    case True
    with fit staged_length(1) [OF st] have "\<not> exact" by linarith
    with True ne show ?thesis
      by (simp add: commit_stage_def wp_rules ApplyTxAtomic_def tx_ran_fail)
  next
    case False
    let ?s1 = "markerOp (TxProcessedKey h) (clock e (tick s))
      (s\<lparr>tick := Suc (tick s), accounts := overlay (accounts s) st\<rparr>)"
    have com: "committed e h (overlay (accounts s) st) s ?s1"
      by (auto simp: committed_def markerOp_def put_acct_def)
    have run: "tx_ran exact e h spec s r s'" if "advisory ?s1 s'" "r = Inr () \<or> lossy e" for r s'
      by (rule tx_ran_after [OF that(1)]) (use com spec(1) ok that(2) in \<open>auto simp: tx_ran_def\<close>)
    have lost: "wp (fail_tx h EDb) e (tx_ran exact e h spec s) (\<lambda>_. False) ?s1" if "lossy e"
      by (rule fail_tx_wp) (use run that in blast)
    have failed: "wp (fail_tx h EDb) e (tx_ran exact e h spec s) (\<lambda>_. False) (s\<lparr>tick := Suc (tick s)\<rparr>)"
      if "\<not> faultless e"
      by (rule fail_tx_wp) (use exact that in \<open>auto simp: tx_ran_def\<close>)
    have acked: "wp (bnd (cleanupProcessingMarkers h) (\<lambda>_. ret (Inr ()))) e (tx_ran exact e h spec s) (\<lambda>_. False) ?s1"
      unfolding wp_bnd by (rule cleanupProcessingMarkers_wp) (simp add: wp_rules run)
    have f: "fault e (tick s) = Failed \<Longrightarrow> \<not> faultless e" "fault e (tick s) = LostAck \<Longrightarrow> lossy e"
      by (auto simp: lossy_def)
    show ?thesis
      using False ne lost failed acked f
      by (cases "fault e (tick s)")
         (simp_all add: commit_stage_def wp_rules ApplyTxAtomic_def fold_ops fold_staged [OF st(1)])
  qed
qed

lemma parseTransaction_simp:
  "parseTransaction tx =
     (if tx_amount tx < 0 then Inl ENegativeValue
      else if EffectiveGasPrice (tx_Type tx) (tx_GasPrice tx) (tx_MaxFee tx) (tx_MaxPriorityFee tx) < 0
      then Inl ENegativeGasFee
      else Inr \<lparr>p_Original = tx, p_ValueBig = tx_amount tx,
        p_EffectiveGasFee = EffectiveGasPrice (tx_Type tx) (tx_GasPrice tx) (tx_MaxFee tx) (tx_MaxPriorityFee tx)\<rparr>)"
  by (simp add: parseTransaction_def tx_amount_def Let_def split: option.split)

lemma transfer_changes:
  assumes "ledger_transfer okf okt hexa tx f t coinbase zkvm recips ts carried L = Inr L'"
  shows "L' \<noteq> L"
proof
  assume "L' = L"
  with ledger_transfer_effect(3) [OF assms, of f] have "sent_at L f = sent_at L f + 1" by simp
  then show False by simp
qed

lemma tx_ran_bail:
  assumes "ticked s s'" "exact \<Longrightarrow> spec True True = Inl x"
  shows "wp (fail_tx h x) e (tx_ran exact e h spec s) (\<lambda>_. False) s'"
  by (rule wp_mono [OF tx_ran_fail [of exact spec x]])
     (use assms in \<open>auto intro: tx_ran_before\<close>)

text \<open>A bounded fee-recipient list fits one commit.\<close>

definition exact_run :: "env \<Rightarrow> fee_recipient list \<Rightarrow> bool" where
  "exact_run e recips \<longleftrightarrow> faultless e \<and> length recips \<le> 1020"

lemma stage_commit_wp:
  assumes k: "keyed (accounts s)" and s1: "ticked s s1" and ex: "ex = (accounts s t \<noteq> None)"
    and sp: "\<And>okf okt. spec okf okt = ledger_transfer okf okt hexa tx f t coinbase zkvm recips ts carried (accounts s)"
  shows "wp (attempt (stage_transaction hexa tx f t coinbase zkvm recips ts carried (tx_amount tx) ex)
           (\<lambda>x. fail_tx h x) (commit_stage h))
     e (tx_ran (exact_run e recips) e h spec s) (\<lambda>_. False) s1"
  unfolding wp_attempt
proof (rule wp_mono [OF stage_transaction_wp [where A = "touched tx f t coinbase zkvm recips"]], goal_cases)
  case (4 r s2)
  then obtain okf okt where s2: "ticked s s2" and ok: "faultless e \<longrightarrow> okf \<and> okt"
    and r: "refines e (touched tx f t coinbase zkvm recips) (accounts s2) r (spec okf okt)"
    using s1 by (auto simp: sp ticked_fields intro: ticked_trans)
  show ?case
  proof (cases r)
    case (Inl x)
    with r ok show ?thesis by (auto simp: exact_run_def intro!: tx_ran_bail [OF s2])
  next
    case (Inr st)
    with r have st: "stage_ok (touched tx f t coinbase zkvm recips) st" "spec okf okt = Inr (overlay (accounts s2) st)"
      by auto
    have ne: "overlay (accounts s2) st \<noteq> accounts s2"
      using st(2) transfer_changes s2 by (simp add: sp ticked_fields)
    show ?thesis unfolding Inr sum.case
      by (rule wp_mono [OF commit_wp [where exact = "exact_run e recips" and spec = spec and okf = okf and okt = okt,
              OF st(1) touched_card(1) _ st(2) ne ok]])
         (use s2 touched_card(2) in \<open>auto simp: exact_run_def intro: tx_ran_before\<close>)
  qed
qed (use k s1 ex in \<open>simp_all add: ticked_fields\<close>)

lemma transfer_between_wp:
  assumes k: "keyed (accounts s)"
    and spec: "\<And>okf okt. spec okf okt = (if accounts s f = None then Inl ESenderMissing
      else if accounts s t = None \<and> (carried t = None \<or> carried t = Some 0) then Inl ERecipientMissing
      else ledger_transfer okf okt hexa tx f t coinbase zkvm recips ts carried (accounts s))"
  shows "wp (transfer_between hexa tx f t coinbase zkvm recips ts carried (tx_amount tx)) e
     (tx_ran (exact_run e recips) e (Hash_Hex (tx_Hash tx)) spec s) (\<lambda>_. False) s"
  unfolding transfer_between_def Let_def wp_bnd
proof (rule accountExists_wp, goal_cases)
  case (1 s1)
  show ?case
  proof (cases "accounts s f = None")
    case True
    with spec show ?thesis by (simp add: tx_ran_bail [OF 1])
  next
    case sender: False
    let ?has = "case carried t of None \<Rightarrow> False | Some n \<Rightarrow> n \<noteq> 0"
    have go: "wp (attempt (accountExists t) (\<lambda>_. fail_tx (Hash_Hex (tx_Hash tx)) ERecipientUnknown) (\<lambda>recipientExists.
        if \<not> recipientExists \<and> \<not> ?has then fail_tx (Hash_Hex (tx_Hash tx)) ERecipientMissing
        else attempt (stage_transaction hexa tx f t coinbase zkvm recips ts carried (tx_amount tx) recipientExists)
          (\<lambda>x. fail_tx (Hash_Hex (tx_Hash tx)) x) (commit_stage (Hash_Hex (tx_Hash tx)))))
        e (tx_ran (exact_run e recips) e (Hash_Hex (tx_Hash tx)) spec s) (\<lambda>_. False) s1"
      unfolding wp_attempt [of "accountExists t"]
    proof (rule accountExists_wp, goal_cases)
      case (1 s2)
      with \<open>ticked s s1\<close> have s2: "ticked s s2" and ex: "(accounts s1 t \<noteq> None) = (accounts s t \<noteq> None)"
        by (auto simp: ticked_fields intro: ticked_trans)
      have sp: "accounts s t \<noteq> None \<or> ?has \<Longrightarrow>
          spec okf okt = ledger_transfer okf okt hexa tx f t coinbase zkvm recips ts carried (accounts s)" for okf okt
        using sender by (auto simp: spec split: option.splits)
      have miss: "\<not> (accounts s t \<noteq> None) \<and> \<not> ?has \<Longrightarrow> spec True True = Inl ERecipientMissing"
        using sender by (auto simp: spec split: option.splits)
      show ?case
      proof (cases "accounts s t \<noteq> None \<or> ?has")
        case True
        then have "(\<not> (accounts s t \<noteq> None) \<and> \<not> ?has) = False" by blast
        then show ?thesis unfolding sum.case ex
          using stage_commit_wp [OF k s2 refl sp [OF True]] by (simp only: if_False)
      next
        case False
        then have "(\<not> (accounts s t \<noteq> None) \<and> \<not> ?has) = True" by blast
        with miss tx_ran_bail [OF s2] show ?thesis unfolding sum.case ex by (simp only: if_True)
      qed
    qed (use \<open>ticked s s1\<close> in \<open>auto simp: exact_run_def intro!: tx_ran_bail intro: ticked_trans\<close>)
    from sender have "(Inr (accounts s f \<noteq> None) \<noteq> (Inr True :: err + bool)) = False" by simp
    with go show ?thesis by (simp only: if_False)
  qed
next
  case (2 s1)
  then show ?case by (auto simp: exact_run_def intro!: tx_ran_bail)
qed

lemma execute_transaction_wp:
  assumes k: "keyed (accounts s)"
    and spec: "spec = (\<lambda>okf okt. ledger_apply okf okt hexa tx f t coinbase zkvm recips ts carried (accounts s))"
  shows "wp (execute_transaction hexa tx f t coinbase zkvm recips ts carried) e
     (tx_ran (exact_run e recips) e (Hash_Hex (tx_Hash tx)) spec s) (\<lambda>_. False) s"
proof (cases "parseTransaction tx")
  case (Inl x)
  then have "spec True True = Inl x" by (auto simp: parseTransaction_simp spec ledger_apply_def split: if_splits)
  with Inl show ?thesis by (simp add: execute_transaction_def tx_ran_fail)
next
  case (Inr parsed)
  then have "p_ValueBig parsed = tx_amount tx"
    and "\<And>okf okt. spec okf okt = (if accounts s f = None then Inl ESenderMissing
      else if accounts s t = None \<and> (carried t = None \<or> carried t = Some 0) then Inl ERecipientMissing
      else ledger_transfer okf okt hexa tx f t coinbase zkvm recips ts carried (accounts s))"
    by (auto simp: parseTransaction_simp spec ledger_apply_def split: if_splits)
  with Inr transfer_between_wp [OF k, of spec] show ?thesis by (simp add: execute_transaction_def)
qed

text \<open>The look at an earlier \<^verbatim>\<open>tx_processing\<close> key has no effect on what follows.\<close>

lemma processing_probe_wp:
  assumes "\<And>s'. ticked s s' \<Longrightarrow> wp m e Q P s'"
  shows "wp (bnd (Exists k) (\<lambda>p. bnd (if p = Inr True then bnd (ReadKey k) (\<lambda>_. ret ()) else ret ()) (\<lambda>_. m))) e Q P s"
  using assms by (simp add: Exists_def wp_bnd wp_ReadKey wp_ret wp_if split: option.split)

text \<open>The whole critical section: the marker check first.\<close>

definition tx_done :: "bool \<Rightarrow> env \<Rightarrow> string \<Rightarrow> (bool \<Rightarrow> bool \<Rightarrow> err + ledger) \<Rightarrow> db \<Rightarrow> err + unit \<Rightarrow> db \<Rightarrow> bool" where
  "tx_done exact e h spec s r s' \<longleftrightarrow>
     marker_applied s (TxProcessedKey h) \<and> r = Inr () \<and> advisory s s' \<or>
     (faultless e \<longrightarrow> \<not> marker_applied s (TxProcessedKey h)) \<and> tx_ran exact e h spec s r s'"

lemma process_locked_wp:
  assumes k: "keyed (accounts s)"
    and spec: "spec = (\<lambda>okf okt. ledger_apply okf okt hexa tx f t coinbase zkvm recips ts carried (accounts s))"
  shows "wp (process_locked hexa tx f t coinbase zkvm recips ts carried) e
     (tx_done (exact_run e recips) e (Hash_Hex (tx_Hash tx)) spec s) (\<lambda>_. False) s"
proof -
  let ?h = "Hash_Hex (tx_Hash tx)"
  have body: "wp (execute_transaction hexa tx f t coinbase zkvm recips ts carried) e
      (tx_ran (exact_run e recips) e ?h spec s) (\<lambda>_. False) s'" if "advisory s s'" for s'
    by (rule wp_mono [OF execute_transaction_wp])
       (use that k in \<open>auto simp: spec advisory_mainkv intro: tx_ran_before\<close>)
  have original: "wp (attempt (read_original_state as) (\<lambda>x. fail_tx ?h x)
      (\<lambda>_. execute_transaction hexa tx f t coinbase zkvm recips ts carried)) e
      (tx_ran (exact_run e recips) e ?h spec s) (\<lambda>_. False) s'" if a: "advisory s s'" for s' as
    unfolding wp_attempt
  proof (rule read_original_state_wp, goal_cases)
    case (1 s1)
    with a show ?case by (auto intro!: body intro: advisory_trans)
  next
    case (2 s1)
    then have "advisory s s1" using a by (blast intro: advisory_trans)
    with 2(2) show ?case unfolding sum.case
      by (intro fail_tx_wp) (auto simp: tx_ran_def exact_run_def intro: advisory_trans)
  qed
  have adv: "advisory s (s'\<lparr>tick := n\<rparr>)" "advisory s (s'\<lparr>tick := n, mainkv := (mainkv s')(TxProcessingKey ?h \<mapsto> v)\<rparr>)"
    if "advisory s s'" for s' v n
    using that by (auto simp: advisory_def)
  have mark: "wp (bnd now (\<lambda>t'. bnd (Create (TxProcessingKey ?h) (big_String t')) (\<lambda>_.
      attempt (read_original_state [f, t, coinbase, zkvm]) (\<lambda>x. fail_tx ?h x)
      (\<lambda>_. execute_transaction hexa tx f t coinbase zkvm recips ts carried)))) e
      (tx_ran (exact_run e recips) e ?h spec s) (\<lambda>_. False) s'" if "advisory s s'" for s'
    using adv [OF that] original by (simp add: wp_bnd wp_now wp_Create del: read_original_state.simps)
  have rest: "wp (bnd (Exists (TxProcessingKey ?h)) (\<lambda>processing.
      bnd (if processing = Inr True then bnd (ReadKey (TxProcessingKey ?h)) (\<lambda>_. ret ()) else ret ()) (\<lambda>_.
      bnd now (\<lambda>t'. bnd (Create (TxProcessingKey ?h) (big_String t')) (\<lambda>_.
      attempt (read_original_state [f, t, coinbase, zkvm]) (\<lambda>x. fail_tx ?h x)
      (\<lambda>_. execute_transaction hexa tx f t coinbase zkvm recips ts carried)))))) e
      (tx_ran (exact_run e recips) e ?h spec s) (\<lambda>_. False) s'" if "advisory s s'" for s'
    by (rule processing_probe_wp, rule mark) (use that in \<open>blast intro: advisory_trans\<close>)
  show ?thesis
    unfolding process_locked_def Let_def wp_bnd [of "IsMarkerApplied _"]
  proof (rule IsMarkerApplied_wp, goal_cases)
    case (1 s1)
    then have s1: "advisory s s1" by blast
    show ?case
    proof (cases "marker_applied s (TxProcessedKey ?h)")
      case True
      with s1 show ?thesis by (simp add: wp_ret tx_done_def)
    next
      case False
      with wp_mono [OF rest [OF s1]] show ?thesis by (simp add: tx_done_def del: read_original_state.simps)
    qed
  next
    case (2 s1)
    then have "advisory s s1" by blast
    with wp_mono [OF rest] 2(2) show ?case by (simp add: tx_done_def del: read_original_state.simps)
  qed
qed

lemma EnsureDBConnection_wp:
  assumes "\<And>s'. ticked s s' \<Longrightarrow> Q (Inr ()) s'" "\<And>s'. ticked s s' \<Longrightarrow> \<not> faultless e \<Longrightarrow> Q (Inl EDb) s'"
  shows "wp (EnsureDBConnection (Suc n)) e Q P s"
  using assms
proof (induction n arbitrary: s)
  case 0
  have "fault e (tick s) \<noteq> Done \<Longrightarrow> \<not> faultless e" by auto
  with 0 show ?case by (auto simp: wp_rules)
next
  case (Suc n)
  have "wp (EnsureDBConnection (Suc n)) e Q P (s\<lparr>tick := Suc (tick s)\<rparr>)"
    by (rule Suc.IH) (use Suc.prems in auto)
  with Suc.prems show ?case
    unfolding EnsureDBConnection.simps(2) [of "Suc n"] by (simp add: wp_bnd wp_sys wp_if wp_ret)
qed

lemma processTransaction_wp:
  assumes k: "keyed (accounts s)" and lock: "\<not> state_lock s"
    and party: "tx_From tx = Some f" "tx_To tx = Some t"
    and spec: "spec = (\<lambda>okf okt. ledger_apply okf okt hexa tx f t coinbase zkvm recips ts carried (accounts s))"
  shows "wp (processTransaction hexa tx coinbase zkvm recips ts carried) e
     (tx_done (exact_run e recips) e (Hash_Hex (tx_Hash tx)) spec s) (\<lambda>_. False) s"
  unfolding processTransaction_def party prod.case option.case wp_attempt numeral_3_eq_3
proof (rule EnsureDBConnection_wp, goal_cases)
  case (1 s1)
  let ?h = "Hash_Hex (tx_Hash tx)" and ?l = "s1\<lparr>state_lock := True\<rparr>"
  have unlocked: "tx_done (exact_run e recips) e ?h spec s r (unlock_state s')"
    if "tx_done (exact_run e recips) e ?h spec ?l r s'" for r s'
  proof -
    have eq: "acctkv s1 = acctkv s" "mainkv s1 = mainkv s" "seenHeights s1 = seenHeights s"
      "accounts s1 = accounts s" "state_lock s = False"
      using ticked_fields [OF 1] lock by simp_all
    then have "marker_applied ?l (TxProcessedKey ?h) = marker_applied s (TxProcessedKey ?h)"
      by (simp add: marker_applied_def split: option.split)
    with that eq show ?thesis
      by (simp add: tx_done_def tx_ran_def advisory_def committed_def unlock_state_def) blast
  qed
  show ?case unfolding sum.case wp_bnd wp_lock wp_deferring
    by (rule wp_mono [OF process_locked_wp [where spec = spec]])
       (use 1 k in \<open>simp_all add: ticked_fields unlocked, simp add: spec\<close>)
next
  case (2 s1)
  then show ?case by (auto simp: wp_ret tx_done_def tx_ran_def exact_run_def)
qed

lemma processTransaction_run:
  assumes "processTransaction hexa tx coinbase zkvm recips ts carried e s = (r, s')"
    and "keyed (accounts s)" "\<not> state_lock s" "tx_From tx = Some f" "tx_To tx = Some t"
  obtains r' where "r = Ret r'" "tx_done (exact_run e recips) e (Hash_Hex (tx_Hash tx))
      (\<lambda>okf okt. ledger_apply okf okt hexa tx f t coinbase zkvm recips ts carried (accounts s)) s r' s'"
proof -
  have "wp (processTransaction hexa tx coinbase zkvm recips ts carried) e
     (tx_done (exact_run e recips) e (Hash_Hex (tx_Hash tx))
      (\<lambda>okf okt. ledger_apply okf okt hexa tx f t coinbase zkvm recips ts carried (accounts s)) s) (\<lambda>_. False) s"
    by (rule processTransaction_wp [OF assms(2-5) refl])
  with assms(1) show thesis by (auto simp: wp_def split: result.splits intro: that)
qed

lemma tx_done_cases:
  assumes "tx_done exact e h spec s r s'"
  obtains (same) "accounts s' = accounts s" "acctkv s' = acctkv s"
      "r = Inr () \<Longrightarrow> marker_applied s (TxProcessedKey h)"
      "exact \<Longrightarrow> r \<noteq> Inr () \<Longrightarrow> \<exists>x. r = Inl x \<and> spec True True = Inl x"
  | (moved) okf okt n where "spec okf okt = Inr (accounts s')"
      "acctkv s' = (acctkv s)(TxProcessedKey h \<mapsto> big_String (clock e n))"
      "r = Inr () \<or> lossy e" "faultless e \<longrightarrow> okf \<and> okt \<and> \<not> marker_applied s (TxProcessedKey h)"
  using assms unfolding tx_done_def tx_ran_def
  by (auto simp: advisory_mainkv committed_def)

end
