(* ===== verification/TxProps.thy ===== *)
theory TxProps
  imports TxExecution
begin

text \<open>
  What execution of one transaction guarantees: atomicity under every database fault,
  agreement with the abstract ledger, the exact balance change of every address,
  conservation of the supply, and protection against replay.
\<close>

lemma word_succ_gt: "(w :: 'a::len word) \<noteq> -1 \<Longrightarrow> w < w + 1"
  using inc_less_eq_triv_imp [of w] by (meson not_le)

lemma tx_done_keeps:
  assumes "tx_done exact e h spec s r s'"
  shows "state_lock s' = state_lock s" "mainkv s' (TxProcessedKey h') = mainkv s (TxProcessedKey h')"
    "mainkv s' (BlockProcessedKey h') = mainkv s (BlockProcessedKey h')"
  using assms processing_key_distinct unfolding tx_done_def tx_ran_def advisory_def committed_def by (blast+)

lemma keyed_apply:
  "ledger_apply okf okt hexa tx f t coinbase zkvm recips ts carried L = Inr L' \<Longrightarrow> keyed L \<Longrightarrow> keyed L'"
  by (rule ledger_transfer_effect(5) [OF ledger_apply_transfer])

lemma tx_done_keyed:
  assumes "tx_done exact e h (\<lambda>okf okt. ledger_apply okf okt hexa tx f t coinbase zkvm recips ts carried (accounts s)) s r s'"
    and "keyed (accounts s)"
  shows "keyed (accounts s')"
  using assms(1) by (cases rule: tx_done_cases) (use assms(2) keyed_apply in auto)

subsection \<open>Concrete input\<close>

definition demo_account :: "addr \<Rightarrow> string \<Rightarrow> account" where
  "demo_account a b = zero_account\<lparr>a_Address := a, a_Balance := b\<rparr>"

definition demo_ledger :: ledger where
  "demo_ledger = [1 \<mapsto> demo_account 1 ''1000'', 2 \<mapsto> demo_account 2 ''0'',
     3 \<mapsto> demo_account 3 ''0'', 4 \<mapsto> demo_account 4 ''0'']"

definition demo_db :: db where
  "demo_db = fresh_db\<lparr>accounts := demo_ledger\<rparr>"

definition demo_tx :: transaction where
  "demo_tx = zero_tx\<lparr>tx_From := Some 1, tx_To := Some 2, tx_Value := Some 100,
     tx_GasLimit := 11, tx_GasPrice := Some 1\<rparr>"

lemma demo_applies: "\<not> isl (ledger_apply True True (\<lambda>_. ''0x'') demo_tx 1 2 3 4 [] 7 Map.empty demo_ledger)"
  by code_simp

lemma demo_facts:
  "keyed (accounts demo_db)" "\<not> state_lock demo_db" "tx_From demo_tx = Some 1" "tx_To demo_tx = Some 2"
  "faultless calm" "finite (dom (accounts demo_db))" "\<not> marker_applied demo_db k"
  by (auto simp: demo_db_def demo_tx_def keyed_def demo_ledger_def demo_account_def fresh_db_def faultless_def
      calm_def marker_applied_def)

lemma demo_solvent: "solvent demo_ledger"
proof -
  have "big_SetString ''1000'' = Some 1000" by code_simp
  then show ?thesis
    by (simp add: solvent_def balance_at_def demo_ledger_def demo_account_def bal_def big_zero)
qed

definition demo_process :: "env \<Rightarrow> db \<Rightarrow> (err + unit) result \<times> db" where
  "demo_process = processTransaction (\<lambda>_. ''0x'') demo_tx 3 4 [] 7 Map.empty"

subsection \<open>Properties\<close>

text \<open>
  C2. A transaction is atomic under every database fault: it never panics once sender
  and recipient are present, and either no account and no marker changed, or the
  accounts are those of the abstract transfer and the \<^verbatim>\<open>tx_processed\<close> marker was
  written in the same step; the caller is told so unless the acknowledgement of a
  commit was lost.
\<close>
theorem transaction_atomic:
  assumes "processTransaction hexa tx coinbase zkvm recips ts carried e s = (r, s')"
    and "keyed (accounts s)" "\<not> state_lock s" "tx_From tx = Some f" "tx_To tx = Some t"
  shows "\<exists>r'. r = Ret r' \<and> \<not> state_lock s' \<and>
     (accounts s' = accounts s \<and> acctkv s' = acctkv s \<or>
      (\<exists>okf okt n. ledger_apply okf okt hexa tx f t coinbase zkvm recips ts carried (accounts s) = Inr (accounts s') \<and>
         acctkv s' = (acctkv s)(TxProcessedKey (Hash_Hex (tx_Hash tx)) \<mapsto> big_String (clock e n)) \<and>
         (r' = Inr () \<or> lossy e)))"
proof -
  from assms obtain r' where r': "r = Ret r'" and d: "tx_done (exact_run e recips) e (Hash_Hex (tx_Hash tx))
      (\<lambda>okf okt. ledger_apply okf okt hexa tx f t coinbase zkvm recips ts carried (accounts s)) s r' s'"
    by (rule processTransaction_run)
  from d have "\<not> state_lock s'" using assms(3) tx_done_keeps(1) by blast
  with r' d show ?thesis by (cases rule: tx_done_cases [OF d]) blast+
qed

text \<open>
  Without database faults the code computes exactly the abstract transaction:
  the same error with nothing changed, or success with the abstract ledger stored and
  the marker set. (At most 1020 fee recipients, so that the commit fits one batch.)
\<close>
theorem transaction_refines_ledger:
  assumes "processTransaction hexa tx coinbase zkvm recips ts carried e s = (r, s')"
    and "keyed (accounts s)" "\<not> state_lock s" "tx_From tx = Some f" "tx_To tx = Some t"
    and "faultless e" "length recips \<le> 1020" "\<not> marker_applied s (TxProcessedKey (Hash_Hex (tx_Hash tx)))"
  shows "case ledger_apply True True hexa tx f t coinbase zkvm recips ts carried (accounts s) of
      Inl x \<Rightarrow> r = Ret (Inl x) \<and> accounts s' = accounts s \<and> acctkv s' = acctkv s
    | Inr L' \<Rightarrow> r = Ret (Inr ()) \<and> accounts s' = L' \<and>
        (\<exists>n. acctkv s' = (acctkv s)(TxProcessedKey (Hash_Hex (tx_Hash tx)) \<mapsto> big_String (clock e n)))"
proof -
  have ex: "exact_run e recips" "\<not> lossy e" using assms(6,7) by (auto simp: exact_run_def lossy_def)
  from assms(1-5) obtain r' where r': "r = Ret r'" and d: "tx_done (exact_run e recips) e (Hash_Hex (tx_Hash tx))
      (\<lambda>okf okt. ledger_apply okf okt hexa tx f t coinbase zkvm recips ts carried (accounts s)) s r' s'"
    by (rule processTransaction_run)
  from d show ?thesis
  proof (cases rule: tx_done_cases)
    case same
    with ex assms(8) obtain x where "r' = Inl x"
      "ledger_apply True True hexa tx f t coinbase zkvm recips ts carried (accounts s) = Inl x" by blast
    with same r' show ?thesis by simp
  next
    case (moved okf okt n)
    with ex assms(6) r' show ?thesis by auto
  qed
qed

text \<open>Witnesses run the transfer of 100 with a fee of 11 on four accounts.\<close>

lemma demo_result:
  obtains L' where "ledger_apply True True (\<lambda>_. ''0x'') demo_tx 1 2 3 4 [] 7 Map.empty (accounts demo_db) = Inr L'"
  using demo_applies
  by (cases "ledger_apply True True (\<lambda>_. ''0x'') demo_tx 1 2 3 4 [] 7 Map.empty demo_ledger") (auto simp: demo_db_def)

lemma demo_split: "tx_amount demo_tx = 100" "tx_fee demo_tx = 11"
  "snd (SplitFee (Some 11) 3 []) = [\<lparr>fc_Addr = 3, fc_Amount = 6\<rparr>]"
  by (simp_all add: tx_amount_def demo_tx_def tx_fee_def GasFee_def EffectiveGasLimit_def EffectiveGasPrice_def SplitFee_def zero_tx_def)

theorem transaction_refines_ledger_witness:
  "fst (demo_process calm demo_db) = Ret (Inr ()) \<and> balance_at (accounts (snd (demo_process calm demo_db))) 2 = 100"
proof -
  obtain L' where L': "ledger_apply True True (\<lambda>_. ''0x'') demo_tx 1 2 3 4 [] 7 Map.empty (accounts demo_db) = Inr L'"
    by (rule demo_result)
  from transaction_refines_ledger [OF surjective_pairing demo_facts(1-5) _ demo_facts(7), of "[]" "\<lambda>_. ''0x''" 3 4 7 Map.empty] L'
  have run: "fst (demo_process calm demo_db) = Ret (Inr ())" "accounts (snd (demo_process calm demo_db)) = L'"
    by (simp_all add: demo_process_def)
  have "balance_at L' 2 = 100"
    using ledger_transfer_effect(1) [OF ledger_apply_transfer [OF L'], of 2]
    by (simp add: demo_split demo_db_def demo_ledger_def balance_at_def demo_account_def bal_def big_zero)
  with run show ?thesis by simp
qed

theorem transaction_atomic_witness:
  "\<exists>r. fst (demo_process (calm\<lparr>fault := (\<lambda>n. if n = 9 then LostAck else Done)\<rparr>) demo_db) = Ret r"
  using transaction_atomic [OF surjective_pairing demo_facts(1-4),
      of "\<lambda>_. ''0x''" 3 4 "[]" 7 Map.empty "calm\<lparr>fault := (\<lambda>n. if n = 9 then LostAck else Done)\<rparr>"]
  unfolding demo_process_def by blast

text \<open>
  Whatever the database does, a transaction conserves the total supply and never
  makes a balance negative.
\<close>
theorem transaction_conserves_supply:
  assumes "processTransaction hexa tx coinbase zkvm recips ts carried e s = (r, s')"
    and "keyed (accounts s)" "\<not> state_lock s" "tx_From tx = Some f" "tx_To tx = Some t"
    and "finite (dom (accounts s))"
  shows "total_supply (accounts s') = total_supply (accounts s) \<and> (solvent (accounts s) \<longrightarrow> solvent (accounts s'))"
proof -
  from assms(1-5) obtain r' where "tx_done (exact_run e recips) e (Hash_Hex (tx_Hash tx))
      (\<lambda>okf okt. ledger_apply okf okt hexa tx f t coinbase zkvm recips ts carried (accounts s)) s r' s'"
    by (rule processTransaction_run)
  then show ?thesis
  proof (cases rule: tx_done_cases)
    case (moved okf okt n)
    note step = ledger_apply_transfer [OF moved(1)]
    show ?thesis using ledger_transfer_supply [OF step assms(6)] ledger_transfer_solvent [OF step] by simp
  qed simp
qed

theorem transaction_conserves_supply_witness:
  "total_supply (accounts (snd (demo_process calm demo_db))) = total_supply demo_ledger \<and>
   solvent (accounts (snd (demo_process calm demo_db)))"
  using transaction_conserves_supply [OF surjective_pairing demo_facts(1-4) demo_facts(6),
      of "\<lambda>_. ''0x''" 3 4 "[]" 7 Map.empty calm] demo_solvent
  by (simp add: demo_process_def) (simp add: demo_db_def)

text \<open>
  C19. A transaction that returns success and was not marked before moves exactly its
  value and fee: the sender pays value plus fee, the recipient receives the value, the
  fee shares go to the fee recipients and the ZKVM address, every other balance and
  every other nonce is unchanged, and the sender's nonce becomes the transaction's
  nonce plus one. Addresses that play several roles receive the sum of their parts.
\<close>
theorem transaction_balances_exact:
  assumes "processTransaction hexa tx coinbase zkvm recips ts carried e s = (Ret (Inr ()), s')"
    and "keyed (accounts s)" "\<not> state_lock s" "tx_From tx = Some f" "tx_To tx = Some t"
    and "\<not> marker_applied s (TxProcessedKey (Hash_Hex (tx_Hash tx)))"
  shows "balance_at (accounts s') x = balance_at (accounts s) x
       - (if x = f then tx_amount tx + tx_fee tx else 0) + (if x = t then tx_amount tx else 0)
       + credited x (snd (SplitFee (Some (tx_fee tx)) coinbase recips)) + (if x = zkvm then tx_fee tx div 2 else 0) \<and>
     nonce_at (accounts s') x = (if x = f then tx_Nonce tx + 1 else nonce_at (accounts s) x) \<and>
     nonce_at (accounts s) f \<le> tx_Nonce tx"
proof -
  from assms(1-5) obtain r' where r': "Ret (Inr ()) = Ret r'" and "tx_done (exact_run e recips) e (Hash_Hex (tx_Hash tx))
      (\<lambda>okf okt. ledger_apply okf okt hexa tx f t coinbase zkvm recips ts carried (accounts s)) s r' s'"
    by (rule processTransaction_run)
  from this(2) show ?thesis
  proof (cases rule: tx_done_cases)
    case (moved okf okt n)
    from ledger_transfer_effect [OF ledger_apply_transfer [OF moved(1)]] show ?thesis by blast
  qed (use r' assms(6) in auto)
qed

lemma demo_success: "demo_process calm demo_db = (Ret (Inr ()), snd (demo_process calm demo_db))"
proof -
  obtain r' where "fst (demo_process calm demo_db) = Ret r'" "tx_done (exact_run calm []) calm (Hash_Hex (tx_Hash demo_tx))
      (\<lambda>okf okt. ledger_apply okf okt (\<lambda>_. ''0x'') demo_tx 1 2 3 4 [] 7 Map.empty (accounts demo_db)) demo_db r'
      (snd (demo_process calm demo_db))"
    unfolding demo_process_def by (rule processTransaction_run [OF surjective_pairing demo_facts(1-4)])
  from this(2) have "r' = Inr ()"
  proof (cases rule: tx_done_cases)
    case same
    show ?thesis
    proof (rule ccontr)
      assume "r' \<noteq> Inr ()"
      with same(4) obtain x where "ledger_apply True True (\<lambda>_. ''0x'') demo_tx 1 2 3 4 [] 7 Map.empty (accounts demo_db) = Inl x"
        using demo_facts(5) by (auto simp: exact_run_def)
      then show False using demo_result by auto
    qed
  next
    case (moved okf okt n)
    then show ?thesis using demo_facts(5) by (simp add: lossy_def)
  qed
  with \<open>fst (demo_process calm demo_db) = Ret r'\<close> show ?thesis by (simp add: prod_eq_iff)
qed

theorem transaction_balances_exact_witness:
  "balance_at (accounts (snd (demo_process calm demo_db))) 1 = 889 \<and>
   balance_at (accounts (snd (demo_process calm demo_db))) 3 = 6 \<and>
   nonce_at (accounts (snd (demo_process calm demo_db))) 1 = 1"
proof -
  have b: "balance_at (accounts demo_db) 1 = 1000" "balance_at (accounts demo_db) 3 = 0" by code_simp+
  from transaction_balances_exact [OF demo_success [unfolded demo_process_def] demo_facts(1-4,7)] b
  show ?thesis by (simp add: demo_split demo_process_def) (simp add: demo_tx_def zero_tx_def)
qed

text \<open>
  C20. Replay is harmless under every fault, even when the marker cannot be read: after
  a transaction succeeded, a transaction of the same sender with the same or a smaller
  nonce leaves every account as it is, with any fees, timestamp and environment. The
  largest nonce is excluded, because its successor wraps to zero.
\<close>
theorem replay_harmless:
  assumes "processTransaction hexa tx coinbase zkvm recips ts carried e s = (Ret (Inr ()), s1)"
    and "keyed (accounts s)" "\<not> state_lock s" "tx_From tx = Some f" "tx_To tx = Some t"
    and "\<not> marker_applied s (TxProcessedKey (Hash_Hex (tx_Hash tx)))"
    and "tx_From tx' = Some f" "tx_To tx' = Some t'" "tx_Nonce tx' \<le> tx_Nonce tx" "tx_Nonce tx \<noteq> -1"
    and "processTransaction hexa tx' coinbase' zkvm' recips' ts' carried' e' s1 = (r, s2)"
  shows "accounts s2 = accounts s1"
proof -
  from assms(1-5) obtain r1 where r1: "Ret (Inr ()) = Ret r1"
    and d1: "tx_done (exact_run e recips) e (Hash_Hex (tx_Hash tx))
      (\<lambda>okf okt. ledger_apply okf okt hexa tx f t coinbase zkvm recips ts carried (accounts s)) s r1 s1"
    by (rule processTransaction_run)
  have s1: "keyed (accounts s1)" "\<not> state_lock s1"
    using tx_done_keyed [OF d1 assms(2)] tx_done_keeps(1) [OF d1] assms(3) by auto
  have next_nonce: "nonce_at (accounts s1) f = tx_Nonce tx + 1"
    using d1
  proof (cases rule: tx_done_cases)
    case (moved okf okt n)
    from ledger_transfer_effect(2) [OF ledger_apply_transfer [OF moved(1)]] show ?thesis by simp
  qed (use r1 assms(6) in auto)
  obtain r2 where "tx_done (exact_run e' recips') e' (Hash_Hex (tx_Hash tx'))
      (\<lambda>okf okt. ledger_apply okf okt hexa tx' f t' coinbase' zkvm' recips' ts' carried' (accounts s1)) s1 r2 s2"
    by (rule processTransaction_run [OF assms(11) s1 assms(7,8)])
  then show ?thesis
  proof (cases rule: tx_done_cases)
    case (moved okf okt n)
    from ledger_transfer_effect(8) [OF ledger_apply_transfer [OF moved(1)]]
    have "tx_Nonce tx + 1 \<le> tx_Nonce tx" using assms(9) by (simp add: next_nonce)
    with word_succ_gt [OF assms(10)] show ?thesis by simp
  qed simp
qed

theorem replay_harmless_witness:
  "accounts (snd (demo_process (calm\<lparr>fault := (\<lambda>n. if n = 5 then Failed else Done)\<rparr>) (snd (demo_process calm demo_db))))
     = accounts (snd (demo_process calm demo_db))"
  unfolding demo_process_def
  by (rule replay_harmless [OF demo_success [unfolded demo_process_def] demo_facts(1-4,7) demo_facts(3,4) order_refl _
        surjective_pairing])
     (simp add: demo_tx_def zero_tx_def)

end
