(* ===== verification/BlockExecution.thy ===== *)
theory BlockExecution
  imports TxProps
begin

text \<open>
  Execution of a whole block: the marker filter is exact, a block that succeeds is a
  fold of the abstract transactions, a block that fails leaves balances, nonces and
  markers as they were, and running a block again changes no account.
\<close>

subsection \<open>What the surrounding steps keep\<close>

definition kept :: "db \<Rightarrow> db \<Rightarrow> bool" where
  "kept s s' \<longleftrightarrow> accounts s' = accounts s \<and> acctkv s' = acctkv s \<and> state_lock s' = state_lock s \<and>
     (\<forall>h. mainkv s' (TxProcessedKey h) = mainkv s (TxProcessedKey h) \<and>
          mainkv s' (BlockProcessedKey h) = mainkv s (BlockProcessedKey h))"

lemma kept_refl [simp, intro]: "kept s s"
  by (simp add: kept_def)

lemma kept_trans: "kept s s' \<Longrightarrow> kept s' s'' \<Longrightarrow> kept s s''"
  by (simp add: kept_def)

lemma kept_advisory [intro]: "advisory s s' \<Longrightarrow> kept s s'"
  by (simp add: kept_def advisory_mainkv) (simp add: advisory_def)

lemma kept_ticked [intro]: "ticked s s' \<Longrightarrow> kept s s'"
  by blast

lemma kept_marker:
  assumes "kept s s'"
  shows "marker_applied s' (TxProcessedKey h) = marker_applied s (TxProcessedKey h)"
    "marker_applied s' (BlockProcessedKey h) = marker_applied s (BlockProcessedKey h)"
  using assms by (simp_all add: kept_def marker_applied_def split: option.split)

lemma cleanup_all_wp:
  assumes "\<And>s'. advisory s s' \<Longrightarrow> Q () s'"
  shows "wp (cleanup_all hs) e Q P s"
  using assms
proof (induction hs arbitrary: s)
  case (Cons h hs)
  show ?case unfolding cleanup_all.simps wp_bnd
    by (rule cleanupProcessingMarkers_wp, rule Cons.IH) (use Cons.prems in \<open>blast intro: advisory_trans\<close>)
qed (simp add: wp_rules)

lemma art_key_distinct [simp]: "TxProcessedKey h \<noteq> artOrdinalKey" "BlockProcessedKey h \<noteq> artOrdinalKey"
  by (simp_all add: TxProcessedKey_def BlockProcessedKey_def artOrdinalKey_def)

lemma BumpARTOrdinalFloor_wp:
  assumes "\<And>r s'. kept s s' \<Longrightarrow> Q r s'"
  shows "wp (BumpARTOrdinalFloor n) e Q P s"
proof -
  have k: "kept s (s\<lparr>tick := m\<rparr>)" "kept s (s\<lparr>tick := m, mainkv := (mainkv s)(artOrdinalKey \<mapsto> v)\<rparr>)" for m v
    by (simp_all add: kept_def)
  show ?thesis
    by (cases "mainkv s artOrdinalKey")
       (auto simp: BumpARTOrdinalFloor_def wp_rules assms k split: option.split)
qed

lemma bump_ordinal_floor_wp:
  assumes "\<And>s'. kept s s' \<Longrightarrow> Q () s'"
  shows "wp (bump_ordinal_floor n) e Q P s"
  unfolding bump_ordinal_floor_def using assms
  by (auto simp: wp_bnd wp_ret intro!: BumpARTOrdinalFloor_wp)

subsection \<open>The marker filter is exact\<close>

lemma collectMarkerValues_wp:
  assumes sel: "\<And>s n. sel (s\<lparr>tick := n\<rparr>) = sel s"
    and "\<And>s'. ticked s s' \<Longrightarrow>
        Q (Inr (\<lambda>h. if h \<in> set hashes \<and> sel s (TxProcessedKey h) \<noteq> None then sel s (TxProcessedKey h) else m h)) s'"
    and "\<And>s'. ticked s s' \<Longrightarrow> \<not> faultless e \<Longrightarrow> Q (Inl EDb) s'"
  shows "wp (collectMarkerValues sel hashes m) e Q P s"
  using assms(2,3)
proof (induction "length hashes" arbitrary: hashes m s rule: less_induct)
  case less
  show ?case
  proof (cases "hashes = []")
    case True
    with less.prems(1) [of s] show ?thesis by (simp add: collectMarkerValues.simps wp_ret)
  next
    case False
    let ?s1 = "s\<lparr>tick := Suc (tick s)\<rparr>"
    let ?found = "\<lambda>h. if h \<in> set (take 1000 hashes) then sel s (TxProcessedKey h) else None"
    have split: "set hashes = set (take 1000 hashes) \<union> set (drop 1000 hashes)"
      by (metis append_take_drop_id set_append)
    have eq: "(\<lambda>h. if h \<in> set (drop 1000 hashes) \<and> sel s (TxProcessedKey h) \<noteq> None then sel s (TxProcessedKey h)
          else (m ++ ?found) h)
        = (\<lambda>h. if h \<in> set hashes \<and> sel s (TxProcessedKey h) \<noteq> None then sel s (TxProcessedKey h) else m h)"
      unfolding split by (auto simp: fun_eq_iff map_add_def split: option.split)
    have "wp (collectMarkerValues sel (drop 1000 hashes) (m ++ ?found)) e Q P ?s1"
    proof (rule less.hyps, goal_cases)
      case (2 s')
      then show ?case unfolding sel eq by (intro less.prems(1)) simp
    qed (use False less.prems(2) in simp_all)
    moreover have "fault e (tick s) \<noteq> Done \<Longrightarrow> \<not> faultless e" by auto
    ultimately show ?thesis
      using False less.prems(2) [of ?s1]
      by (auto simp: collectMarkerValues.simps [of sel hashes] wp_attempt wp_sys wp_ret sel cong: if_cong)
  qed
qed

lemma FilterProcessedTxMarkers_wp:
  assumes "\<And>live s'. ticked s s' \<Longrightarrow> \<forall>h \<in> set hs. live h = marker_applied s (TxProcessedKey h) \<Longrightarrow> Q (Inr live) s'"
    and "\<And>s'. ticked s s' \<Longrightarrow> \<not> faultless e \<Longrightarrow> Q (Inl EDb) s'"
  shows "wp (FilterProcessedTxMarkers hs) e Q P s"
proof (cases "hs = []")
  case True
  with assms(1) [of s] show ?thesis by (simp add: FilterProcessedTxMarkers_def wp_ret)
next
  case False
  show ?thesis
    unfolding FilterProcessedTxMarkers_def if_not_P [OF False] wp_attempt Let_def
  proof (rule collectMarkerValues_wp, goal_cases)
    case (2 s1)
    let ?acct = "\<lambda>h. if h \<in> set hs \<and> acctkv s (TxProcessedKey h) \<noteq> None then acctkv s (TxProcessedKey h) else None"
    show ?case
    proof (cases "filter (\<lambda>h. ?acct h = None) hs = []")
      case True
      then have "\<forall>h \<in> set hs. \<exists>v. acctkv s (TxProcessedKey h) = Some v"
        by (auto simp: filter_empty_conv split: if_splits)
      with 2 show ?thesis unfolding sum.case if_P [OF True] wp_ret
        by (intro assms(1)) (auto simp: marker_applied_def)
    next
      case F: False
      show ?thesis unfolding sum.case if_not_P [OF F] wp_attempt
      proof (rule collectMarkerValues_wp, goal_cases)
        case (2 s2)
        with \<open>ticked s s1\<close> show ?case unfolding sum.case wp_ret
          by (intro assms(1)) (auto simp: marker_applied_def ticked_fields split: option.split intro: ticked_trans)
      qed (use \<open>ticked s s1\<close> in \<open>auto simp: wp_ret intro!: assms(2) intro: ticked_trans\<close>)
    qed
  qed (auto simp: wp_ret intro!: assms(2))
qed

subsection \<open>Successful blocks\<close>

lemma wp_top: "(\<And>a s'. Q a s') \<Longrightarrow> (\<And>s'. P s') \<Longrightarrow> wp m e Q P s"
  by (auto simp: wp_def split: prod.split result.split)

lemma wp_ret_fun: "wp (ret a) e Q P = Q a"
  by (rule ext) (rule wp_ret)

lemma wp_true: "wp m e (\<lambda>_ _. True) (\<lambda>_. True) = (\<lambda>_. True)"
  by (rule ext) (simp add: wp_top)

text \<open>The steps after the loop may write the block marker and the anchor.\<close>

definition kept_tx :: "db \<Rightarrow> db \<Rightarrow> bool" where
  "kept_tx s s' \<longleftrightarrow> accounts s' = accounts s \<and> state_lock s' = state_lock s \<and>
     (\<forall>h. acctkv s' (TxProcessedKey h) = acctkv s (TxProcessedKey h) \<and>
          mainkv s' (TxProcessedKey h) = mainkv s (TxProcessedKey h))"

lemma kept_tx_refl [simp, intro]: "kept_tx s s"
  by (simp add: kept_tx_def)

lemma kept_tx_trans: "kept_tx s s' \<Longrightarrow> kept_tx s' s'' \<Longrightarrow> kept_tx s s''"
  by (simp add: kept_tx_def)

lemma kept_tx_kept [intro]: "kept s s' \<Longrightarrow> kept_tx s s'"
  by (simp add: kept_tx_def kept_def)

lemma kept_tx_marker: "kept_tx s s' \<Longrightarrow> marker_applied s' (TxProcessedKey h) = marker_applied s (TxProcessedKey h)"
  by (simp add: kept_tx_def marker_applied_def split: option.split)

lemma advanceAppliedAnchor_wp:
  assumes "\<And>s'. kept_tx s s' \<Longrightarrow> Q () s'" "\<And>s'. kept_tx s s' \<Longrightarrow> P s'"
  shows "wp (advanceAppliedAnchor n) e Q P s"
proof -
  have k: "kept_tx s (s\<lparr>tick := m\<rparr>)" "kept_tx s (put_acct AppliedAnchorKey v (s\<lparr>tick := m\<rparr>))" for m v
    by (simp_all add: kept_tx_def put_acct_def)
  show ?thesis
    by (auto simp: advanceAppliedAnchor_def AdvanceAppliedAnchorContiguous_def advanceAnchor_def writeAnchorLocked_def
        wp_rules Let_def k assms split: option.split outcome.split prod.split)
qed

lemma finish_block_wp:
  assumes "\<And>s'. kept_tx s s' \<Longrightarrow> Q () s'"
  shows "wp (if succ = [] then ret () else bnd (WriteBlockProcessedMarker bh) (\<lambda>_. cleanup_all succ)) e Q P s"
proof -
  have k: "kept_tx s (s\<lparr>tick := m\<rparr>)" "kept_tx s (markerOp (BlockProcessedKey bh) v (s\<lparr>tick := m\<rparr>))" for m v
    by (simp_all add: kept_tx_def put_acct_def markerOp_def)
  have c: "wp (cleanup_all succ) e Q P s'" if "kept_tx s s'" for s'
    by (rule cleanup_all_wp) (use that assms in \<open>blast intro: kept_tx_trans\<close>)
  show ?thesis
    using c k assms by (simp add: WriteBlockProcessedMarker_def wp_rules)
qed

lemma take_snapshots_ticked:
  assumes "\<And>m' s'. ticked s s' \<Longrightarrow> Q m' s'"
  shows "wp (take_snapshots as m) e Q P s"
  using assms
proof (induction as arbitrary: m s)
  case (Cons a as)
  show ?case unfolding take_snapshots.simps wp_bnd wp_GetAccount
    by (rule Cons.IH) (use Cons.prems in simp)
qed (simp add: wp_rules)

lemma abort_block_error: "wp (abort_block snaps keys i h succ x) e (\<lambda>r _. isl r) (\<lambda>_. True) s"
  unfolding abort_block_def wp_bnd wp_attempt
  by (rule wp_top) (auto simp: wp_bnd [abs_def] wp_ret_fun wp_true split: sum.split intro!: wp_top)

definition sane_clock :: "env \<Rightarrow> bool" where
  "sane_clock e \<longleftrightarrow> (\<forall>n. 0 \<le> clock e n \<and> clock e n < 2 ^ 63)"

lemma tx_done_marks:
  assumes d: "tx_done exact e h spec s r s'" and c: "sane_clock e"
  shows "r = Inr () \<Longrightarrow> marker_applied s' (TxProcessedKey h)"
    and "marker_applied s (TxProcessedKey h') \<Longrightarrow> marker_applied s' (TxProcessedKey h')"
proof -
  have new: "markerValueApplied (big_String (clock e n))" for n
    using c markerValueApplied_String [of "clock e n"] unfolding sane_clock_def by (smt (verit))
  note main = tx_done_keeps(2) [OF d]
  show "r = Inr () \<Longrightarrow> marker_applied s' (TxProcessedKey h)"
    using d by (cases rule: tx_done_cases) (auto simp: marker_applied_def new main split: option.splits)
  show "marker_applied s (TxProcessedKey h') \<Longrightarrow> marker_applied s' (TxProcessedKey h')"
    using d by (cases rule: tx_done_cases) (auto simp: marker_applied_def new main split: option.splits)
qed

text \<open>
  An invariant of block execution: a property of the database that every finished
  transaction and every bookkeeping step keep. It then holds after every block that
  reports success, and all transactions of that block are marked.
\<close>

definition block_txs_ok :: "transaction list \<Rightarrow> bool" where
  "block_txs_ok txs \<longleftrightarrow> (\<forall>tx \<in> set txs. tx_From tx \<noteq> None \<and> tx_To tx \<noteq> None)"

lemma tx_accounts_ok: "tx_accounts txs = Some as \<Longrightarrow> block_txs_ok txs"
  by (induction txs arbitrary: as) (auto simp: block_txs_ok_def split: option.splits)

locale block_invariant =
  fixes Inv :: "db \<Rightarrow> bool" and e :: env
  assumes ready: "Inv s \<Longrightarrow> keyed (accounts s) \<and> \<not> state_lock s"
    and stable: "Inv s \<Longrightarrow> kept_tx s s' \<Longrightarrow> Inv s'"
    and step: "Inv s \<Longrightarrow> tx_done exact e h
        (\<lambda>okf okt. ledger_apply okf okt hexa tx f t coinbase zkvm recips ts carried (accounts s)) s r s' \<Longrightarrow> Inv s'"
    and clock_ok: "Inv s \<Longrightarrow> sane_clock e"
begin

abbreviation marked :: "db \<Rightarrow> transaction \<Rightarrow> bool" where
  "marked s tx \<equiv> marker_applied s (TxProcessedKey (Hash_Hex (tx_Hash tx)))"

lemma transaction_step:
  assumes "Inv s" "tx_From tx \<noteq> None" "tx_To tx \<noteq> None"
  shows "wp (processTransaction hexa tx coinbase zkvm recips ts carried) e
     (\<lambda>r s'. Inv s' \<and> (r = Inr () \<longrightarrow> marked s' tx) \<and>
        (\<forall>h. marker_applied s (TxProcessedKey h) \<longrightarrow> marker_applied s' (TxProcessedKey h))) (\<lambda>_. False) s"
proof -
  obtain f t where ft: "tx_From tx = Some f" "tx_To tx = Some t" using assms(2,3) by auto
  show ?thesis
  proof (rule wp_mono [OF processTransaction_wp [OF _ _ ft refl]])
    show "keyed (accounts s)" "\<not> state_lock s" using ready [OF assms(1)] by auto
  next
    fix r s' assume d: "tx_done (exact_run e recips) e (Hash_Hex (tx_Hash tx))
        (\<lambda>okf okt. ledger_apply okf okt hexa tx f t coinbase zkvm recips ts carried (accounts s)) s r s'"
    show "Inv s' \<and> (r = Inr () \<longrightarrow> marked s' tx) \<and>
        (\<forall>h. marker_applied s (TxProcessedKey h) \<longrightarrow> marker_applied s' (TxProcessedKey h))"
      using step [OF assms(1) d] tx_done_marks [OF d clock_ok [OF assms(1)]] by blast
  qed simp
qed

lemma loop_keeps:
  assumes "Inv s" "block_txs_ok txs" "\<forall>tx \<in> set txs. live (Hash_Hex (tx_Hash tx)) \<longrightarrow> marked s tx"
  shows "wp (process_loop (\<lambda>tx. processTransaction hexa tx coinbase zkvm recips ts carried) snaps keys live txs i seen succ) e
     (\<lambda>r s'. \<not> isl r \<longrightarrow> Inv s' \<and> (\<forall>h. marker_applied s (TxProcessedKey h) \<longrightarrow> marker_applied s' (TxProcessedKey h)) \<and>
        (\<forall>tx \<in> set txs. Hash_Hex (tx_Hash tx) \<in> set seen \<or> marked s' tx)) (\<lambda>_. True) s"
  using assms
proof (induction txs arbitrary: s i seen succ)
  case Nil
  then show ?case by (simp add: wp_ret)
next
  case (Cons tx txs)
  let ?h = "Hash_Hex (tx_Hash tx)"
  have ok: "block_txs_ok txs" "tx_From tx \<noteq> None" "tx_To tx \<noteq> None"
    using Cons.prems(2) by (auto simp: block_txs_ok_def)
  have rec: "wp (process_loop (\<lambda>tx. processTransaction hexa tx coinbase zkvm recips ts carried) snaps keys live txs i' seen' succ') e
     (\<lambda>r s'. \<not> isl r \<longrightarrow> Inv s' \<and> (\<forall>h. marker_applied s (TxProcessedKey h) \<longrightarrow> marker_applied s' (TxProcessedKey h)) \<and>
        (\<forall>tx \<in> set (tx # txs). Hash_Hex (tx_Hash tx) \<in> set seen \<or> marked s' tx)) (\<lambda>_. True) s1"
    if "Inv s1" and mono: "\<forall>h. marker_applied s (TxProcessedKey h) \<longrightarrow> marker_applied s1 (TxProcessedKey h)"
      and "set seen' \<subseteq> insert ?h (set seen)" and here: "?h \<in> set seen \<or> marked s1 tx" for s1 i' seen' succ'
  proof (rule wp_mono [OF Cons.IH [OF that(1) ok(1)]])
    show "\<forall>tx \<in> set txs. live (Hash_Hex (tx_Hash tx)) \<longrightarrow> marked s1 tx"
      using Cons.prems(3) mono by auto
  qed (use that in fastforce)+
  consider (dup) "?h \<in> set seen" | (live) "?h \<notin> set seen" "live ?h" | (run) "?h \<notin> set seen" "\<not> live ?h"
    by blast
  then show ?case
  proof cases
    case dup
    with rec [of s seen] Cons.prems(1) show ?thesis by (auto simp: Let_def)
  next
    case live
    with rec [of s "?h # seen"] Cons.prems(1,3) show ?thesis by (auto simp: Let_def)
  next
    case run
    then have unf: "process_loop proc snaps keys live (tx # txs) i seen succ =
        attempt (proc tx) (\<lambda>x. abort_block snaps keys i ?h succ x)
          (\<lambda>_. process_loop proc snaps keys live txs (Suc i) (?h # seen) (succ @ [?h]))" for proc
      by (simp add: Let_def)
    show ?thesis unfolding unf wp_attempt
    proof (rule wp_mono [OF transaction_step [OF Cons.prems(1) ok(2,3)]], goal_cases)
      case (1 r s1)
      show ?case
      proof (cases r)
        case (Inl x)
        show ?thesis unfolding Inl sum.case by (rule wp_mono [OF abort_block_error]) auto
      next
        case (Inr u)
        with 1 show ?thesis unfolding Inr sum.case by (intro rec) auto
      qed
    qed simp
  qed
qed

lemma block_keeps:
  assumes inv: "Inv s"
  shows "wp (ProcessBlockTransactions hexa ord block) e
     (\<lambda>r s'. r = Inr () \<longrightarrow> Inv s' \<and>
        (marker_applied s (BlockProcessedKey (Hash_Hex (b_BlockHash block))) \<or> (\<forall>tx \<in> set (b_Transactions block). marked s' tx)))
     (\<lambda>_. True) s"
proof -
  let ?bm = "marker_applied s (BlockProcessedKey (Hash_Hex (b_BlockHash block)))"
  let ?Q = "\<lambda>r s'. r = Inr () \<longrightarrow> Inv s' \<and> (?bm \<or> (\<forall>tx \<in> set (b_Transactions block). marked s' tx))"
  have anchor: "wp (bnd (advanceAppliedAnchor n) (\<lambda>_. ret (Inr ()))) e ?Q (\<lambda>_. True) s1"
    if "Inv s1" "?bm \<or> (\<forall>tx \<in> set (b_Transactions block). marked s1 tx)" for s1 n
    unfolding wp_bnd by (rule advanceAppliedAnchor_wp) (use that in \<open>auto simp: wp_ret kept_tx_marker intro: stable\<close>)
  have exec: "wp (execute_block hexa ord block coinbase zkvm affected) e ?Q (\<lambda>_. True) s1"
    if s1: "Inv s1" and ok: "block_txs_ok (b_Transactions block)" for coinbase zkvm affected s1
    unfolding execute_block_def finish_block_def Let_def wp_bnd [of "take_snapshots _ _"]
  proof (rule take_snapshots_ticked, unfold wp_attempt [of "FilterProcessedTxMarkers _"], rule FilterProcessedTxMarkers_wp, goal_cases)
    case (1 m s2 live s3)
    then have s3: "kept_tx s1 s3" by (blast intro: ticked_trans)
    have "\<forall>tx \<in> set (b_Transactions block). live (Hash_Hex (tx_Hash tx)) \<longrightarrow> marked s3 tx"
      using 1 kept_tx_marker [of s2 s3] by auto
    note loop = loop_keeps [OF stable [OF s1 s3] ok this]
    show ?case unfolding sum.case wp_attempt
    proof (rule wp_mono [OF loop], goal_cases)
      case (1 r s4)
      show ?case
      proof (cases r)
        case (Inr succ)
        with 1 have s4: "Inv s4" "\<forall>tx \<in> set (b_Transactions block). marked s4 tx" by auto
        show ?thesis unfolding Inr sum.case wp_bnd [of "if _ then _ else _"]
          by (rule finish_block_wp, rule anchor) (use s4 in \<open>auto simp: kept_tx_marker intro: stable\<close>)
      qed (simp add: wp_ret)
    qed simp
  qed (simp add: wp_ret)
  have body: "wp (collect_and_execute hexa ord block) e ?Q (\<lambda>_. True) s1" if "Inv s1" for s1
    using that unfolding collect_and_execute_def
    by (auto simp: wp_panic split: option.split intro!: exec dest: tx_accounts_ok)
  have rest: "wp (bnd (bump_ordinal_floor n) (\<lambda>_. collect_and_execute hexa ord block)) e ?Q (\<lambda>_. True) s1"
    if "ticked s s1" for n s1
    unfolding wp_bnd
    by (rule bump_ordinal_floor_wp, rule body, rule stable [OF inv]) (use that in \<open>blast intro: kept_trans\<close>)
  show ?thesis
    unfolding ProcessBlockTransactions_def wp_bnd [of "IsMarkerApplied _"]
  proof (rule IsMarkerApplied_wp, goal_cases)
    case (1 s1)
    show ?case
    proof (cases "Inr ?bm = (Inr True :: err + bool)")
      case True
      show ?thesis unfolding if_P [OF True] by (rule anchor) (use True 1 in \<open>auto intro: stable [OF inv]\<close>)
    next
      case False
      show ?thesis unfolding if_not_P [OF False] by (rule rest [OF 1])
    qed
  next
    case (2 s1)
    have "(Inl EDb = (Inr True :: err + bool)) = False" by simp
    then show ?case unfolding if_False by (simp only: if_False rest [OF 2(1)])
  qed
qed

end

text \<open>Conservation of the supply is such an invariant.\<close>

definition conserving :: "int \<Rightarrow> bool \<Rightarrow> env \<Rightarrow> db \<Rightarrow> bool" where
  "conserving total_wei solv e s \<longleftrightarrow> sane_clock e \<and> keyed (accounts s) \<and> \<not> state_lock s \<and> finite (dom (accounts s)) \<and>
     total_supply (accounts s) = total_wei \<and> (solv \<longrightarrow> solvent (accounts s))"

lemma conserving_step:
  assumes "conserving w solv e s" and d: "tx_done exact e h
        (\<lambda>okf okt. ledger_apply okf okt hexa tx f t coinbase zkvm recips ts carried (accounts s)) s r s'"
  shows "conserving w solv e s'"
  using d
proof (cases rule: tx_done_cases)
  case same
  with assms(1) tx_done_keeps(1) [OF d] show ?thesis by (simp add: conserving_def)
next
  case (moved okf okt n)
  note step = ledger_apply_transfer [OF moved(1)]
  show ?thesis
    using assms(1) tx_done_keeps(1) [OF d] ledger_transfer_effect(4,5) [OF step]
      ledger_transfer_supply [OF step] ledger_transfer_solvent [OF step]
    by (auto simp: conserving_def)
qed

interpretation conserve: block_invariant "conserving w solv e" e for w solv e
proof (unfold_locales, goal_cases)
  case (3 s exact h hexa tx f t coinbase zkvm recips ts carried r s')
  then show ?case by (rule conserving_step)
qed (auto simp: conserving_def kept_tx_def)

subsection \<open>A marked block runs to no effect\<close>

lemma loop_all_live:
  assumes "\<forall>tx \<in> set txs. live (Hash_Hex (tx_Hash tx))"
  shows "process_loop proc snaps keys live txs i seen succ = ret (Inr succ)"
  using assms by (induction txs arbitrary: i seen) (auto simp: Let_def)

lemma marked_block_wp:
  assumes m: "\<forall>tx \<in> set (b_Transactions block). marker_applied s (TxProcessedKey (Hash_Hex (tx_Hash tx)))"
  shows "wp (ProcessBlockTransactions hexa ord block) e (\<lambda>_ s'. kept_tx s s') (kept_tx s) s"
proof -
  have anchor: "wp (bnd (advanceAppliedAnchor n) (\<lambda>_. ret (Inr ()))) e (\<lambda>_ s'. kept_tx s s') (kept_tx s) s1"
    if "kept_tx s s1" for s1 n
    unfolding wp_bnd by (rule advanceAppliedAnchor_wp) (use that in \<open>auto simp: wp_ret intro: kept_tx_trans\<close>)
  have exec: "wp (execute_block hexa ord block coinbase zkvm affected) e (\<lambda>_ s'. kept_tx s s') (kept_tx s) s1"
    if s1: "kept_tx s s1" for coinbase zkvm affected s1
    unfolding execute_block_def finish_block_def Let_def wp_bnd [of "take_snapshots _ _"]
  proof (rule take_snapshots_ticked, unfold wp_attempt [of "FilterProcessedTxMarkers _"], rule FilterProcessedTxMarkers_wp, goal_cases)
    case (1 m' s2 live s3)
    have "kept_tx s1 s2" using 1(1) by blast
    with 1(3) have "\<forall>tx \<in> set (b_Transactions block). live (Hash_Hex (tx_Hash tx))"
      using m kept_tx_marker [OF s1] kept_tx_marker [of s1 s2] by auto
    note loop = loop_all_live [OF this]
    have "kept_tx s s3" using 1 s1 by (blast intro: kept_tx_trans ticked_trans)
    then show ?case by (simp add: loop wp_attempt wp_ret wp_bnd [of "ret _"] anchor)
  next
    case (2 m' s2 s3)
    then have "kept_tx s s3" using s1 by (blast intro: kept_tx_trans ticked_trans)
    then show ?case by (simp add: wp_ret)
  qed
  have rest: "wp (bnd (bump_ordinal_floor n) (\<lambda>_. collect_and_execute hexa ord block)) e (\<lambda>_ s'. kept_tx s s') (kept_tx s) s1"
    if "ticked s s1" for n s1
    unfolding wp_bnd collect_and_execute_def
    by (rule bump_ordinal_floor_wp)
       (use that in \<open>auto simp: wp_panic split: option.split intro!: exec intro: kept_trans\<close>)
  show ?thesis
    unfolding ProcessBlockTransactions_def wp_bnd [of "IsMarkerApplied _"]
    by (rule IsMarkerApplied_wp) (auto intro!: rest anchor)
qed

end
