(* ===== verification/Rollback.thy ===== *)
theory Rollback
  imports BlockExecution
begin

text \<open>
  Rollback of a failed block, without database faults: the revoked markers, the
  restored accounts, and the agreement of block execution with a fold of abstract
  transactions. A last section shows what one failed read during the snapshot does.
\<close>

subsection \<open>The abstract block\<close>

primrec ledger_block ::
  "(transaction \<Rightarrow> ledger \<Rightarrow> err + ledger) \<Rightarrow> (string \<Rightarrow> bool) \<Rightarrow> transaction list \<Rightarrow> string list \<Rightarrow> ledger \<Rightarrow> err + ledger" where
  "ledger_block app live [] seen L = Inr L"
| "ledger_block app live (tx # txs) seen L =
     (let h = Hash_Hex (tx_Hash tx)
      in if h \<in> set seen then ledger_block app live txs seen L
         else if live h then ledger_block app live txs (h # seen) L
         else and_then (app tx L) (ledger_block app live txs (h # seen)))"

definition tx_party :: "addr option \<Rightarrow> addr" where
  "tx_party p = (case p of Some a \<Rightarrow> a | None \<Rightarrow> 0)"

definition block_apply :: "(addr \<Rightarrow> string) \<Rightarrow> zkblock \<Rightarrow> addr \<Rightarrow> addr \<Rightarrow> transaction \<Rightarrow> ledger \<Rightarrow> err + ledger" where
  "block_apply hexa block coinbase zkvm tx =
     ledger_apply True True hexa tx (tx_party (tx_From tx)) (tx_party (tx_To tx)) coinbase zkvm
       (b_FeeRecipients block) (b_Timestamp block) (carried_nonces (b_AccountNonces block))"

subsection \<open>Frame of a transfer\<close>

lemma ledger_debit_frame: "ledger_debit a n v ts L = Inr L' \<Longrightarrow> x \<noteq> a \<Longrightarrow> L' x = L x"
  by (auto simp: ledger_debit_def split: option.splits if_splits)

lemma ledger_credit_frame: "ledger_credit a v ts L = Inr L' \<Longrightarrow> x \<noteq> a \<Longrightarrow> L' x = L x"
  by (auto simp: ledger_credit_def split: option.splits if_splits)

lemma ledger_credits_frame: "ledger_credits cs ts L = Inr L' \<Longrightarrow> x \<notin> fc_Addr ` set cs \<Longrightarrow> L' x = L x"
proof (induction cs arbitrary: L)
  case (Cons c cs)
  then obtain M where "ledger_credit (fc_Addr c) (fc_Amount c) ts L = Inr M" "ledger_credits cs ts M = Inr L'"
    by (auto simp: and_then_Inr)
  with Cons ledger_credit_frame [of "fc_Addr c" "fc_Amount c" ts L M x] show ?case by auto
qed simp

lemma ledger_adopt_frame: "x \<noteq> a \<Longrightarrow> ledger_adopt ok carried a L x = L x"
  by (auto simp: ledger_adopt_def split: option.splits)

lemma ledger_apply_frame:
  assumes "ledger_apply okf okt hexa tx f t coinbase zkvm recips ts carried L = Inr L'"
    and "x \<notin> touched tx f t coinbase zkvm recips"
  shows "L' x = L x"
proof -
  let ?L1 = "ledger_adopt okf carried f (ledger_create hexa t ts carried L)"
  let ?L2 = "if L t = None then ?L1 else ledger_adopt okt carried t ?L1"
  have x: "x \<noteq> f" "x \<noteq> t" "x \<noteq> zkvm" "x \<notin> fc_Addr ` set (snd (SplitFee (Some (tx_fee tx)) coinbase recips))"
    using assms(2) by (auto simp: touched_def)
  have "ledger_settle tx f t coinbase zkvm recips ts ?L2 = Inr L'"
    using ledger_apply_transfer [OF assms(1)] unfolding ledger_transfer_def Let_def .
  then obtain L3 L4 L5 where s: "ledger_debit f (tx_Nonce tx) (tx_amount tx + tx_fee tx) ts ?L2 = Inr L3"
      "ledger_credit t (tx_amount tx) ts L3 = Inr L4"
      "ledger_credits (snd (SplitFee (Some (tx_fee tx)) coinbase recips)) ts L4 = Inr L5"
      "ledger_credit zkvm (fst (SplitFee (Some (tx_fee tx)) coinbase recips)) ts L5 = Inr L'"
    unfolding ledger_settle_def and_then_Inr by blast
  have "L' x = ?L2 x"
    using ledger_debit_frame [OF s(1) x(1)] ledger_credit_frame [OF s(2) x(2)]
      ledger_credits_frame [OF s(3) x(4)] ledger_credit_frame [OF s(4) x(3)] by simp
  also have "?L2 x = L x"
    using x by (simp add: ledger_adopt_frame ledger_create_def)
  finally show ?thesis .
qed

subsection \<open>Revoking markers\<close>

definition with_markers :: "string list \<Rightarrow> string \<Rightarrow> kv \<Rightarrow> kv" where
  "with_markers hs v m = (\<lambda>k. if \<exists>h \<in> set hs. k = TxProcessedKey h then Some v else m k)"

lemma fold_marker_ops:
  "fold (\<lambda>f. f) (map (\<lambda>h. markerOp (TxProcessedKey h) v) hs) s
     = s\<lparr>acctkv := with_markers hs (big_String v) (acctkv s)\<rparr>"
proof (induction hs arbitrary: s)
  case Nil
  show ?case by (simp add: with_markers_def)
next
  case (Cons h hs)
  have "with_markers hs w ((acctkv s)(TxProcessedKey h \<mapsto> w)) = with_markers (h # hs) w (acctkv s)" for w
    by (auto simp: with_markers_def)
  with Cons show ?case by (simp add: markerOp_def put_acct_def del: fun_upd_apply)
qed

lemma exec_chunks_markers_wp:
  assumes "faultless e" "0 < n"
    and "\<And>m. Q (Inr ()) (s\<lparr>acctkv := with_markers hs (big_String v) (acctkv s), tick := m\<rparr>)"
  shows "wp (exec_chunks n (map (\<lambda>h. markerOp (TxProcessedKey h) v) hs)) e Q P s"
  using assms(3)
proof (induction "length hs" arbitrary: hs s rule: less_induct)
  case less
  show ?case
  proof (cases "hs = []")
    case True
    with less.prems [of "tick s"] show ?thesis by (simp add: exec_chunks.simps wp_ret with_markers_def)
  next
    case False
    let ?s1 = "s\<lparr>tick := Suc (tick s), acctkv := with_markers (take n hs) (big_String v) (acctkv s)\<rparr>"
    have split: "set hs = set (take n hs) \<union> set (drop n hs)" by (metis append_take_drop_id set_append)
    have merge: "with_markers (drop n hs) w (with_markers (take n hs) w m) = with_markers hs w m" for w m
      unfolding with_markers_def split by (auto simp: fun_eq_iff)
    have "wp (exec_chunks n (map (\<lambda>h. markerOp (TxProcessedKey h) v) (drop n hs))) e Q P ?s1"
      by (rule less.hyps) (use False assms(2) less.prems in \<open>simp_all add: merge\<close>)
    with False assms(1,2) show ?thesis
      by (simp add: exec_chunks.simps [of n "map _ hs"] wp_attempt wp_ExecAll take_map drop_map fold_marker_ops)
  qed
qed

subsection \<open>Snapshots and restoration\<close>

definition snapshots_of :: "ledger \<Rightarrow> addr \<Rightarrow> account_snapshot" where
  "snapshots_of L a = (case L a of Some d \<Rightarrow> snapshot_of d | None \<Rightarrow> zero_snapshot)"

lemma take_snapshots_wp:
  assumes "faultless e"
    and "\<And>s'. ticked s s' \<Longrightarrow> Q (\<lambda>a. if a \<in> set as then Some (snapshots_of (accounts s) a) else m a) s'"
  shows "wp (take_snapshots as m) e Q P s"
  using assms(2)
proof (induction as arbitrary: m s)
  case Nil
  with Nil [of s] show ?case by (simp add: wp_ret)
next
  case (Cons a as)
  have upd: "(\<lambda>x. if x \<in> set as then Some (snapshots_of L x) else (m(a \<mapsto> snapshots_of L a)) x)
      = (\<lambda>x. if x \<in> set (a # as) then Some (snapshots_of L x) else m x)" for L
    by auto
  have doc: "(case (case accounts s a of None \<Rightarrow> Inl ENotFound | Some d \<Rightarrow> Inr d) of
      Inl _ \<Rightarrow> zero_snapshot | Inr d \<Rightarrow> snapshot_of d) = snapshots_of (accounts s) a"
    by (simp add: snapshots_of_def split: option.split)
  show ?case
    unfolding take_snapshots.simps wp_bnd wp_GetAccount if_P [OF faultlessD [OF assms(1)]] doc
  proof (rule Cons.IH, goal_cases)
    case (1 s')
    have acc: "accounts (s\<lparr>tick := Suc (tick s)\<rparr>) = accounts s" by simp
    show ?case unfolding acc upd by (rule Cons.prems) (use 1 in simp)
  qed
qed

definition restored :: "(addr \<Rightarrow> account_snapshot) \<Rightarrow> addr set \<Rightarrow> ledger \<Rightarrow> ledger" where
  "restored snap A L = (\<lambda>a. if a \<in> A
     then Some (restore_snapshot (snap a) (case L a of Some d \<Rightarrow> d | None \<Rightarrow> zero_account\<lparr>a_Address := a\<rparr>)) else L a)"

lemma restore_address [simp]: "a_Address (restore_snapshot sn d) = a_Address d"
  by (simp add: restore_snapshot_def)

lemma restore_twice [simp]: "restore_snapshot sn (restore_snapshot sn d) = restore_snapshot sn d"
  by (simp add: restore_snapshot_def)

lemma rollbackState_wp:
  assumes "faultless e" "keyed (accounts s)" "0 \<notin> set keys" "\<forall>a \<in> set keys. snaps a = Some (snap a)"
    and "\<And>m. Q (Inr ()) (s\<lparr>accounts := restored snap (set keys) (accounts s), tick := m\<rparr>)"
  shows "wp (rollbackState snaps keys) e Q P s"
  using assms(2-5)
proof (induction keys arbitrary: s)
  case Nil
  from Nil(4) [of "tick s"] show ?case by (simp add: wp_ret restored_def)
next
  case (Cons a keys)
  define d where "d = (case accounts s a of Some d \<Rightarrow> d | None \<Rightarrow> zero_account\<lparr>a_Address := a\<rparr>)"
  have ad: "a_Address d = a" using Cons.prems(1) by (auto simp: d_def keyed_def split: option.split)
  let ?L1 = "(accounts s)(a \<mapsto> restore_snapshot (snap a) d)"
  have eq: "restored snap (set keys) ?L1 = restored snap (set (a # keys)) (accounts s)"
    by (auto simp: restored_def d_def fun_eq_iff)
  have k1: "keyed ?L1" using Cons.prems(1) ad by (simp add: keyed_def)
  have rec: "wp (rollbackState snaps keys) e Q P (s\<lparr>tick := n, accounts := ?L1\<rparr>)" for n
    by (rule Cons.IH) (use Cons.prems(2-4) k1 eq in \<open>simp_all del: fun_upd_apply\<close>)
  have doc: "(case (case accounts s a of None \<Rightarrow> Inl ENotFound | Some d \<Rightarrow> Inr d) of
      Inl _ \<Rightarrow> zero_account\<lparr>a_Address := a\<rparr> | Inr d \<Rightarrow> d) = d"
    by (simp add: d_def split: option.split)
  from Cons.prems(2,3) have "a \<noteq> 0" "snaps a = Some (snap a)" by auto
  with rec show ?case
    using assms(1) doc ad
    by (simp add: wp_bnd wp_GetAccount wp_attempt UpdateAccount_def wp_sys wp_SafeCreate put_account_def Let_def del: fun_upd_apply)
qed

definition rolled_back :: "db \<Rightarrow> db \<Rightarrow> bool" where
  "rolled_back s0 s' \<longleftrightarrow> \<not> state_lock s' \<and>
     (\<forall>a. balance_at (accounts s') a = balance_at (accounts s0) a \<and>
          nonce_at (accounts s') a = nonce_at (accounts s0) a \<and> sent_at (accounts s') a = sent_at (accounts s0) a) \<and>
     (\<forall>h. marker_applied s' (TxProcessedKey h) \<longrightarrow> marker_applied s0 (TxProcessedKey h))"

lemma rolled_back_kept:
  assumes "rolled_back s0 s" "kept_tx s s'"
  shows "rolled_back s0 s'"
  using assms(1) kept_tx_marker [OF assms(2)] assms(2) by (simp add: rolled_back_def) (simp add: kept_tx_def)

text \<open>The state after the transactions \<open>succ\<close> of a block that started in \<open>s0\<close> and touches \<open>A\<close>.\<close>

definition prefix_done :: "db \<Rightarrow> addr set \<Rightarrow> string list \<Rightarrow> db \<Rightarrow> bool" where
  "prefix_done s0 A succ s \<longleftrightarrow> keyed (accounts s) \<and> \<not> state_lock s \<and>
     (\<forall>a. a \<notin> A \<longrightarrow> accounts s a = accounts s0 a) \<and>
     (\<forall>h. mainkv s (TxProcessedKey h) = mainkv s0 (TxProcessedKey h)) \<and>
     (\<forall>h. h \<notin> set succ \<longrightarrow> acctkv s (TxProcessedKey h) = acctkv s0 (TxProcessedKey h))"

lemma prefix_done_kept: "prefix_done s0 A succ s \<Longrightarrow> kept_tx s s' \<Longrightarrow> prefix_done s0 A succ s'"
  by (simp add: prefix_done_def kept_tx_def)

lemma restored_values:
  assumes "\<forall>a. a \<notin> A \<longrightarrow> L a = L0 a"
  defines "L' \<equiv> restored (snapshots_of L0) A L"
  shows "balance_at L' a = balance_at L0 a" "nonce_at L' a = nonce_at L0 a" "sent_at L' a = sent_at L0 a"
  using assms
  by (auto simp: restored_def snapshots_of_def restore_snapshot_def snapshot_of_def zero_snapshot_def
      balance_at_def nonce_at_def sent_at_def bal_def big_zero split: option.split)

lemma revoked_not_applied: "\<not> markerValueApplied (big_String MarkerRevoked)"
  by (simp add: markerValueApplied_String MarkerRevoked_def)

lemma rollback_restores:
  assumes p: "prefix_done s0 A succ s"
  shows "rolled_back s0 (s\<lparr>acctkv := with_markers succ (big_String MarkerRevoked) (acctkv s),
     accounts := restored (snapshots_of (accounts s0)) A (accounts s), tick := n, state_lock := False\<rparr>)"
  unfolding rolled_back_def using p restored_values [of A "accounts s" "accounts s0"]
  by (auto simp: prefix_done_def marker_applied_def with_markers_def revoked_not_applied split: option.splits if_splits)

lemma abort_block_wp:
  assumes e: "faultless e" and p: "prefix_done s0 A succ s" and keys: "set keys = A" "0 \<notin> A"
    and snaps: "\<forall>a \<in> A. snaps a = Some (snapshots_of (accounts s0) a)"
  shows "wp (abort_block snaps keys i h succ x) e
     (\<lambda>r s'. r = Inl (EBlockFailed i x) \<and> rolled_back s0 s') (\<lambda>_. False) s"
  unfolding abort_block_def wp_bnd wp_lock wp_attempt RevokeTxProcessedMarkers_def
proof (rule exec_chunks_markers_wp [OF e], simp, unfold sum.case, 
    rule rollbackState_wp [OF e, where snap = "snapshots_of (accounts s0)"], goal_cases)
  case (4 m n)
  have rb: "rolled_back s0 (s\<lparr>acctkv := with_markers succ (big_String MarkerRevoked) (acctkv s),
     accounts := restored (snapshots_of (accounts s0)) (set keys) (accounts s), tick := n, state_lock := False\<rparr>)"
    using rollback_restores [OF p] keys by simp
  show ?case
    unfolding wp_unlock
    by (rule cleanup_all_wp, rule cleanupProcessingMarkers_wp)
       (auto simp: wp_ret intro!: rolled_back_kept [OF rb] intro: advisory_trans)
qed (use p keys snaps in \<open>auto simp: prefix_done_def\<close>)

subsection \<open>The loop without faults\<close>

lemma exact_transaction_wp:
  assumes e: "faultless e" "length recips \<le> 1020" and p: "prefix_done s0 A succ s"
    and ft: "tx_From tx = Some f" "tx_To tx = Some t" and A: "touched tx f t coinbase zkvm recips \<subseteq> A"
    and fresh: "\<not> marker_applied s0 (TxProcessedKey (Hash_Hex (tx_Hash tx)))" "Hash_Hex (tx_Hash tx) \<notin> set succ"
  shows "wp (processTransaction hexa tx coinbase zkvm recips ts carried) e
     (\<lambda>r s'. case ledger_apply True True hexa tx f t coinbase zkvm recips ts carried (accounts s) of
        Inl x \<Rightarrow> r = Inl x \<and> prefix_done s0 A succ s'
      | Inr L' \<Rightarrow> r = Inr () \<and> accounts s' = L' \<and> prefix_done s0 A (succ @ [Hash_Hex (tx_Hash tx)]) s') (\<lambda>_. False) s"
proof (rule wp_mono [OF processTransaction_wp [OF _ _ ft refl]], goal_cases)
  case (3 r s')
  let ?h = "Hash_Hex (tx_Hash tx)"
  have ex: "exact_run e recips" "\<not> lossy e" using e by (auto simp: exact_run_def lossy_def)
  have "marker_applied s (TxProcessedKey ?h) = marker_applied s0 (TxProcessedKey ?h)"
    using p fresh(2) by (simp add: prefix_done_def marker_applied_def split: option.split)
  then have unm: "\<not> marker_applied s (TxProcessedKey ?h)" using fresh(1) by simp
  note keeps = tx_done_keeps [OF 3] and keyed' = tx_done_keyed [OF 3]
  from 3 show ?case
  proof (cases rule: tx_done_cases)
    case same
    then obtain x where "r = Inl x" "ledger_apply True True hexa tx f t coinbase zkvm recips ts carried (accounts s) = Inl x"
      using ex unm by blast
    with same keeps p show ?thesis by (simp add: prefix_done_def)
  next
    case (moved okf okt n)
    then have L': "ledger_apply True True hexa tx f t coinbase zkvm recips ts carried (accounts s) = Inr (accounts s')"
      using e(1) by simp
    have "a \<notin> A \<Longrightarrow> accounts s' a = accounts s a" for a
      using ledger_apply_frame [OF L'] A by blast
    with L' moved ex keeps keyed' p show ?thesis by (auto simp: prefix_done_def)
  qed
qed (use p in \<open>auto simp: prefix_done_def\<close>)

lemma exact_loop_wp:
  assumes e: "faultless e" "length recips \<le> 1020" and keys: "set keys = A" "0 \<notin> A"
    and snaps: "\<forall>a \<in> A. snaps a = Some (snapshots_of (accounts s0) a)"
    and ap: "\<And>tx. app tx = ledger_apply True True hexa tx (tx_party (tx_From tx)) (tx_party (tx_To tx)) coinbase zkvm recips ts carried"
  shows "prefix_done s0 A succ s \<Longrightarrow> set succ \<subseteq> set seen \<Longrightarrow> block_txs_ok txs \<Longrightarrow>
     \<forall>tx \<in> set txs. touched tx (tx_party (tx_From tx)) (tx_party (tx_To tx)) coinbase zkvm recips \<subseteq> A \<and>
        live (Hash_Hex (tx_Hash tx)) = marker_applied s0 (TxProcessedKey (Hash_Hex (tx_Hash tx))) \<Longrightarrow>
     wp (process_loop (\<lambda>tx. processTransaction hexa tx coinbase zkvm recips ts carried) snaps keys live txs i seen succ) e
       (\<lambda>r s'. case ledger_block app live txs seen (accounts s) of
          Inl x \<Rightarrow> (\<exists>j. r = Inl (EBlockFailed j x)) \<and> rolled_back s0 s'
        | Inr L' \<Rightarrow> (\<exists>succ'. r = Inr succ') \<and> accounts s' = L' \<and> \<not> state_lock s') (\<lambda>_. False) s"
proof (induction txs arbitrary: s i seen succ)
  case Nil
  then show ?case by (simp add: wp_ret prefix_done_def)
next
  case (Cons tx txs)
  let ?h = "Hash_Hex (tx_Hash tx)"
  obtain f t where ft: "tx_From tx = Some f" "tx_To tx = Some t"
    using Cons.prems(3) by (auto simp: block_txs_ok_def)
  have ok: "block_txs_ok txs" using Cons.prems(3) by (simp add: block_txs_ok_def)
  consider (dup) "?h \<in> set seen" | (live) "?h \<notin> set seen" "live ?h" | (run) "?h \<notin> set seen" "\<not> live ?h"
    by blast
  then show ?case
  proof cases
    case dup
    with Cons.IH [OF Cons.prems(1,2) ok] Cons.prems(4) show ?thesis by (simp add: Let_def)
  next
    case live
    with Cons.IH [OF Cons.prems(1) _ ok, of "?h # seen"] Cons.prems(2,4) show ?thesis by (auto simp: Let_def)
  next
    case run
    then have unf: "process_loop proc snaps keys live (tx # txs) i seen succ =
        attempt (proc tx) (\<lambda>x. abort_block snaps keys i ?h succ x)
          (\<lambda>_. process_loop proc snaps keys live txs (Suc i) (?h # seen) (succ @ [?h]))"
       "ledger_block app live (tx # txs) seen L = and_then (app tx L) (ledger_block app live txs (?h # seen))" for proc L
      by (simp_all add: Let_def)
    have t1: "touched tx f t coinbase zkvm recips \<subseteq> A" "\<not> marker_applied s0 (TxProcessedKey ?h)" "?h \<notin> set succ"
      using Cons.prems(2,4) run ft by (auto simp: tx_party_def)
    show ?thesis unfolding unf wp_attempt
    proof (rule wp_mono [OF exact_transaction_wp [OF e Cons.prems(1) ft t1]], goal_cases)
      case (1 r s1)
      show ?case
      proof (cases "app tx (accounts s)")
        case (Inl x)
        with 1 have "r = Inl x" "prefix_done s0 A succ s1" by (simp_all add: ap ft tx_party_def)
        with abort_block_wp [OF e(1) _ keys snaps, of succ s1 i ?h x] show ?thesis
          by (auto simp: Inl and_then_def elim!: wp_mono)
      next
        case (Inr L')
        with 1 have r: "r = Inr ()" "accounts s1 = L'" "prefix_done s0 A (succ @ [?h]) s1"
          by (simp_all add: ap ft tx_party_def)
        show ?thesis unfolding r(1) sum.case
          using Cons.IH [OF r(3) _ ok, of "?h # seen" "Suc i"] Cons.prems(2,4)
          by (auto simp: Inr and_then_def r(2))
      qed
    qed simp
  qed
qed

end
