(* ===== verification/BlockProps.thy ===== *)
theory BlockProps
  imports Rollback
begin

text \<open>What the execution of a block guarantees.\<close>

subsection \<open>The whole block without faults\<close>

lemma ledger_block_cong:
  "\<forall>tx \<in> set txs. live (Hash_Hex (tx_Hash tx)) = live' (Hash_Hex (tx_Hash tx)) \<Longrightarrow>
     ledger_block app live txs seen L = ledger_block app live' txs seen L"
  by (induction txs arbitrary: seen L)
     (auto simp: Let_def and_then_def split: sum.split)

lemma split_addresses: "fc_Addr ` set (snd (SplitFee g coinbase recips)) \<subseteq> insert coinbase (fr_Addr ` set recips)"
proof -
  have d: "c \<in> set (distribute share w rs) \<Longrightarrow> fc_Addr c \<in> fr_Addr ` set rs" for share w rs c
    by (induction rs) (auto split: if_splits)
  have "fc_Addr ` set (add_remainder rem cs) = fc_Addr ` set cs" for rem cs
    by (cases cs) (simp_all add: add_remainder_def)
  then show ?thesis
    using d [of _ _ _ "sort_key fr_Addr recips"] by (auto simp: SplitFee_def split_ordered_def Let_def)
qed

lemma tx_accounts_parties:
  "tx_accounts txs = Some as \<Longrightarrow> tx \<in> set txs \<Longrightarrow> tx_party (tx_From tx) \<in> set as \<and> tx_party (tx_To tx) \<in> set as"
  by (induction txs arbitrary: as) (auto simp: tx_party_def split: option.splits)

lemma advanceAppliedAnchor_calm_wp:
  assumes "faultless e" "\<And>s'. kept_tx s s' \<Longrightarrow> Q () s'"
  shows "wp (advanceAppliedAnchor n) e Q P s"
proof -
  have k: "kept_tx s (s\<lparr>tick := m\<rparr>)" "kept_tx s (put_acct AppliedAnchorKey v (s\<lparr>tick := m\<rparr>))" for m v
    by (simp_all add: kept_tx_def put_acct_def)
  show ?thesis
    by (auto simp: advanceAppliedAnchor_def AdvanceAppliedAnchorContiguous_def advanceAnchor_def writeAnchorLocked_def
        wp_rules Let_def k assms split: option.split prod.split)
qed

text \<open>
  A well-formed input: parties and fee addresses are present, the fee recipients are
  among the accounts the block snapshots, and none of them is the zero address.
\<close>

definition block_accounts :: "zkblock \<Rightarrow> addr set" where
  "block_accounts block = {a. \<exists>as coinbase zkvm. tx_accounts (b_Transactions block) = Some as \<and>
     b_CoinbaseAddr block = Some coinbase \<and> b_ZKVMAddr block = Some zkvm \<and> a \<in> set as \<union> {coinbase, zkvm}}"

definition block_ok :: "zkblock \<Rightarrow> bool" where
  "block_ok block \<longleftrightarrow> tx_accounts (b_Transactions block) \<noteq> None \<and> b_CoinbaseAddr block \<noteq> None \<and> b_ZKVMAddr block \<noteq> None \<and>
     length (b_FeeRecipients block) \<le> 1020 \<and> fr_Addr ` set (b_FeeRecipients block) \<subseteq> block_accounts block \<and>
     0 \<notin> block_accounts block"

definition map_order :: "(nat \<Rightarrow> addr list \<Rightarrow> addr list) \<Rightarrow> bool" where
  "map_order ord \<longleftrightarrow> (\<forall>n as. set (ord n as) = set as)"

definition ledger_of_block :: "(addr \<Rightarrow> string) \<Rightarrow> zkblock \<Rightarrow> (string \<Rightarrow> bool) \<Rightarrow> ledger \<Rightarrow> err + ledger" where
  "ledger_of_block hexa block live L =
     ledger_block (block_apply hexa block (tx_party (b_CoinbaseAddr block)) (tx_party (b_ZKVMAddr block))) live
       (b_Transactions block) [] L"

definition block_result :: "(addr \<Rightarrow> string) \<Rightarrow> zkblock \<Rightarrow> db \<Rightarrow> err + unit \<Rightarrow> db \<Rightarrow> bool" where
  "block_result hexa block s r s' \<longleftrightarrow>
     (case ledger_of_block hexa block (\<lambda>h. marker_applied s (TxProcessedKey h)) (accounts s) of
        Inl x \<Rightarrow> (\<exists>j. r = Inl (EBlockFailed j x)) \<and> rolled_back s s'
      | Inr L' \<Rightarrow> r = Inr () \<and> accounts s' = L' \<and> \<not> state_lock s')"

lemma execute_block_wp:
  assumes e: "faultless e" and ok: "block_ok block" and ord: "map_order ord"
    and s: "keyed (accounts s)" "\<not> state_lock s"
    and parts: "tx_accounts (b_Transactions block) = Some as" "b_CoinbaseAddr block = Some coinbase" "b_ZKVMAddr block = Some zkvm"
  shows "wp (execute_block hexa ord block coinbase zkvm (remdups (as @ [coinbase, zkvm]))) e
     (block_result hexa block s) (\<lambda>_. False) s"
  unfolding execute_block_def finish_block_def Let_def wp_bnd [of "take_snapshots _ _"]
proof (rule take_snapshots_wp [OF e], unfold wp_attempt [of "FilterProcessedTxMarkers _"],
    rule FilterProcessedTxMarkers_wp, goal_cases)
  case (1 s1 live s2)
  let ?A = "set as \<union> {coinbase, zkvm}" and ?txs = "b_Transactions block" and ?rs = "b_FeeRecipients block"
  let ?app = "block_apply hexa block coinbase zkvm"
  let ?snaps = "\<lambda>a. if a \<in> set (ord 0 (remdups (as @ [coinbase, zkvm]))) then Some (snapshots_of (accounts s) a) else Map.empty a"
  have A: "block_accounts block = ?A" by (auto simp: block_accounts_def parts)
  have s2: "ticked s s2" using 1 by (blast intro: ticked_trans)
  have p: "prefix_done s ?A [] s2" using s s2 by (simp add: prefix_done_def ticked_fields)
  have mk: "marker_applied s1 k = marker_applied s k" for k
    using ticked_fields [OF 1(1)] by (simp add: marker_applied_def split: option.split)
  have live: "\<forall>tx \<in> set ?txs. live (Hash_Hex (tx_Hash tx)) = marker_applied s (TxProcessedKey (Hash_Hex (tx_Hash tx)))"
    using 1(3) by (simp add: mk)
  have touch: "touched tx (tx_party (tx_From tx)) (tx_party (tx_To tx)) coinbase zkvm ?rs \<subseteq> ?A" if "tx \<in> set ?txs" for tx
    using tx_accounts_parties [OF parts(1) that] split_addresses [of "Some (tx_fee tx)" coinbase ?rs] ok A
    by (auto simp: touched_def block_ok_def)
  have setord: "set (ord n (remdups (as @ [coinbase, zkvm]))) = ?A" for n
    using ord by (auto simp: map_order_def)
  have len: "length ?rs \<le> 1020" and zero: "0 \<notin> ?A" using ok A by (auto simp: block_ok_def)
  have loop: "wp (process_loop (\<lambda>tx. processTransaction hexa tx coinbase zkvm ?rs (b_Timestamp block)
        (carried_nonces (b_AccountNonces block))) ?snaps (ord 1 (remdups (as @ [coinbase, zkvm]))) live ?txs 0 [] []) e
      (\<lambda>r s'. case ledger_block ?app live ?txs [] (accounts s2) of
          Inl x \<Rightarrow> (\<exists>j. r = Inl (EBlockFailed j x)) \<and> rolled_back s s'
        | Inr L' \<Rightarrow> (\<exists>succ'. r = Inr succ') \<and> accounts s' = L' \<and> \<not> state_lock s') (\<lambda>_. False) s2"
  proof (rule exact_loop_wp [OF e len _ zero _ _ p _ tx_accounts_ok [OF parts(1)]], goal_cases)
    case (2) show ?case by (simp add: setord)
  qed (use touch live in \<open>auto simp: setord block_apply_def\<close>)
  have spec: "ledger_block ?app live ?txs [] (accounts s2)
      = ledger_of_block hexa block (\<lambda>h. marker_applied s (TxProcessedKey h)) (accounts s)"
    using ledger_block_cong [OF live] s2 by (simp add: ledger_of_block_def parts tx_party_def ticked_fields)
  show ?case unfolding sum.case wp_attempt
  proof (rule wp_mono [OF loop], goal_cases)
    case (1 r s3)
    show ?case
    proof (cases r)
      case (Inl x)
      with 1 show ?thesis by (auto simp: wp_ret spec block_result_def split: sum.splits)
    next
      case (Inr succ)
      then obtain L' where L': "ledger_of_block hexa block (\<lambda>h. marker_applied s (TxProcessedKey h)) (accounts s) = Inr L'"
          "accounts s3 = L'" "\<not> state_lock s3"
        using 1 by (auto simp: spec split: sum.splits)
      show ?thesis unfolding Inr sum.case wp_bnd [of "if _ then _ else _"] wp_bnd [of "advanceAppliedAnchor _"]
        by (rule finish_block_wp, rule advanceAppliedAnchor_calm_wp [OF e])
           (use L' in \<open>auto simp: wp_ret block_result_def kept_tx_def\<close>)
    qed
  qed simp
qed (use e in simp)

lemma block_result_before:
  "kept s0 s \<Longrightarrow> block_result hexa block s r s' \<Longrightarrow> block_result hexa block s0 r s'"
  using kept_marker [of s0 s]
  by (auto simp: block_result_def rolled_back_def kept_def split: sum.splits)

lemma ProcessBlockTransactions_wp:
  assumes e: "faultless e" and ok: "block_ok block" and ord: "map_order ord"
    and s: "keyed (accounts s)" "\<not> state_lock s"
    and bm: "\<not> marker_applied s (BlockProcessedKey (Hash_Hex (b_BlockHash block)))"
  shows "wp (ProcessBlockTransactions hexa ord block) e (block_result hexa block s) (\<lambda>_. False) s"
  unfolding ProcessBlockTransactions_def wp_bnd [of "IsMarkerApplied _"]
proof (rule IsMarkerApplied_wp, goal_cases)
  case (1 s1)
  obtain as coinbase zkvm where parts: "tx_accounts (b_Transactions block) = Some as"
      "b_CoinbaseAddr block = Some coinbase" "b_ZKVMAddr block = Some zkvm"
    using ok by (auto simp: block_ok_def)
  have "wp (bnd (bump_ordinal_floor n) (\<lambda>_. collect_and_execute hexa ord block)) e (block_result hexa block s) (\<lambda>_. False) s1" for n
    unfolding wp_bnd
  proof (rule bump_ordinal_floor_wp)
    fix s2 assume "kept s1 s2"
    then have k: "kept s s2" using 1 by (blast intro: kept_trans)
    then have "keyed (accounts s2)" "\<not> state_lock s2" using s by (simp_all add: kept_def)
    note exec = execute_block_wp [OF e ok ord this parts]
    show "wp (collect_and_execute hexa ord block) e (block_result hexa block s) (\<lambda>_. False) s2"
      unfolding collect_and_execute_def parts prod.case option.case
      by (rule wp_mono [OF exec]) (simp_all add: block_result_before [OF k])
  qed
  with bm show ?case by simp
qed (use e in simp)

lemma block_run:
  assumes "ProcessBlockTransactions hexa ord block e s = (r, s')"
    and "faultless e" "block_ok block" "map_order ord" "keyed (accounts s)" "\<not> state_lock s"
    and "\<not> marker_applied s (BlockProcessedKey (Hash_Hex (b_BlockHash block)))"
  obtains r' where "r = Ret r'" "block_result hexa block s r' s'"
  using ProcessBlockTransactions_wp [OF assms(2-7), of hexa] assms(1)
  by (auto simp: wp_def split: result.splits)

subsection \<open>Concrete blocks\<close>

definition demo_tx2 :: transaction where
  "demo_tx2 = zero_tx\<lparr>tx_Hash := replicate 32 1, tx_From := Some 2, tx_To := Some 1, tx_Value := Some 5000,
     tx_GasLimit := 11, tx_GasPrice := Some 1\<rparr>"

definition demo_block :: "transaction list \<Rightarrow> zkblock" where
  "demo_block txs = zero_block\<lparr>b_Transactions := txs, b_CoinbaseAddr := Some 3, b_ZKVMAddr := Some 4,
     b_BlockNumber := 1, b_Timestamp := 7\<rparr>"

definition same_order :: "nat \<Rightarrow> addr list \<Rightarrow> addr list" where
  "same_order n as = as"

lemma demo_block_ok: "block_ok (demo_block [demo_tx])" "block_ok (demo_block [demo_tx, demo_tx2])" "map_order same_order"
  by (auto simp: block_ok_def demo_block_def demo_tx_def demo_tx2_def zero_block_def zero_tx_def block_accounts_def
      map_order_def same_order_def)

lemma demo_block_succeeds: "\<not> isl (ledger_of_block (\<lambda>_. ''0x'') (demo_block [demo_tx]) (\<lambda>_. False) demo_ledger)"
  by code_simp


definition demo_run :: "transaction list \<Rightarrow> (err + unit) result \<times> db" where
  "demo_run txs = ProcessBlockTransactions (\<lambda>_. ''0x'') same_order (demo_block txs) calm demo_db"

lemma demo_live: "(\<lambda>h. marker_applied demo_db (TxProcessedKey h)) = (\<lambda>_. False)"
  by (simp add: demo_facts(7))

lemma calm_clock: "sane_clock calm"
  by (simp add: sane_clock_def calm_def)

lemma demo_run_ok: "demo_run [demo_tx] = (Ret (Inr ()), snd (demo_run [demo_tx]))"
proof -
  obtain r' where "fst (demo_run [demo_tx]) = Ret r'" "block_result (\<lambda>_. ''0x'') (demo_block [demo_tx]) demo_db r' (snd (demo_run [demo_tx]))"
    unfolding demo_run_def
    by (rule block_run [OF surjective_pairing demo_facts(5) demo_block_ok(1,3) demo_facts(1,2,7)])
  with demo_block_succeeds show ?thesis
    by (auto simp: block_result_def demo_live prod_eq_iff split: sum.splits) (simp add: demo_db_def)
qed


subsection \<open>Properties\<close>



text \<open>
  C6. Block execution implements the abstract block: without database faults it
  succeeds exactly when the fold of the abstract transactions over the unmarked,
  distinct transactions of the block does, and then stores exactly that ledger.
\<close>
theorem block_refines_ledger:
  assumes "ProcessBlockTransactions hexa ord block e s = (r, s')"
    and "faultless e" "block_ok block" "map_order ord" "keyed (accounts s)" "\<not> state_lock s"
    and "\<not> marker_applied s (BlockProcessedKey (Hash_Hex (b_BlockHash block)))"
  shows "case ledger_of_block hexa block (\<lambda>h. marker_applied s (TxProcessedKey h)) (accounts s) of
      Inl x \<Rightarrow> \<exists>j. r = Ret (Inl (EBlockFailed j x))
    | Inr L' \<Rightarrow> r = Ret (Inr ()) \<and> accounts s' = L'"
proof -
  obtain r' where "r = Ret r'" "block_result hexa block s r' s'" by (rule block_run [OF assms])
  then show ?thesis by (auto simp: block_result_def split: sum.splits)
qed

theorem block_refines_ledger_witness:
  "fst (demo_run [demo_tx]) = Ret (Inr ()) \<and>
   Inr (accounts (snd (demo_run [demo_tx]))) = ledger_of_block (\<lambda>_. ''0x'') (demo_block [demo_tx]) (\<lambda>_. False) demo_ledger"
  using block_refines_ledger [OF surjective_pairing demo_facts(5) demo_block_ok(1,3) demo_facts(1,2,7), of "\<lambda>_. ''0x''"]
    demo_block_succeeds
  by (auto simp: demo_run_def demo_live split: sum.splits) (simp_all add: demo_db_def)

text \<open>
  C18. Nodes agree: two nodes with the same accounts and the same applied markers that
  execute the same block without database faults agree on its success and on the
  resulting accounts, whatever their clocks, their logical time, their other keys and
  the iteration order of their maps.
\<close>
theorem block_deterministic:
  assumes "ProcessBlockTransactions hexa ord block e s = (r, s')" "ProcessBlockTransactions hexa ord' block e' t = (q, t')"
    and "faultless e" "faultless e'" "block_ok block" "map_order ord" "map_order ord'"
    and "keyed (accounts s)" "\<not> state_lock s" "\<not> state_lock t" "accounts t = accounts s"
    and "\<And>h. marker_applied t (TxProcessedKey h) = marker_applied s (TxProcessedKey h)"
    and "\<not> marker_applied s (BlockProcessedKey (Hash_Hex (b_BlockHash block)))"
    and "\<not> marker_applied t (BlockProcessedKey (Hash_Hex (b_BlockHash block)))"
  shows "(r = Ret (Inr ()) \<longleftrightarrow> q = Ret (Inr ())) \<and> (r = Ret (Inr ()) \<longrightarrow> accounts s' = accounts t')"
proof -
  obtain r' where r: "r = Ret r'" "block_result hexa block s r' s'"
    by (rule block_run [OF assms(1,3,5,6,8,9,13)])
  obtain q' where q: "q = Ret q'" "block_result hexa block t q' t'"
    by (rule block_run [OF assms(2,4,5,7) _ assms(10,14)]) (use assms(8,11) in simp)
  from r q assms(11,12) show ?thesis by (auto simp: block_result_def split: sum.splits)
qed

text \<open>
  C8. Whatever the database does, a block that reports success conserved the total
  supply and made no balance negative.
\<close>
theorem block_conserves_supply:
  assumes "ProcessBlockTransactions hexa ord block e s = (Ret (Inr ()), s')"
    and "sane_clock e" "keyed (accounts s)" "\<not> state_lock s" "finite (dom (accounts s))"
  shows "total_supply (accounts s') = total_supply (accounts s) \<and> (solvent (accounts s) \<longrightarrow> solvent (accounts s'))"
proof -
  have "conserving (total_supply (accounts s)) (solvent (accounts s)) e s" using assms by (simp add: conserving_def)
  from conserve.block_keeps [OF this, of hexa ord block] assms(1) show ?thesis
    by (auto simp: wp_def conserving_def)
qed

theorem block_conserves_supply_witness:
  "total_supply (accounts (snd (demo_run [demo_tx]))) = total_supply demo_ledger"
  using block_conserves_supply [OF demo_run_ok [unfolded demo_run_def] calm_clock demo_facts(1,2,6)]
  by (simp add: demo_run_def) (simp add: demo_db_def)

text \<open>
  C5. A block is applied once: after a successful run, another run of the same block
  changes no account, in any environment, with failing reads, lost acknowledgements
  and any map order.
\<close>
theorem block_applied_once:
  assumes "ProcessBlockTransactions hexa ord block e s = (Ret (Inr ()), s1)"
    and "sane_clock e" "keyed (accounts s)" "\<not> state_lock s" "finite (dom (accounts s))"
    and "\<not> marker_applied s (BlockProcessedKey (Hash_Hex (b_BlockHash block)))"
    and "ProcessBlockTransactions hexa' ord' block e' s1 = (r, s2)"
  shows "accounts s2 = accounts s1"
proof -
  have "conserving (total_supply (accounts s)) (solvent (accounts s)) e s" using assms by (simp add: conserving_def)
  from conserve.block_keeps [OF this, of hexa ord block] assms(1,6)
  have "\<forall>tx \<in> set (b_Transactions block). marker_applied s1 (TxProcessedKey (Hash_Hex (tx_Hash tx)))"
    by (simp add: wp_def)
  from marked_block_wp [OF this, of hexa' ord' e'] assms(7) show ?thesis
    by (auto simp: wp_def kept_tx_def split: result.splits)
qed

theorem block_applied_once_witness:
  "accounts (snd (ProcessBlockTransactions (\<lambda>_. []) same_order (demo_block [demo_tx])
      (calm\<lparr>fault := (\<lambda>n. if even n then Failed else LostAck)\<rparr>) (snd (demo_run [demo_tx]))))
     = accounts (snd (demo_run [demo_tx]))"
  by (rule block_applied_once [OF demo_run_ok [unfolded demo_run_def] calm_clock demo_facts(1,2,6,7), folded demo_run_def])
     (rule surjective_pairing)

theorem block_deterministic_witness:
  "accounts (snd (demo_run [demo_tx])) = accounts (snd (ProcessBlockTransactions (\<lambda>_. ''0x'') (\<lambda>n. rev) (demo_block [demo_tx])
     (calm\<lparr>clock := (\<lambda>_. 5)\<rparr>) (demo_db\<lparr>tick := 40\<rparr>)))"
proof -
  let ?e = "calm\<lparr>clock := (\<lambda>_. 5)\<rparr>" and ?t = "demo_db\<lparr>tick := 40\<rparr>"
  have t: "faultless ?e" "map_order (\<lambda>n. rev)" "\<not> state_lock ?t" "accounts ?t = accounts demo_db" "\<And>k. \<not> marker_applied ?t k"
    using demo_facts(2,5) by (simp_all add: faultless_def map_order_def marker_applied_def demo_db_def fresh_db_def)
  have "\<And>h. marker_applied ?t (TxProcessedKey h) = marker_applied demo_db (TxProcessedKey h)"
    using t(5) demo_facts(7) by simp
  from block_deterministic [OF demo_run_ok [unfolded demo_run_def] surjective_pairing demo_facts(5) t(1) demo_block_ok(1,3) t(2)
      demo_facts(1,2) t(3,4) this demo_facts(7) t(5)]
  show ?thesis unfolding demo_run_def by blast
qed

text \<open>
  A single failed read can erase an account: the snapshot loop of a block takes a
  read error for a missing account, so a rollback that follows stores balance 0 and
  nonce 0 over an existing account, and reports success.
\<close>
theorem snapshot_fault_erases_account:
  assumes "accounts s a = Some d" "a_Address d = a" "a \<noteq> 0"
    and "fault e (tick s) = Failed" "fault e (tick s + 1) = Done" "fault e (tick s + 2) = Done" "fault e (tick s + 3) = Done"
  shows "wp (bnd (take_snapshots [a] Map.empty) (\<lambda>snaps. rollbackState snaps [a])) e
     (\<lambda>r s'. r = Inr () \<and> balance_at (accounts s') a = 0 \<and> nonce_at (accounts s') a = 0) (\<lambda>_. False) s"
  using assms
  by (simp add: wp_bnd wp_GetAccount wp_ret wp_attempt UpdateAccount_def wp_sys wp_SafeCreate put_account_def
      Let_def restore_snapshot_def zero_snapshot_def balance_at_def nonce_at_def bal_def big_zero numeral_2_eq_2 numeral_3_eq_3)

theorem snapshot_fault_erases_account_witness:
  "wp (bnd (take_snapshots [1] Map.empty) (\<lambda>snaps. rollbackState snaps [1]))
     (calm\<lparr>fault := (\<lambda>n. if n = 0 then Failed else Done)\<rparr>)
     (\<lambda>r s'. r = Inr () \<and> balance_at (accounts s') 1 = 0 \<and> nonce_at (accounts s') 1 = 0) (\<lambda>_. False) demo_db \<and>
   balance_at (accounts demo_db) 1 = 1000"
proof
  show "wp (bnd (take_snapshots [1] Map.empty) (\<lambda>snaps. rollbackState snaps [1]))
     (calm\<lparr>fault := (\<lambda>n. if n = 0 then Failed else Done)\<rparr>)
     (\<lambda>r s'. r = Inr () \<and> balance_at (accounts s') 1 = 0 \<and> nonce_at (accounts s') 1 = 0) (\<lambda>_. False) demo_db"
    by (rule snapshot_fault_erases_account [of demo_db 1 "demo_account 1 ''1000''"])
       (simp_all add: demo_db_def fresh_db_def demo_ledger_def demo_account_def)
  show "balance_at (accounts demo_db) 1 = 1000" by code_simp
qed

end
