(* ===== verification/BlockStore.thy ===== *)
theory BlockStore
  imports BlockProps
begin

text \<open>
  Stored blocks: \<^verbatim>\<open>StoreZKBlock\<close>, \<^verbatim>\<open>GetZKBlockByNumber\<close> and \<^verbatim>\<open>GetZKBlockByHash\<close> of
  \<^verbatim>\<open>src/DB_OPs/immuclient.go\<close>, the message log of \<^verbatim>\<open>src/messaging/blockPropagation.go\<close>
  and the goroutine of \<^verbatim>\<open>HandleReceivedBlockMessage\<close> that executes and stores an
  admitted block.

  The JSON encoding of the stored structs is the argument \<open>C\<close>; what the lemmas need
  of it is that decoding gives back an encoded block.

  \<open>frames R m\<close> says that every run of \<open>m\<close>, whatever the environment and also when it
  panics, relates its first and last state by \<open>R\<close>. The locale \<open>frame\<close> has one rule
  per construct of the monad, for any preorder \<open>R\<close>.
\<close>

subsection \<open>Keys and encodings\<close>

record codec =
  enc_block :: "zkblock \<Rightarrow> string"
  dec_block :: "string \<Rightarrow> zkblock option"
  enc_msg :: "block_message \<Rightarrow> string"
  enc_set :: "(string \<rightharpoonup> bool) \<Rightarrow> string"
  dec_set :: "string \<Rightarrow> (string \<rightharpoonup> bool) option option"

definition PREFIX_BLOCK :: string where "PREFIX_BLOCK = ''block:''"
definition PREFIX_BLOCK_HASH :: string where "PREFIX_BLOCK_HASH = ''block:hash:''"
definition DEFAULT_PREFIX_TX :: string where "DEFAULT_PREFIX_TX = ''tx:''"

definition block_key :: "u64 \<Rightarrow> string" where
  "block_key n = PREFIX_BLOCK @ show_u64 n"

definition hash_key :: "string \<Rightarrow> string" where
  "hash_key h = PREFIX_BLOCK_HASH @ h"

definition tx_key :: "hash \<Rightarrow> string" where
  "tx_key h = DEFAULT_PREFIX_TX @ Hash_Hex h"

definition put_main :: "string \<Rightarrow> string \<Rightarrow> db \<Rightarrow> db" where
  "put_main key v s = s\<lparr>mainkv := (mainkv s)(key \<mapsto> v)\<rparr>"

subsection \<open>Storing and reading blocks\<close>

text \<open>One index entry per transaction; the value is the JSON of the block number.\<close>

primrec store_tx_mappings :: "transaction list \<Rightarrow> u64 \<Rightarrow> (err + unit) go" where
  "store_tx_mappings [] n = ret (Inr ())"
| "store_tx_mappings (tx # txs) n =
     attempt (Create (tx_key (tx_Hash tx)) (show_u64 n)) (\<lambda>e. ret (Inl e)) (\<lambda>_. store_tx_mappings txs n)"

definition StoreZKBlock :: "codec \<Rightarrow> zkblock \<Rightarrow> (err + unit) go" where
  "StoreZKBlock C b =
     (let blockKey = block_key (b_BlockNumber b)
      in attempt (Exists blockKey) (\<lambda>e. ret (Inl e)) (\<lambda>exists.
         if exists then ret (Inl EBlockExists)
         else attempt (SafeCreate (put_main blockKey (enc_block C b))) (\<lambda>e. ret (Inl e)) (\<lambda>_.
              attempt (Create (hash_key (Hash_Hex (b_BlockHash b))) blockKey) (\<lambda>e. ret (Inl e)) (\<lambda>_.
              store_tx_mappings (b_Transactions b) (b_BlockNumber b)))))"

definition read_block :: "codec \<Rightarrow> string \<Rightarrow> (err + zkblock) go" where
  "read_block C key = bnd (ReadKey key) (\<lambda>r. ret (case r of
      Inl e \<Rightarrow> Inl e
    | Inr raw \<Rightarrow> (case dec_block C raw of None \<Rightarrow> Inl EBadRecord | Some b \<Rightarrow> Inr b)))"

definition GetZKBlockByNumber :: "codec \<Rightarrow> u64 \<Rightarrow> (err + zkblock) go" where
  "GetZKBlockByNumber C n = read_block C (block_key n)"

definition GetZKBlockByHash :: "codec \<Rightarrow> string \<Rightarrow> (err + zkblock) go" where
  "GetZKBlockByHash C h = attempt (ReadKey (hash_key h)) (\<lambda>e. ret (Inl e)) (read_block C)"

subsection \<open>The message log\<close>

definition data_get :: "block_message \<Rightarrow> string \<Rightarrow> string" where
  "data_get msg k = (case m_Data msg k of None \<Rightarrow> [] | Some v \<Rightarrow> v)"

definition message_key :: "block_message \<Rightarrow> string" where
  "message_key msg =
     (if m_Type msg = ''zkblock'' \<and> m_Block msg \<noteq> None
      then ''zkblock:'' @ Hash_Hex (b_BlockHash (the (m_Block msg)))
      else if m_Type msg = ''transaction'' \<and> data_get msg ''transaction_hash'' \<noteq> []
      then ''tx:'' @ data_get msg ''transaction_hash''
      else ''crdt:nonce:'' @ m_Nonce msg)"

definition updateMessageSet :: "codec \<Rightarrow> string \<Rightarrow> (err + unit) go" where
  "updateMessageSet C key =
     bnd (ReadKey ''crdt:message_set'') (\<lambda>r.
       case (case r of Inl _ \<Rightarrow> Some Map.empty
               | Inr raw \<Rightarrow> (case dec_set C raw of None \<Rightarrow> Some Map.empty | Some m \<Rightarrow> m)) of
         None \<Rightarrow> go_panic
       | Some m \<Rightarrow> Create ''crdt:message_set'' (enc_set C (m(key \<mapsto> True))))"

definition storeMessageInImmuDB :: "codec \<Rightarrow> block_message \<Rightarrow> (err + unit) go" where
  "storeMessageInImmuDB C msg =
     attempt (Create (message_key msg) (enc_msg C msg)) (\<lambda>e. ret (Inl e))
       (\<lambda>_. updateMessageSet C (message_key msg))"

subsection \<open>Executing and storing an admitted block\<close>

definition acquire :: "(err + unit) go" where
  "acquire = sys (\<lambda>oc s. (if oc = Done then Inr () else Inl EDb, s))"

definition process_and_store ::
  "codec \<Rightarrow> (addr \<Rightarrow> string) \<Rightarrow> (nat \<Rightarrow> addr list \<Rightarrow> addr list) \<Rightarrow> block_message \<Rightarrow> zkblock \<Rightarrow> (err + unit) go" where
  "process_and_store C hexa ord msg b =
     attempt acquire (\<lambda>e. ret (Inl e)) (\<lambda>_.
     attempt acquire (\<lambda>e. ret (Inl e)) (\<lambda>_.
     attempt (ProcessBlockTransactions hexa ord b) (\<lambda>e. ret (Inl e)) (\<lambda>_.
     attempt (StoreZKBlock C b) (\<lambda>e. ret (Inl e)) (\<lambda>_.
     bnd (UpdateLatestBlockMonotonic (b_BlockNumber b)) (\<lambda>_.
     bnd (storeMessageInImmuDB C msg) (\<lambda>_. ret (Inr ())))))))"

subsection \<open>Frames\<close>

definition frames :: "(db \<Rightarrow> db \<Rightarrow> bool) \<Rightarrow> 'a go \<Rightarrow> bool" where
  "frames R m \<longleftrightarrow> (\<forall>e s. R s (snd (m e s)))"

lemma frames_run: "frames R m \<Longrightarrow> m e s = (r, s') \<Longrightarrow> R s s'"
  by (auto simp: frames_def) (metis snd_conv)

lemma frames_wp: "frames R m \<Longrightarrow> (\<And>a s'. R s s' \<Longrightarrow> Q a s') \<Longrightarrow> (\<And>s'. R s s' \<Longrightarrow> P s') \<Longrightarrow> wp m e Q P s"
  by (auto simp: wp_def split: prod.splits result.splits dest: frames_run)

locale frame =
  fixes R :: "db \<Rightarrow> db \<Rightarrow> bool"
  assumes frame_refl: "R s s"
    and frame_trans: "R s s' \<Longrightarrow> R s' s'' \<Longrightarrow> R s s''"
    and frame_tick: "R s (s\<lparr>tick := n\<rparr>)"
    and frame_lock: "R s (s\<lparr>state_lock := b\<rparr>)"
begin

lemma ret_frame: "frames R (ret a)"
  by (simp add: frames_def ret_def frame_refl)

lemma panic_frame: "frames R go_panic"
  by (simp add: frames_def go_panic_def frame_refl)

lemma now_frame: "frames R now"
  by (simp add: frames_def now_def frame_refl)

lemma lock_frame: "frames R LockStateApply" "frames R UnlockStateApply"
  by (simp_all add: frames_def LockStateApply_def UnlockStateApply_def frame_lock)

lemma bnd_frame: "frames R m \<Longrightarrow> (\<And>a. frames R (f a)) \<Longrightarrow> frames R (bnd m f)"
  unfolding frames_def bnd_def
  by (auto split: prod.splits result.splits) (metis frame_trans snd_conv)+

lemma attempt_frame:
  "frames R m \<Longrightarrow> (\<And>x. frames R (h x)) \<Longrightarrow> (\<And>a. frames R (k a)) \<Longrightarrow> frames R (attempt m h k)"
  unfolding attempt_def by (rule bnd_frame) (auto split: sum.split)

lemma sys_frame: "(\<And>oc s. R s (snd (f oc s))) \<Longrightarrow> frames R (sys f)"
  unfolding frames_def sys_def by (auto split: prod.splits) (metis frame_tick frame_trans snd_conv)

lemma deferring_frame: "frames R m \<Longrightarrow> (\<And>s. R s (d s)) \<Longrightarrow> frames R (deferring m d)"
  unfolding frames_def deferring_def by (auto split: prod.splits) (metis frame_trans snd_conv)

end

text \<open>Block execution never touches a stored block, the hash index or the tip marker.\<close>

definition chain_key :: "string \<Rightarrow> bool" where
  "chain_key k \<longleftrightarrow> take 6 k = PREFIX_BLOCK \<or> k = ''latest_block''"

definition chain_kept :: "db \<Rightarrow> db \<Rightarrow> bool" where
  "chain_kept s s' \<longleftrightarrow> (\<forall>k. chain_key k \<longrightarrow> mainkv s' k = mainkv s k)"

interpretation blocks: frame chain_kept
  by unfold_locales (simp_all add: chain_kept_def)

lemma chain_kept_put [simp]:
  "chain_kept s (put_account d s')= chain_kept s s'" "chain_kept s (put_acct k v s') = chain_kept s s'"
  "chain_kept s (markerOp k i s') = chain_kept s s'" "chain_kept s (unlock_state s') = chain_kept s s'"
  by (simp_all add: chain_kept_def put_account_def put_acct_def markerOp_def unlock_state_def)

lemma chain_kept_refl [simp, intro]: "chain_kept s s"
  by (rule blocks.frame_refl)

lemmas block_frames = blocks.ret_frame blocks.panic_frame blocks.now_frame blocks.lock_frame
  blocks.bnd_frame blocks.attempt_frame

lemma read_frames [simp]:
  "frames chain_kept (kv_get sel k)" "frames chain_kept (ReadKey k)" "frames chain_kept (Exists k)"
  "frames chain_kept (GetAccount a)" "frames chain_kept (IsMarkerApplied k)" "frames chain_kept acquire"
  unfolding kv_get_def ReadKey_def Exists_def GetAccount_def IsMarkerApplied_def acquire_def
  by (auto intro!: block_frames blocks.sys_frame split: option.split)

lemma Create_frame [simp]: "\<not> chain_key k \<Longrightarrow> frames chain_kept (Create k v)"
  unfolding Create_def by (rule blocks.sys_frame) (auto simp: chain_kept_def)

lemma SafeCreate_frame: "(\<And>s. chain_kept s (put s)) \<Longrightarrow> frames chain_kept (SafeCreate put)"
  unfolding SafeCreate_def by (auto intro!: block_frames blocks.sys_frame)

lemma ExecAll_frame:
  assumes "\<forall>f \<in> set ops. \<forall>s. chain_kept s (f s)"
  shows "frames chain_kept (ExecAll ops)"
proof -
  have "chain_kept s (fold (\<lambda>f. f) ops s)" for s
    using assms by (induction ops arbitrary: s) (auto intro: blocks.frame_trans)
  then show ?thesis unfolding ExecAll_def by (intro blocks.sys_frame) auto
qed

lemma exec_chunks_frame: "\<forall>f \<in> set ops. \<forall>s. chain_kept s (f s) \<Longrightarrow> frames chain_kept (exec_chunks n ops)"
proof (induction n ops rule: exec_chunks.induct)
  case (1 n ops)
  show ?case
    by (subst exec_chunks.simps) (use 1 in \<open>auto intro!: block_frames ExecAll_frame dest: in_set_takeD in_set_dropD\<close>)
qed

lemma key_frames [simp]:
  "\<not> chain_key (TxProcessingKey h)" "\<not> chain_key artOrdinalKey"
  "\<not> chain_key (tx_key g)" "\<not> chain_key (message_key m)" "\<not> chain_key ''crdt:message_set''"
  by (simp_all add: chain_key_def TxProcessingKey_def artOrdinalKey_def PREFIX_BLOCK_def tx_key_def
      DEFAULT_PREFIX_TX_def message_key_def Hash_Hex_def)

lemma marker_frames [simp]:
  "frames chain_kept (ApplyTxAtomic docs h t)" "frames chain_kept (RevokeTxProcessedMarkers hs)"
  "frames chain_kept (WriteBlockProcessedMarker h)"
  unfolding ApplyTxAtomic_def RevokeTxProcessedMarkers_def WriteBlockProcessedMarker_def
  by (auto intro!: block_frames ExecAll_frame exec_chunks_frame)

lemma collectMarkerValues_frame [simp]: "frames chain_kept (collectMarkerValues sel hs out)"
proof (induction sel hs out rule: collectMarkerValues.induct)
  case (1 sel hs out)
  show ?case by (subst collectMarkerValues.simps) (use 1 in \<open>auto intro!: block_frames blocks.sys_frame\<close>)
qed

lemma FilterProcessedTxMarkers_frame [simp]: "frames chain_kept (FilterProcessedTxMarkers hs)"
  unfolding FilterProcessedTxMarkers_def Let_def by (auto intro!: block_frames)

lemma anchor_frames [simp]:
  "frames chain_kept (advanceAppliedAnchor n)" "frames chain_kept (bump_ordinal_floor n)"
  "frames chain_kept (UpdateAccount d)" "frames chain_kept (cleanupProcessingMarkers h)"
  unfolding advanceAppliedAnchor_def AdvanceAppliedAnchorContiguous_def advanceAnchor_def readAnchorLocked_def
    writeAnchorLocked_def bump_ordinal_floor_def BumpARTOrdinalFloor_def readARTOrdinalNext_def UpdateAccount_def
    cleanupProcessingMarkers_def Let_def
  by (auto intro!: block_frames blocks.sys_frame SafeCreate_frame split: option.split sum.split bool.split prod.split)

lemma stage_frames [simp]:
  "frames chain_kept (stage_get st a)" "frames chain_kept (adoptCarriedNonce st a carried)"
  "frames chain_kept (deductFromSender a n v st ts)" "frames chain_kept (addToRecipient a v st ts)"
  unfolding stage_get_def adoptCarriedNonce_def deductFromSender_def addToRecipient_def
  by (auto intro!: block_frames split: option.split sum.split)

lemma credit_all_frame [simp]: "frames chain_kept (credit_all cs st ts)"
  by (induction cs arbitrary: st) (auto intro!: block_frames)

lemma fail_tx_frame [simp]: "frames chain_kept (fail_tx h x)"
  unfolding fail_tx_def by (auto intro!: block_frames)

lemma stage_transaction_frame [simp]:
  "frames chain_kept (stage_transaction hexa tx f t c z recips ts carried v ex)"
  unfolding stage_transaction_def settle_stage_def Let_def
  by (auto intro!: block_frames split: prod.split)

lemma transfer_frame [simp]: "frames chain_kept (transfer_between hexa tx f t c z recips ts carried v)"
  unfolding transfer_between_def commit_stage_def accountExists_def Let_def
  by (auto intro!: block_frames)

lemma read_original_state_frame [simp]: "frames chain_kept (read_original_state as)"
  by (induction as) (auto intro!: block_frames split: sum.split)

lemma cleanup_all_frame [simp]: "frames chain_kept (cleanup_all hs)"
  by (induction hs) (auto intro!: block_frames)

lemma take_snapshots_frame [simp]: "frames chain_kept (take_snapshots as m)"
  by (induction as arbitrary: m) (auto intro!: block_frames)

lemma EnsureDBConnection_frame [simp]: "frames chain_kept (EnsureDBConnection n)"
  by (induction n) (auto intro!: block_frames blocks.sys_frame)

lemma rollbackState_frame [simp]: "frames chain_kept (rollbackState snaps keys)"
  by (induction keys) (auto intro!: block_frames simp: Let_def split: option.split)

lemma processTransaction_frame [simp]: "frames chain_kept (processTransaction hexa tx c z recips ts carried)"
  unfolding processTransaction_def process_locked_def execute_transaction_def Let_def
  by (auto intro!: block_frames blocks.deferring_frame split: option.split sum.split)

lemma process_loop_frame [simp]:
  "(\<And>tx. frames chain_kept (proc tx)) \<Longrightarrow> frames chain_kept (process_loop proc snaps keys live txs i seen succ)"
  by (induction txs arbitrary: i seen succ) (auto intro!: block_frames simp: Let_def abort_block_def)

lemma ProcessBlockTransactions_frame [simp]: "frames chain_kept (ProcessBlockTransactions hexa ord block)"
  unfolding ProcessBlockTransactions_def collect_and_execute_def execute_block_def finish_block_def Let_def
  by (auto intro!: block_frames split: option.split)

lemma later_frames [simp]:
  "frames chain_kept (storeMessageInImmuDB C msg)"
  "frames chain_kept (store_tx_mappings txs n)"
proof -
  show "frames chain_kept (storeMessageInImmuDB C msg)"
    unfolding storeMessageInImmuDB_def updateMessageSet_def
    by (auto intro!: block_frames split: option.split)
  show "frames chain_kept (store_tx_mappings txs n)"
    by (induction txs) (auto intro!: block_frames)
qed

subsection \<open>What storing a block does\<close>

lemma block_key_inj [simp]: "block_key m = block_key n \<longleftrightarrow> m = n"
  by (metis block_key_def json_u64_show option.inject same_append_eq)

lemma block_keys [simp]:
  "chain_key (block_key n)" "chain_key (hash_key h)" "chain_key ''latest_block''" "hash_key g = hash_key h \<longleftrightarrow> g = h"
  by (simp_all add: chain_key_def block_key_def hash_key_def PREFIX_BLOCK_def PREFIX_BLOCK_HASH_def)

lemma block_key_not_hash_key [simp]: "block_key n \<noteq> hash_key h" "hash_key h \<noteq> block_key n"
proof -
  show "block_key n \<noteq> hash_key h"
    by (auto simp: block_key_def hash_key_def PREFIX_BLOCK_def PREFIX_BLOCK_HASH_def show_u64_def is_digit_def
        dest!: hd_show_nat_digit)
  then show "hash_key h \<noteq> block_key n" by simp
qed

definition stored_as :: "codec \<Rightarrow> zkblock \<Rightarrow> db \<Rightarrow> bool" where
  "stored_as C b s \<longleftrightarrow> mainkv s (block_key (b_BlockNumber b)) = Some (enc_block C b) \<and>
     mainkv s (hash_key (Hash_Hex (b_BlockHash b))) = Some (block_key (b_BlockNumber b))"

definition only_block :: "zkblock \<Rightarrow> db \<Rightarrow> db \<Rightarrow> bool" where
  "only_block b s s' \<longleftrightarrow> accounts s' = accounts s \<and> (\<forall>k. chain_key k \<longrightarrow>
     k \<notin> {block_key (b_BlockNumber b), hash_key (Hash_Hex (b_BlockHash b))} \<longrightarrow> mainkv s' k = mainkv s k)"

lemma store_tx_mappings_wp:
  "wp (store_tx_mappings txs n) e (\<lambda>r s'. chain_kept s s' \<and> accounts s' = accounts s) (\<lambda>_. False) s"
proof (induction txs arbitrary: s)
  case (Cons tx txs)
  have kept: "chain_kept s (s\<lparr>tick := i, mainkv := (mainkv s)(tx_key h \<mapsto> v)\<rparr>)" "chain_kept s (s\<lparr>tick := i\<rparr>)" for h v i
    by (auto simp: chain_kept_def)
  show ?case
    by (cases "fault e (tick s)")
       (auto simp: wp_rules kept intro!: wp_mono [OF Cons.IH] intro: blocks.frame_trans [OF kept(1)])
qed (simp add: wp_rules)

lemma StoreZKBlock_wp:
  "wp (StoreZKBlock C b) e
     (\<lambda>r s'. only_block b s s' \<and> (r = Inr () \<longrightarrow> mainkv s (block_key (b_BlockNumber b)) = None \<and> stored_as C b s') \<and>
        (mainkv s (block_key (b_BlockNumber b)) \<noteq> None \<longrightarrow> chain_kept s s'))
     (\<lambda>s'. only_block b s s' \<and> mainkv s (block_key (b_BlockNumber b)) = None) s"
proof (cases "mainkv s (block_key (b_BlockNumber b))")
  case (Some v)
  then show ?thesis
    by (cases "fault e (tick s)")
       (auto simp: StoreZKBlock_def Let_def Exists_def wp_rules only_block_def chain_kept_def)
next
  case None
  have rest: "wp (store_tx_mappings (b_Transactions b) (b_BlockNumber b)) e
      (\<lambda>r s'. only_block b s s' \<and> (r = Inr () \<longrightarrow> stored_as C b s')) (\<lambda>s'. only_block b s s') s2"
    if "only_block b s s2" "stored_as C b s2" for s2
    by (rule wp_mono [OF store_tx_mappings_wp]) (use that in \<open>auto simp: only_block_def chain_kept_def stored_as_def\<close>)
  show ?thesis
    using None
    by (cases "fault e (tick s)"; cases "fault e (Suc (tick s))"; cases "fault e (Suc (Suc (tick s)))")
       (auto simp: StoreZKBlock_def Let_def Exists_def wp_rules put_main_def only_block_def stored_as_def
         intro!: rest [unfolded only_block_def stored_as_def, simplified])
qed

text \<open>After the block is stored, only the tip marker and the message log are written.\<close>

definition after_store :: "db \<Rightarrow> db \<Rightarrow> bool" where
  "after_store s s' \<longleftrightarrow> accounts s' = accounts s \<and> (\<forall>k. take 6 k = PREFIX_BLOCK \<longrightarrow> mainkv s' k = mainkv s k)"

interpretation later: frame after_store
  by unfold_locales (simp_all add: after_store_def)

lemmas later_frames' = later.ret_frame later.panic_frame later.bnd_frame later.attempt_frame

lemma later_primitives [simp]:
  "frames after_store (ReadKey k)" "\<not> chain_key k \<or> k = ''latest_block'' \<Longrightarrow> frames after_store (Create k v)"
  unfolding ReadKey_def kv_get_def Create_def
  by (auto intro!: later_frames' later.sys_frame simp: after_store_def chain_key_def PREFIX_BLOCK_def)

lemma after_store_frames:
  "frames after_store (UpdateLatestBlockMonotonic n)" "frames after_store (storeMessageInImmuDB C msg)"
  unfolding UpdateLatestBlockMonotonic_def GetLatestBlockNumber_def storeMessageInImmuDB_def updateMessageSet_def Let_def
  by (auto intro!: later_frames' split: prod.split option.split)

lemma wp_framed: "frames R m \<Longrightarrow> wp m e Q P s \<Longrightarrow> wp m e (\<lambda>a s'. R s s' \<and> Q a s') (\<lambda>s'. R s s' \<and> P s') s"
  by (auto simp: wp_def split: prod.splits result.splits dest: frames_run)

definition tip_stored :: "db \<Rightarrow> bool" where
  "tip_stored s \<longleftrightarrow> tip_of s = 0 \<or> mainkv s (block_key (tip_of s)) \<noteq> None"

lemma tip_of_chain: "mainkv s' ''latest_block'' = mainkv s ''latest_block'' \<Longrightarrow> tip_of s' = tip_of s"
  by (simp add: tip_of_def)

lemma tip_stored_chain: "chain_kept s s' \<Longrightarrow> tip_stored s' = tip_stored s"
  using tip_of_chain [of s' s] by (simp add: tip_stored_def chain_kept_def)

definition block_written :: "zkblock \<Rightarrow> db \<Rightarrow> db \<Rightarrow> bool" where
  "block_written b s s' \<longleftrightarrow> (tip_stored s \<longrightarrow> tip_stored s') \<and>
     (\<forall>n. mainkv s' (block_key n) \<noteq> mainkv s (block_key n) \<longrightarrow> n = b_BlockNumber b \<and> mainkv s (block_key n) = None)"

lemma StoreZKBlock_written:
  "wp (StoreZKBlock C b) e
     (\<lambda>r s'. accounts s' = accounts s \<and> block_written b s s' \<and> (r = Inr () \<longrightarrow> mainkv s' (block_key (b_BlockNumber b)) \<noteq> None))
     (\<lambda>s'. accounts s' = accounts s \<and> block_written b s s') s"
proof (rule wp_mono [OF StoreZKBlock_wp])
  have "block_written b s s'"
    if "only_block b s s'" "mainkv s (block_key (b_BlockNumber b)) \<noteq> None \<longrightarrow> chain_kept s s'" for s'
  proof (cases "mainkv s (block_key (b_BlockNumber b))")
    case None
    have "tip_of s' = tip_of s" using that(1) by (intro tip_of_chain) (simp add: only_block_def hash_key_def block_key_def PREFIX_BLOCK_def PREFIX_BLOCK_HASH_def)
    moreover have "mainkv s' (block_key n) = mainkv s (block_key n)" if "n \<noteq> b_BlockNumber b" for n
      using that \<open>only_block b s s'\<close> by (simp add: only_block_def)
    ultimately show ?thesis using None unfolding block_written_def tip_stored_def by metis
  next
    case (Some v)
    then have "chain_kept s s'" using that(2) by simp
    then show ?thesis using tip_stored_chain by (simp add: block_written_def) (simp add: chain_kept_def)
  qed
  note w = this
  show "accounts s' = accounts s \<and> block_written b s s' \<and> (r = Inr () \<longrightarrow> mainkv s' (block_key (b_BlockNumber b)) \<noteq> None)"
    if "only_block b s s' \<and> (r = Inr () \<longrightarrow> mainkv s (block_key (b_BlockNumber b)) = None \<and> stored_as C b s') \<and>
        (mainkv s (block_key (b_BlockNumber b)) \<noteq> None \<longrightarrow> chain_kept s s')" for r s'
    using that w by (auto simp: stored_as_def only_block_def)
  show "accounts s' = accounts s \<and> block_written b s s'"
    if "only_block b s s' \<and> mainkv s (block_key (b_BlockNumber b)) = None" for s'
    using that w by (auto simp: only_block_def)
qed

lemma after_store_wp:
  assumes "accounts s = A" "block_written b s0 s" "mainkv s (block_key (b_BlockNumber b)) \<noteq> None"
  shows "wp (bnd (UpdateLatestBlockMonotonic (b_BlockNumber b)) (\<lambda>_. bnd (storeMessageInImmuDB C msg) (\<lambda>_. ret (Inr ())))) e
     (\<lambda>r s'. accounts s' = A \<and> block_written b s0 s') (\<lambda>s'. accounts s' = A \<and> block_written b s0 s') s"
proof -
  let ?W = "\<lambda>s'. accounts s' = A \<and> block_written b s0 s'"
  have log: "wp (bnd (storeMessageInImmuDB C msg) (\<lambda>_. ret (Inr ()))) e (\<lambda>_. ?W) ?W s1" if "?W s1" for s1
    unfolding wp_bnd
  proof (rule frames_wp [where R = "\<lambda>s s'. after_store s s' \<and> chain_kept s s'"])
    show "frames (\<lambda>s s'. after_store s s' \<and> chain_kept s s') (storeMessageInImmuDB C msg)"
      using after_store_frames(2) later_frames(1) by (simp add: frames_def)
    have "?W s'" if "after_store s1 s' \<and> chain_kept s1 s'" for s'
      using that \<open>?W s1\<close> tip_stored_chain [of s1 s'] by (auto simp: block_written_def after_store_def chain_kept_def)
    then show "after_store s1 s' \<and> chain_kept s1 s' \<Longrightarrow> wp (ret (Inr ())) e (\<lambda>_. ?W) ?W s'"
      "after_store s1 s' \<and> chain_kept s1 s' \<Longrightarrow> ?W s'" for s' by (simp_all add: wp_ret)
  qed
  show ?thesis
    unfolding wp_bnd [of "UpdateLatestBlockMonotonic _"]
  proof (rule wp_mono [OF wp_framed [OF after_store_frames(1) UpdateLatestBlockMonotonic_wp]], goal_cases)
    case (1 r s1)
    then have "mainkv s1 (block_key n) = mainkv s (block_key n)" for n
      by (simp add: after_store_def block_key_def PREFIX_BLOCK_def)
    with 1 assms have "?W s1" by (auto simp: block_written_def tip_stored_def after_store_def)
    then show ?case by (rule log)
  qed simp
qed

lemma acquire_wp [wp_rules]:
  "wp acquire e Q P s = Q (if fault e (tick s) = Done then Inr () else Inl EDb) (s\<lparr>tick := Suc (tick s)\<rparr>)"
  by (simp add: acquire_def wp_rules)

lemma wp_GetZKBlockByNumber [wp_rules]:
  "wp (GetZKBlockByNumber C n) e Q P s =
     Q (if fault e (tick s) \<noteq> Done then Inl EDb
        else case mainkv s (block_key n) of None \<Rightarrow> Inl ENotFound
          | Some raw \<Rightarrow> (case dec_block C raw of None \<Rightarrow> Inl EBadRecord | Some b \<Rightarrow> Inr b)) (s\<lparr>tick := Suc (tick s)\<rparr>)"
  by (simp add: GetZKBlockByNumber_def read_block_def wp_rules split: option.splits)

lemma process_and_store_wp:
  assumes "s1 = s\<lparr>tick := tick s + 2\<rparr>" "ProcessBlockTransactions hexa ord b e s1 = (r1, s2)"
  shows "wp (process_and_store C hexa ord msg b) e
     (\<lambda>r s'. block_written b s s' \<and> (chain_kept s s' \<or> r1 = Ret (Inr ()) \<and> accounts s' = accounts s2))
     (\<lambda>s'. block_written b s s' \<and> (chain_kept s s' \<or> r1 = Ret (Inr ()) \<and> accounts s' = accounts s2)) s"
    (is "wp _ e (\<lambda>_. ?Q) ?Q s")
proof -
  have tick: "chain_kept s (s\<lparr>tick := n\<rparr>)" "tip_stored (s\<lparr>tick := n\<rparr>) = tip_stored s" for n
    by (simp_all add: chain_kept_def tip_stored_def)
  have written: "block_written b s s'" if "chain_kept s s'" for s'
    using tip_stored_chain [OF that] that by (simp add: block_written_def) (simp add: chain_kept_def)
  have "chain_kept s1 s2" by (rule frames_run [OF ProcessBlockTransactions_frame assms(2)])
  then have kept: "chain_kept s s2" by (simp add: assms(1) chain_kept_def)
  have store: "wp (attempt (StoreZKBlock C b) (\<lambda>e. ret (Inl e)) (\<lambda>_.
     bnd (UpdateLatestBlockMonotonic (b_BlockNumber b)) (\<lambda>_.
     bnd (storeMessageInImmuDB C msg) (\<lambda>_. ret (Inr ()))))) e (\<lambda>_. ?Q) ?Q s2" if "r1 = Ret (Inr ())"
    unfolding wp_attempt [of "StoreZKBlock _ _"]
  proof (rule wp_mono [OF StoreZKBlock_written], goal_cases)
    case (1 r s3)
    have base: "block_written b s s3" if "block_written b s2 s3"
      using that kept tip_stored_chain [OF kept] by (simp add: block_written_def chain_kept_def)
    show ?case
    proof (cases r)
      case (Inr u)
      with 1 have "mainkv s3 (block_key (b_BlockNumber b)) \<noteq> None" by simp
      moreover have "accounts s3 = accounts s2" "block_written b s s3" using 1 base by auto
      ultimately have "wp (bnd (UpdateLatestBlockMonotonic (b_BlockNumber b)) (\<lambda>_.
          bnd (storeMessageInImmuDB C msg) (\<lambda>_. ret (Inr ())))) e (\<lambda>_. ?Q) ?Q s3"
        by (intro wp_mono [OF after_store_wp]) (use \<open>r1 = _\<close> in auto)
      with Inr show ?thesis by simp
    qed (use 1 base \<open>r1 = _\<close> in \<open>simp add: wp_ret\<close>)
  next
    case (2 s3)
    then show ?case
      using kept tip_stored_chain [OF kept] \<open>r1 = _\<close> by (simp add: block_written_def chain_kept_def)
  qed
  have run: "wp (attempt (ProcessBlockTransactions hexa ord b) (\<lambda>e. ret (Inl e)) (\<lambda>_.
     attempt (StoreZKBlock C b) (\<lambda>e. ret (Inl e)) (\<lambda>_.
     bnd (UpdateLatestBlockMonotonic (b_BlockNumber b)) (\<lambda>_.
     bnd (storeMessageInImmuDB C msg) (\<lambda>_. ret (Inr ())))))) e (\<lambda>_. ?Q) ?Q s1"
    unfolding wp_attempt [of "ProcessBlockTransactions _ _ _"]
    using store
    by (cases r1; cases "\<exists>x. r1 = Ret (Inl x)")
       (auto simp: wp_def [of "ProcessBlockTransactions _ _ _"] assms(2) wp_ret kept written split: sum.split)
  then show ?thesis
    by (cases "fault e (tick s)"; cases "fault e (Suc (tick s))")
       (simp_all add: process_and_store_def wp_attempt [of acquire] acquire_wp wp_ret tick written assms(1))
qed

subsection \<open>Properties\<close>

text \<open>
  C30. A stored block reads back: after \<^verbatim>\<open>StoreZKBlock\<close> succeeds, in any environment,
  the block is found by its number and by its hash, and no other stored block has
  changed.
\<close>
theorem stored_block_readable:
  assumes "StoreZKBlock C b e s = (Ret (Inr ()), s')" "dec_block C (enc_block C b) = Some b" "faultless e'"
  shows "fst (GetZKBlockByNumber C (b_BlockNumber b) e' s') = Ret (Inr b)
    \<and> fst (GetZKBlockByHash C (Hash_Hex (b_BlockHash b)) e' s') = Ret (Inr b)
    \<and> (n \<noteq> b_BlockNumber b \<longrightarrow> mainkv s' (block_key n) = mainkv s (block_key n))"
proof -
  have st: "stored_as C b s'" "only_block b s s'"
    using StoreZKBlock_wp [of C b e s] assms(1) by (simp_all add: wp_def)
  have rd: "ReadKey k e' t = (Ret (case mainkv t k of None \<Rightarrow> Inl ENotFound | Some v \<Rightarrow> Inr v), t\<lparr>tick := Suc (tick t)\<rparr>)" for k t
    using assms(3) by (simp add: ReadKey_def kv_get_def bnd_def sys_def ret_def faultless_def)
  show ?thesis
    using st assms(2)
    by (simp add: GetZKBlockByNumber_def GetZKBlockByHash_def read_block_def attempt_def bnd_def rd ret_def
        stored_as_def only_block_def)
qed

definition demo_codec :: codec where
  "demo_codec = \<lparr>enc_block = (\<lambda>_. ''{}''), dec_block = (\<lambda>_. Some (demo_block [])), enc_msg = (\<lambda>_. ''{}''),
     enc_set = (\<lambda>_. ''{}''), dec_set = (\<lambda>_. Some (Some Map.empty))\<rparr>"

definition msg0 :: block_message where
  "msg0 = \<lparr>m_ID = [], m_Sender = [], m_Timestamp = 0, m_Nonce = [], m_Block = Some (demo_block []), m_Hops = 0,
     m_Type = ''zkblock'', m_Data = Map.empty\<rparr>"

lemma demo_store: "fst (StoreZKBlock demo_codec (demo_block []) calm fresh_db) = Ret (Inr ())"
  by (simp add: StoreZKBlock_def Let_def Exists_def ReadKey_def kv_get_def SafeCreate_def Create_def attempt_def bnd_def
      sys_def ret_def calm_def fresh_db_def demo_block_def zero_block_def)

theorem stored_block_readable_witness:
  "fst (GetZKBlockByNumber demo_codec 1 calm (snd (StoreZKBlock demo_codec (demo_block []) calm fresh_db)))
     = Ret (Inr (demo_block []))"
proof -
  have "dec_block demo_codec (enc_block demo_codec (demo_block [])) = Some (demo_block [])" by (simp add: demo_codec_def)
  moreover have "faultless calm" by (simp add: faultless_def calm_def)
  moreover have "b_BlockNumber (demo_block []) = 1" by (simp add: demo_block_def)
  ultimately show ?thesis using stored_block_readable [OF run_eq [OF demo_store]] by simp
qed

text \<open>
  C14. Only executed blocks are stored, once, and the tip always has its block: if the
  goroutine changes the entry of some height, then that height is the block's, it was
  empty, and \<^verbatim>\<open>ProcessBlockTransactions\<close> succeeded and produced the accounts of the
  final state. And if the block at the tip is stored before, it is stored after, so
  the parent of the next block is available. All this with any faults, lost
  acknowledgements and panics.
\<close>
theorem stored_only_if_executed:
  assumes "process_and_store C hexa ord msg b e s = (r, s')"
  shows "(mainkv s' (block_key n) \<noteq> mainkv s (block_key n) \<longrightarrow>
      n = b_BlockNumber b \<and> mainkv s (block_key n) = None \<and>
      (\<exists>s2. ProcessBlockTransactions hexa ord b e (s\<lparr>tick := tick s + 2\<rparr>) = (Ret (Inr ()), s2) \<and> accounts s' = accounts s2))
    \<and> (tip_stored s \<longrightarrow> tip_stored s')"
proof -
  obtain r1 s2 where run: "ProcessBlockTransactions hexa ord b e (s\<lparr>tick := tick s + 2\<rparr>) = (r1, s2)" by fastforce
  have post: "block_written b s s' \<and> (chain_kept s s' \<or> r1 = Ret (Inr ()) \<and> accounts s' = accounts s2)"
    using process_and_store_wp [OF refl run, of C msg] assms by (simp add: wp_def split: result.splits)
  then show ?thesis using run by (auto simp: block_written_def chain_kept_def)
qed

theorem stored_only_if_executed_witness:
  "tip_stored (snd (process_and_store demo_codec (\<lambda>_. ''0x'') same_order msg0 (demo_block [demo_tx]) calm fresh_db))"
proof -
  have "tip_stored fresh_db" by (simp add: tip_stored_def tip_of_def fresh_db_def)
  then show ?thesis using stored_only_if_executed [OF surjective_pairing] by blast
qed

end
