(* ===== verification/Votes.thy ===== *)
theory Votes
  imports Prelude
begin

text \<open>
  Committee votes: the signed vote messages and the per-vote checks of
  \<^verbatim>\<open>src/AVC/BuddyNodes/MessagePassing/BLS_Signer\<close> and \<^verbatim>\<open>BLS_Verifier\<close>, over the
  wrappers of \<^verbatim>\<open>src/AVC/BLS/bls-sign/bls-sgin.go\<close>. The pairing library behind the
  wrappers is third-party code: a \<open>bls_lib\<close> record of functions, passed as an
  argument. An \<^verbatim>\<open>int8\<close> vote is an \<^typ>\<open>int\<close>; every function rejects values other than
  1 and -1 first.
\<close>

record bls_lib =
  lib_NewPublicKey :: "byte list \<Rightarrow> bool"
  lib_Verify :: "byte list \<Rightarrow> byte list \<Rightarrow> byte list \<Rightarrow> bool"
  lib_Sign :: "byte list \<Rightarrow> byte list \<Rightarrow> byte list option"

record bls_response =
  r_Signature :: string
  r_Agree :: bool
  r_PubKey :: string
  r_PeerID :: string
  r_RejectionReasons :: "string \<rightharpoonup> string"

definition BLSVerify :: "bls_lib \<Rightarrow> byte list \<Rightarrow> byte list \<Rightarrow> byte list \<Rightarrow> bool" where
  "BLSVerify L pubKey message signature \<longleftrightarrow>
     lib_NewPublicKey L pubKey \<and> lib_Verify L pubKey message signature"

definition BLSSign :: "bls_lib \<Rightarrow> byte list \<Rightarrow> byte list \<Rightarrow> byte list option" where
  "BLSSign L privateKey message = lib_Sign L privateKey message"

subsection \<open>Vote messages\<close>

definition normalizeBindings :: "string \<Rightarrow> string" where
  "normalizeBindings b = ToLower (TrimSpace b)"

definition messageForVote :: "int \<Rightarrow> byte list option" where
  "messageForVote vote =
     (if vote \<noteq> -1 \<and> vote \<noteq> 1 then None else Some (str_bytes (''vote:'' @ big_String vote)))"

definition BlockBoundVotePrefix :: string where "BlockBoundVotePrefix = ''zkvote:''"
definition VoteDomainVersionV3 :: string where "VoteDomainVersionV3 = ''v3''"

definition CanonicalVoteMessageV3 :: "u64 \<Rightarrow> u64 \<Rightarrow> string \<Rightarrow> int \<Rightarrow> byte list option" where
  "CanonicalVoteMessageV3 chainID height bindings vote =
     (if vote \<noteq> -1 \<and> vote \<noteq> 1 then None
      else let b = normalizeBindings bindings
           in if b = [] then None
              else Some (str_bytes (BlockBoundVotePrefix @ VoteDomainVersionV3 @ '':chain='' @
                     show_nat (unat chainID) @ '':h='' @ show_nat (unat height) @
                     '':'' @ b @ '':'' @ big_String vote)))"

subsection \<open>Signing\<close>

definition SignMessage :: "bls_lib \<Rightarrow> (byte list \<times> byte list) option \<Rightarrow> int \<Rightarrow> bls_response option" where
  "SignMessage L keypair vote =
     (case messageForVote vote of
        None \<Rightarrow> None
      | Some msg \<Rightarrow> (case keypair of
          None \<Rightarrow> None
        | Some (priv, pub) \<Rightarrow> (case BLSSign L priv msg of
            None \<Rightarrow> None
          | Some sig \<Rightarrow> Some \<lparr>r_Signature = hex_encode sig, r_Agree = (vote = 1),
                r_PubKey = hex_encode pub, r_PeerID = [], r_RejectionReasons = Map.empty\<rparr>)))"

definition SignMessageForBlock ::
  "bls_lib \<Rightarrow> (byte list \<times> byte list) option \<Rightarrow> int \<Rightarrow> u64 \<Rightarrow> u64 \<Rightarrow> string \<Rightarrow> bls_response option" where
  "SignMessageForBlock L keypair vote chainID height bindings =
     (case CanonicalVoteMessageV3 chainID height bindings vote of
        None \<Rightarrow> None
      | Some msg \<Rightarrow> (case keypair of
          None \<Rightarrow> None
        | Some (priv, pub) \<Rightarrow> (case BLSSign L priv msg of
            None \<Rightarrow> None
          | Some sig \<Rightarrow> Some \<lparr>r_Signature = hex_encode sig, r_Agree = (vote = 1),
                r_PubKey = hex_encode pub, r_PeerID = [], r_RejectionReasons = Map.empty\<rparr>)))"

subsection \<open>Verification\<close>

definition VerifyForBlock :: "bls_lib \<Rightarrow> bls_response \<Rightarrow> u64 \<Rightarrow> u64 \<Rightarrow> string \<Rightarrow> int \<Rightarrow> bool" where
  "VerifyForBlock L resp chainID height bindings vote =
     (case hex_decode (r_PubKey resp) of
        None \<Rightarrow> False
      | Some pubBytes \<Rightarrow> (case hex_decode (r_Signature resp) of
          None \<Rightarrow> False
        | Some sigBytes \<Rightarrow> (case CanonicalVoteMessageV3 chainID height bindings vote of
            None \<Rightarrow> False
          | Some msgV3 \<Rightarrow> BLSVerify L pubBytes msgV3 sigBytes)))"

definition Verify :: "bls_lib \<Rightarrow> bls_response \<Rightarrow> int \<Rightarrow> bool" where
  "Verify L resp vote =
     (case messageForVote vote of
        None \<Rightarrow> False
      | Some msg \<Rightarrow> (case hex_decode (r_PubKey resp) of
          None \<Rightarrow> False
        | Some pubBytes \<Rightarrow> (case hex_decode (r_Signature resp) of
            None \<Rightarrow> False
          | Some sigBytes \<Rightarrow> BLSVerify L pubBytes msg sigBytes)))"

text \<open>
  \<^verbatim>\<open>VerifyAll\<close>: the per-peer verdicts (a later response of the same peer overwrites
  the earlier one) and whether some response failed.
\<close>

definition VerifyAll :: "bls_lib \<Rightarrow> bls_response list \<Rightarrow> int \<Rightarrow> (string \<rightharpoonup> bool) \<times> bool" where
  "VerifyAll L responses vote =
     fold (\<lambda>r (results, failed).
        if \<not> Verify L r vote then (results(r_PeerID r \<mapsto> False), True)
        else (results(r_PeerID r \<mapsto> True), failed)) responses (Map.empty, False)"

subsection \<open>The messages are unambiguous\<close>

lemma normalizeBindings_Hash_Hex [simp]: "normalizeBindings (Hash_Hex h) = Hash_Hex h"
  by (simp add: normalizeBindings_def)

lemma vote_suffix_inj:
  assumes "vote = 1 \<or> vote = -1" "vote' = 1 \<or> vote' = -1"
    and "b @ '':'' @ big_String vote = b' @ '':'' @ big_String vote'"
  shows "b = b' \<and> vote = vote'"
proof -
  have m: "big_String 1 = ''1''" "big_String (-1) = ''-1''"
    by code_simp+
  have "rev (b @ '':'' @ big_String vote) = rev (b' @ '':'' @ big_String vote')"
    using assms(3) by simp
  with assms(1,2) show ?thesis by (auto simp: m)
qed

lemma CanonicalVoteMessageV3_inj:
  assumes "CanonicalVoteMessageV3 c h b v = Some m" "CanonicalVoteMessageV3 c' h' b' v' = Some m"
  shows "c = c' \<and> h = h' \<and> normalizeBindings b = normalizeBindings b' \<and> v = v'"
proof -
  from assms have v: "v = 1 \<or> v = -1" "v' = 1 \<or> v' = -1"
    by (auto simp: CanonicalVoteMessageV3_def split: if_splits)
  define t where "t = normalizeBindings b @ '':'' @ big_String v"
  define t' where "t' = normalizeBindings b' @ '':'' @ big_String v'"
  have eq: "show_nat (unat c) @ CHR '':'' # ''h='' @ show_nat (unat h) @ CHR '':'' # t
      = show_nat (unat c') @ CHR '':'' # ''h='' @ show_nat (unat h') @ CHR '':'' # t'"
    using assms by (auto simp: CanonicalVoteMessageV3_def Let_def t_def t'_def split: if_splits
        simp flip: str_bytes_append)
  have split: "show_nat n @ CHR '':'' # x = show_nat n' @ CHR '':'' # x' \<Longrightarrow> n = n' \<and> x = x'" for n n' x x'
    using run_split [of "show_nat n" is_digit "show_nat n'" "CHR '':''" "CHR '':''" x x']
    by (auto dest: show_nat_digits simp: sign_not_digit)
  from split [OF eq] have c: "unat c = unat c'"
    and eq2: "show_nat (unat h) @ CHR '':'' # t = show_nat (unat h') @ CHR '':'' # t'" by simp_all
  from split [OF eq2] have h: "unat h = unat h'" and t: "t = t'" by simp_all
  from vote_suffix_inj [OF v t [unfolded t_def t'_def]] c h show ?thesis
    by (simp add: unsigned_word_eqI)
qed

subsection \<open>Properties\<close>

text \<open>
  C27. A block-bound vote message determines the chain, the height, the block hash and
  the vote it is for, and is never a legacy vote message: no signature made for one
  (chain, height, block, vote) can be presented for another, whatever bytes the
  block binding contains.
\<close>
theorem vote_message_unambiguous:
  assumes "CanonicalVoteMessageV3 c h b v = Some m"
  shows "(CanonicalVoteMessageV3 c' h' b' v' = Some m \<longrightarrow>
            c = c' \<and> h = h' \<and> normalizeBindings b = normalizeBindings b' \<and> v = v')
       \<and> messageForVote v' \<noteq> Some m"
proof
  show "CanonicalVoteMessageV3 c' h' b' v' = Some m \<longrightarrow>
            c = c' \<and> h = h' \<and> normalizeBindings b = normalizeBindings b' \<and> v = v'"
    using assms CanonicalVoteMessageV3_inj by blast
  show "messageForVote v' \<noteq> Some m"
    using assms
    by (auto simp: CanonicalVoteMessageV3_def messageForVote_def BlockBoundVotePrefix_def Let_def
        simp flip: str_bytes_append split: if_splits)
qed

theorem vote_message_unambiguous_witness:
  "\<exists>m. CanonicalVoteMessageV3 8000800 12 ''0xAB'' 1 = Some m \<and> messageForVote 1 \<noteq> Some m
     \<and> CanonicalVoteMessageV3 8000800 13 ''0xab'' 1 \<noteq> Some m"
proof -
  obtain m where m: "CanonicalVoteMessageV3 8000800 12 ''0xAB'' 1 = Some m"
    by (simp add: CanonicalVoteMessageV3_def normalizeBindings_def TrimSpace_def is_space_def ToLower_def Let_def)
  from vote_message_unambiguous [OF m, of 8000800 13 "''0xab''" 1] m show ?thesis by auto
qed

text \<open>
  A vote signed by a node verifies: with a library whose verification accepts its
  own signatures under the matching key, \<^verbatim>\<open>SignMessageForBlock\<close> succeeds for every
  valid vote and block binding and \<^verbatim>\<open>VerifyForBlock\<close> accepts the response for exactly
  the values that were signed.
\<close>
theorem sign_verify_roundtrip:
  assumes sign: "\<And>m. \<exists>sig. lib_Sign L priv m = Some sig \<and> lib_Verify L pub m sig"
    and "lib_NewPublicKey L pub" "vote = 1 \<or> vote = -1" "normalizeBindings b \<noteq> []"
  shows "\<exists>resp. SignMessageForBlock L (Some (priv, pub)) vote chain height b = Some resp
     \<and> VerifyForBlock L resp chain height b vote \<and> (r_Agree resp \<longleftrightarrow> vote = 1)"
proof -
  obtain m where m: "CanonicalVoteMessageV3 chain height b vote = Some m"
    using assms(3,4) by (auto simp: CanonicalVoteMessageV3_def Let_def)
  obtain sig where "lib_Sign L priv m = Some sig" "lib_Verify L pub m sig" using sign by blast
  with m assms(2) show ?thesis
    by (simp add: SignMessageForBlock_def VerifyForBlock_def BLSSign_def BLSVerify_def)
qed

definition toy_bls :: bls_lib where
  "toy_bls = \<lparr>lib_NewPublicKey = (\<lambda>_. True), lib_Verify = (\<lambda>pub m sig. sig = pub @ m),
     lib_Sign = (\<lambda>priv m. Some (priv @ m))\<rparr>"

theorem sign_verify_roundtrip_witness:
  "\<exists>resp. SignMessageForBlock toy_bls (Some ([7], [7])) 1 8000800 5 ''0xAB'' = Some resp
     \<and> VerifyForBlock toy_bls resp 8000800 5 ''0xAB'' 1 \<and> (r_Agree resp \<longleftrightarrow> (1::int) = 1)"
  by (rule sign_verify_roundtrip)
    (simp_all add: toy_bls_def normalizeBindings_def TrimSpace_def is_space_def ToLower_def)

end
