(* ===== verification/Quorum.thy ===== *)
theory Quorum
  imports Main
begin

text \<open>
  Quorum arithmetic: \<^verbatim>\<open>ByzantineQuorum\<close> of \<^verbatim>\<open>src/messaging/consensus_hardening.go\<close>
  and the threshold functions of \<^verbatim>\<open>src/AVC/BFT/bft/math.go\<close>. Committee sizes are
  lengths of in-memory maps, far below the range where Go's \<^verbatim>\<open>int\<close> would wrap, and
  are modelled by \<^typ>\<open>int\<close>; all divisions have non-negative operands, where Go's
  truncating division is the HOL one.

  The locale \<open>quorum_rule\<close> is the contract the consensus components use: a
  threshold whose quorums intersect in more than the tolerated number of faulty
  members and that the honest members can meet. Both threshold functions of the
  node are interpretations of it.
\<close>

subsection \<open>The thresholds of the code\<close>

definition ByzantineQuorum :: "int \<Rightarrow> int" where
  "ByzantineQuorum n = (if n < 1 then 1 else (2 * n + 2) div 3)"

definition QuorumNumerator :: int where "QuorumNumerator = 2"
definition QuorumDenominator :: int where "QuorumDenominator = 3"
definition ByzantineFactor :: int where "ByzantineFactor = 3"

definition HasQuorum :: "int \<Rightarrow> int \<Rightarrow> bool" where
  "HasQuorum yes total_votes =
     (if total_votes = 0 then False
      else yes * QuorumDenominator \<ge> total_votes * QuorumNumerator)"

definition QuorumThreshold :: "int \<Rightarrow> int" where
  "QuorumThreshold total_votes =
     (if total_votes \<le> 0 then 0
      else (total_votes * QuorumNumerator + QuorumDenominator - 1) div QuorumDenominator)"

definition BFTThreshold :: "int \<Rightarrow> int" where
  "BFTThreshold buddyCount = (if buddyCount \<le> 0 then 0 else QuorumThreshold buddyCount)"

definition ByzantineTolerance :: "int \<Rightarrow> int" where
  "ByzantineTolerance buddyCount =
     (if buddyCount \<le> 0 then 0 else (buddyCount - 1) div ByzantineFactor)"

lemmas quorum_defs = ByzantineQuorum_def HasQuorum_def QuorumThreshold_def BFTThreshold_def
  ByzantineTolerance_def QuorumNumerator_def QuorumDenominator_def ByzantineFactor_def

subsection \<open>The contract\<close>

locale quorum_rule =
  fixes q f :: "int \<Rightarrow> int"
  assumes q_intersect: "1 \<le> n \<Longrightarrow> n + f n + 1 \<le> 2 * q n"
    and q_available: "1 \<le> n \<Longrightarrow> q n \<le> n - f n"
    and f_nonneg: "1 \<le> n \<Longrightarrow> 0 \<le> f n"
begin

lemma quorum_pos: "1 \<le> n \<Longrightarrow> 1 \<le> q n"
  using q_intersect [of n] f_nonneg [of n] by linarith

text \<open>Two quorums drawn from one committee share more members than may be faulty.\<close>

lemma quorum_overlap:
  assumes C: "finite C" "A \<subseteq> C" "B \<subseteq> C" "C \<noteq> {}"
    and "q (int (card C)) \<le> int (card A)" "q (int (card C)) \<le> int (card B)"
  shows "f (int (card C)) + 1 \<le> int (card (A \<inter> B))"
proof -
  have n: "1 \<le> int (card C)"
    using C(1,4) by (simp add: Suc_le_eq card_gt_0_iff)
  have fin: "finite A" "finite B" using C finite_subset by auto
  have "card A + card B = card (A \<union> B) + card (A \<inter> B)"
    using fin by (rule card_Un_Int)
  moreover have "card (A \<union> B) \<le> card C"
    using C by (intro card_mono) auto
  ultimately have "int (card A) + int (card B) - int (card C) \<le> int (card (A \<inter> B))" by linarith
  with assms(5,6) q_intersect [OF n] show ?thesis by linarith
qed

lemma quorum_honest:
  assumes "finite C" "A \<subseteq> C" "B \<subseteq> C" "C \<noteq> {}"
    and "q (int (card C)) \<le> int (card A)" "q (int (card C)) \<le> int (card B)"
    and "F \<subseteq> C" "int (card F) \<le> f (int (card C))"
  obtains p where "p \<in> A" "p \<in> B" "p \<notin> F"
proof -
  have "f (int (card C)) + 1 \<le> int (card (A \<inter> B))"
    using assms by (intro quorum_overlap) auto
  then have "card F < card (A \<inter> B)" using assms(8) by linarith
  moreover have "finite F" using assms(1,7) by (rule rev_finite_subset)
  ultimately have "\<not> A \<inter> B \<subseteq> F" by (meson card_mono not_le)
  with that show ?thesis by blast
qed

text \<open>The members that are not faulty can always form a quorum.\<close>

lemma quorum_formable:
  assumes "finite C" "C \<noteq> {}" "F \<subseteq> C" "int (card F) \<le> f (int (card C))"
  shows "q (int (card C)) \<le> int (card (C - F))"
proof -
  have n: "1 \<le> int (card C)"
    using assms(1,2) by (simp add: Suc_le_eq card_gt_0_iff)
  have "finite F" using assms(1,3) by (rule rev_finite_subset)
  then have "card (C - F) = card C - card F" using assms(3) by (rule card_Diff_subset)
  moreover have "card F \<le> card C" using assms by (intro card_mono)
  ultimately show ?thesis using q_available [OF n] assms(4) by linarith
qed

end

lemma ByzantineQuorum_least_arith:
  assumes "1 \<le> n"
  shows "n + ByzantineTolerance n + 1 \<le> 2 * k \<longleftrightarrow> ByzantineQuorum n \<le> k"
proof -
  define f where "f = (n - 1) div 3"
  define q where "q = (2 * n + 2) div 3"
  have "3 * f \<le> n - 1" "n - 1 \<le> 3 * f + 2" "3 * q \<le> 2 * n + 2" "2 * n \<le> 3 * q"
    unfolding f_def q_def by presburger+
  then have "n + f + 1 \<le> 2 * k \<longleftrightarrow> q \<le> k" by linarith
  with assms show ?thesis by (simp add: quorum_defs f_def q_def)
qed

lemma BFTThreshold_eq: "1 \<le> n \<Longrightarrow> BFTThreshold n = ByzantineQuorum n"
  by (simp add: quorum_defs)

lemma ByzantineTolerance_nonneg: "0 \<le> ByzantineTolerance n"
  by (simp add: quorum_defs pos_imp_zdiv_nonneg_iff)

interpretation cert_quorum: quorum_rule ByzantineQuorum ByzantineTolerance
proof
  fix n :: int assume n: "1 \<le> n"
  show "n + ByzantineTolerance n + 1 \<le> 2 * ByzantineQuorum n"
    using ByzantineQuorum_least_arith [OF n] by blast
  show "ByzantineQuorum n \<le> n - ByzantineTolerance n"
  proof -
    define f where "f = (n - 1) div 3"
    have "3 * f \<le> n - 1" unfolding f_def by presburger
    then have "(2 * n + 2) div 3 \<le> n - f" by linarith
    with n show ?thesis by (simp add: quorum_defs f_def)
  qed
qed (rule ByzantineTolerance_nonneg)

interpretation bft_quorum: quorum_rule BFTThreshold ByzantineTolerance
proof
  fix n :: int assume n: "1 \<le> n"
  show "n + ByzantineTolerance n + 1 \<le> 2 * BFTThreshold n"
    using cert_quorum.q_intersect [OF n] by (simp add: BFTThreshold_eq [OF n])
  show "BFTThreshold n \<le> n - ByzantineTolerance n"
    using cert_quorum.q_available [OF n] by (simp add: BFTThreshold_eq [OF n])
qed (rule ByzantineTolerance_nonneg)

lemma interval_overlap:
  "k \<le> n \<Longrightarrow> int (card ({..<k} \<inter> {n - k..<n})) = max 0 (2 * int k - int n)"
proof -
  assume "k \<le> n"
  moreover have "{..<k} \<inter> {n - k..<n} = {n - k..<min k n}" by auto
  ultimately show ?thesis by simp
qed

subsection \<open>Properties\<close>

text \<open>
  C28. \<^verbatim>\<open>ByzantineQuorum n\<close> is the exact safety threshold at every committee size
  (not only at \<^verbatim>\<open>3f+1\<close>): any two groups of \<open>k\<close> members of an \<open>n\<close>-member committee
  share more than \<^verbatim>\<open>f = floor((n-1)/3)\<close> members if and only if \<open>k\<close> is at least the
  threshold. The previous rule \<^verbatim>\<open>2f+1\<close> fails this.
\<close>
theorem ByzantineQuorum_exact:
  assumes "1 \<le> n" "k \<le> n"
  shows "(\<forall>A B. A \<subseteq> {..<n} \<longrightarrow> B \<subseteq> {..<n} \<longrightarrow> card A = k \<longrightarrow> card B = k \<longrightarrow>
            ByzantineTolerance (int n) < int (card (A \<inter> B)))
          \<longleftrightarrow> ByzantineQuorum (int n) \<le> int k"
    (is "?safe \<longleftrightarrow> ?ge")
proof
  assume ge: ?ge
  show ?safe
  proof (intro allI impI)
    fix A B assume "A \<subseteq> {..<n}" "B \<subseteq> {..<n}" "card A = k" "card B = k"
    then show "ByzantineTolerance (int n) < int (card (A \<inter> B))"
      using cert_quorum.quorum_overlap [of "{..<n}" A B] ge assms(1) by (simp add: lessThan_empty_iff)
  qed
next
  assume safe: ?safe
  have "ByzantineTolerance (int n) < int (card ({..<k} \<inter> {n - k..<n}))"
    using assms(2) by (intro safe [rule_format]) auto
  then have "ByzantineTolerance (int n) < 2 * int k - int n"
    using interval_overlap [OF assms(2)] ByzantineTolerance_nonneg [of "int n"] by linarith
  then show ?ge
    using ByzantineQuorum_least_arith [of "int n" "int k"] assms(1) by linarith
qed

theorem ByzantineQuorum_exact_witness:
  "ByzantineQuorum 7 = 5 \<and> ByzantineTolerance (int 7) < int (card ({..<5::nat} \<inter> {2..<7}))"
proof -
  have thr: "ByzantineQuorum 7 = 5" by (simp add: quorum_defs)
  have "\<forall>A B. A \<subseteq> {..<7::nat} \<longrightarrow> B \<subseteq> {..<7} \<longrightarrow> card A = 5 \<longrightarrow> card B = 5 \<longrightarrow>
          ByzantineTolerance (int 7) < int (card (A \<inter> B))"
    by (rule ByzantineQuorum_exact [THEN iffD2]) (simp_all add: thr)
  moreover have "{2..<7} \<subseteq> {..<7::nat}" by (simp add: subset_iff)
  ultimately show ?thesis using thr by simp
qed

text \<open>
  The BFT engine and the certificate verifier use the same threshold, it is met
  exactly when the 2/3 rule \<^verbatim>\<open>HasQuorum\<close> holds, and the members that are not faulty
  can always reach it.
\<close>
theorem BFTThreshold_agrees:
  assumes "1 \<le> n"
  shows "BFTThreshold n = ByzantineQuorum n \<and>
     HasQuorum yes n = (ByzantineQuorum n \<le> yes) \<and>
     ByzantineQuorum n \<le> n - ByzantineTolerance n"
proof (intro conjI)
  show "BFTThreshold n = ByzantineQuorum n" by (rule BFTThreshold_eq [OF assms])
  show "HasQuorum yes n = (ByzantineQuorum n \<le> yes)"
    using assms by (simp add: quorum_defs) linarith
  show "ByzantineQuorum n \<le> n - ByzantineTolerance n" by (rule cert_quorum.q_available [OF assms])
qed

theorem BFTThreshold_agrees_witness:
  "BFTThreshold 13 = 9 \<and> HasQuorum 9 13 \<and> \<not> HasQuorum 8 13"
  using BFTThreshold_agrees [of 13 9] BFTThreshold_agrees [of 13 8] by (simp add: ByzantineQuorum_def)

end
