(* ===== verification/Certificate.thy ===== *)
theory Certificate
  imports Votes Quorum "HOL-Library.AList" "HOL-Library.List_Lexorder" "HOL-Library.Char_ord"
begin

text \<open>
  Committee certificates: the eligibility set and the single certificate verifier
  of \<^verbatim>\<open>src/messaging/consensus_hardening.go\<close>, and the formation quorum of
  \<^verbatim>\<open>src/Sequencer/committee_quorum.go\<close>.

  A Go \<^verbatim>\<open>map[string]string\<close> is an association list with distinct keys, whose list
  order is the (unspecified) iteration order. Settings that have not been loaded
  are \<^const>\<open>None\<close>. The package flags are a record; \<open>flags_from_env\<close> is their
  initialisation from the process environment.
\<close>

type_synonym go_map = "(string \<times> string) list"

definition go_lookup :: "go_map \<Rightarrow> string \<Rightarrow> string" where
  "go_lookup m k = (case map_of m k of None \<Rightarrow> [] | Some v \<Rightarrow> v)"

subsection \<open>Settings and flags\<close>

record consensus_settings =
  s_BlockBuddy :: "string list"
  s_MaxValidators :: int
  s_SeedAuthorityBLSPub :: string
  s_ChainID :: int

record hardening_flags =
  RejectLegacyVotes :: bool
  EnforceCommitteeRegistry :: bool
  EnforceBlockLinkage :: bool
  EnforceBodyBinding :: bool

definition envOn :: "(string \<rightharpoonup> string) \<Rightarrow> string \<Rightarrow> bool \<Rightarrow> bool" where
  "envOn env key dflt =
     (case env key of
        None \<Rightarrow> dflt
      | Some v \<Rightarrow> ToLower (TrimSpace v) \<notin> {''0'', ''false'', ''no'', ''off''})"

definition flags_from_env :: "(string \<rightharpoonup> string) \<Rightarrow> hardening_flags" where
  "flags_from_env env =
     \<lparr>RejectLegacyVotes = envOn env ''JMDN_REJECT_LEGACY_VOTES'' True,
      EnforceCommitteeRegistry = envOn env ''JMDN_ENFORCE_COMMITTEE_REGISTRY'' True,
      EnforceBlockLinkage = envOn env ''JMDN_ENFORCE_BLOCK_LINKAGE'' True,
      EnforceBodyBinding = envOn env ''JMDN_ENFORCE_BODY_BINDING'' True\<rparr>"

definition DefaultDomainChainID :: u64 where "DefaultDomainChainID = 8000800"

definition DomainChainID :: "consensus_settings option \<Rightarrow> u64" where
  "DomainChainID cfg = (case cfg of Some c \<Rightarrow> word_of_int (s_ChainID c) | None \<Rightarrow> DefaultDomainChainID)"

subsection \<open>Committee eligibility\<close>

datatype cert_error =
    SourceNotConfigured
  | SourceFailed string
  | EmptyBuddySet
  | EmptyAfterBlocklist

type_synonym eligibility_source = "(string + go_map) option"

definition normalizeBLSPub :: "string \<Rightarrow> string" where
  "normalizeBLSPub s = TrimPrefix (ToLower (TrimSpace s)) ''0x''"

definition blockedBuddies :: "consensus_settings option \<Rightarrow> string list" where
  "blockedBuddies cfg =
     (case cfg of None \<Rightarrow> []
      | Some c \<Rightarrow> filter (\<lambda>i. i \<noteq> []) (map TrimSpace (s_BlockBuddy c)))"

definition committeeSizeLimit :: "consensus_settings option \<Rightarrow> int" where
  "committeeSizeLimit cfg =
     (case cfg of None \<Rightarrow> 0 | Some c \<Rightarrow> if s_MaxValidators c > 0 then s_MaxValidators c else 0)"

primrec collect_eligible :: "string list \<Rightarrow> go_map \<Rightarrow> go_map \<Rightarrow> go_map" where
  "collect_eligible blocked [] eligible = eligible"
| "collect_eligible blocked (b # buddies) eligible =
     (let pid = TrimSpace (fst b)
      in if pid = [] then collect_eligible blocked buddies eligible
         else if pid \<in> set blocked then collect_eligible blocked buddies eligible
         else collect_eligible blocked buddies (AList.update pid (normalizeBLSPub (snd b)) eligible))"

definition cap_committee :: "int \<Rightarrow> go_map \<Rightarrow> go_map" where
  "cap_committee lim eligible =
     (if lim > 0 \<and> int (length eligible) > lim
      then map (\<lambda>pid. (pid, go_lookup eligible pid)) (take (nat lim) (sort (map fst eligible)))
      else eligible)"

definition eligibleMembers :: "consensus_settings option \<Rightarrow> eligibility_source \<Rightarrow> cert_error + go_map" where
  "eligibleMembers cfg source =
     (case source of
        None \<Rightarrow> Inl SourceNotConfigured
      | Some (Inl e) \<Rightarrow> Inl (SourceFailed e)
      | Some (Inr buddies) \<Rightarrow>
          if buddies = [] then Inl EmptyBuddySet
          else let eligible = collect_eligible (blockedBuddies cfg) buddies []
               in if eligible = [] then Inl EmptyAfterBlocklist
                  else Inr (cap_committee (committeeSizeLimit cfg) eligible))"

definition EligibleCommitteePeerIDs ::
  "consensus_settings option \<Rightarrow> eligibility_source \<Rightarrow> cert_error + string list" where
  "EligibleCommitteePeerIDs cfg source =
     (case eligibleMembers cfg source of Inl e \<Rightarrow> Inl e | Inr members \<Rightarrow> Inr (map fst members))"

definition keyAuthorized :: "consensus_settings option \<Rightarrow> eligibility_source \<Rightarrow> string \<Rightarrow> string \<Rightarrow> bool" where
  "keyAuthorized cfg source peerID pubHex =
     (case eligibleMembers cfg source of
        Inl _ \<Rightarrow> False
      | Inr eligible \<Rightarrow> (case map_of eligible peerID of
          None \<Rightarrow> False
        | Some boundKey \<Rightarrow> if boundKey = [] then True else normalizeBLSPub pubHex = boundKey))"

definition ValidateCommitteeSource :: "consensus_settings option \<Rightarrow> eligibility_source \<Rightarrow> cert_error option" where
  "ValidateCommitteeSource cfg source =
     (case eligibleMembers cfg source of Inl e \<Rightarrow> Some e | Inr _ \<Rightarrow> None)"

subsection \<open>Certificate verification\<close>

record certificate_result =
  CommitteeSize :: int
  Threshold :: int
  YesVotes :: int
  Reached :: bool

type_synonym tally = "string set \<times> string set \<times> nat"

definition count_vote ::
  "bls_lib \<Rightarrow> hardening_flags \<Rightarrow> u64 \<Rightarrow> string \<Rightarrow> u64 \<Rightarrow> go_map \<Rightarrow> bool \<Rightarrow> bls_response \<Rightarrow> tally \<Rightarrow> tally" where
  "count_vote L flags chain blockHashHex height committee filterByMembership r t =
     (let (countedPeers, countedKeys, yes) = t;
          vote = (if r_Agree r then 1 else -1);
          verified = (VerifyForBlock L r chain height blockHashHex vote \<or>
                      (\<not> RejectLegacyVotes flags \<and> Verify L r vote));
          member = (case map_of committee (r_PeerID r) of
                      None \<Rightarrow> False
                    | Some boundKey \<Rightarrow> boundKey = [] \<or> normalizeBLSPub (r_PubKey r) = boundKey)
      in if \<not> verified then t
         else if filterByMembership \<and> \<not> member then t
         else if vote \<noteq> 1 then t
         else let pubKey = normalizeBLSPub (r_PubKey r)
              in if r_PeerID r \<in> countedPeers \<or> (pubKey \<noteq> [] \<and> pubKey \<in> countedKeys) then t
                 else (insert (r_PeerID r) countedPeers,
                       (if pubKey \<noteq> [] then insert pubKey countedKeys else countedKeys),
                       yes + 1))"

primrec count_votes ::
  "bls_lib \<Rightarrow> hardening_flags \<Rightarrow> u64 \<Rightarrow> string \<Rightarrow> u64 \<Rightarrow> go_map \<Rightarrow> bool \<Rightarrow> bls_response list \<Rightarrow> tally \<Rightarrow> tally" where
  "count_votes L flags chain bh height committee filt [] t = t"
| "count_votes L flags chain bh height committee filt (r # rs) t =
     count_votes L flags chain bh height committee filt rs
       (count_vote L flags chain bh height committee filt r t)"

definition countEligibleYes ::
  "bls_lib \<Rightarrow> hardening_flags \<Rightarrow> u64 \<Rightarrow> bls_response list \<Rightarrow> string \<Rightarrow> u64 \<Rightarrow> go_map \<Rightarrow> bool \<Rightarrow> nat" where
  "countEligibleYes L flags chain responses blockHashHex height committee filterByMembership =
     snd (snd (count_votes L flags chain blockHashHex height committee filterByMembership responses ({}, {}, 0)))"

definition VerifyCertificate ::
  "bls_lib \<Rightarrow> hardening_flags \<Rightarrow> consensus_settings option \<Rightarrow> eligibility_source \<Rightarrow>
     bls_response list \<Rightarrow> string \<Rightarrow> u64 \<Rightarrow> cert_error + certificate_result" where
  "VerifyCertificate L flags cfg source responses blockHashHex height =
     (case eligibleMembers cfg source of
        Inl e \<Rightarrow> Inl e
      | Inr committee \<Rightarrow>
          let n = int (length committee);
              yes = int (countEligibleYes L flags (DomainChainID cfg) responses blockHashHex height
                           committee (EnforceCommitteeRegistry flags))
          in Inr \<lparr>CommitteeSize = n, Threshold = ByzantineQuorum n, YesVotes = yes,
                  Reached = (yes \<ge> ByzantineQuorum n)\<rparr>)"

subsection \<open>Committee formation\<close>

definition MaxMainPeers :: int where "MaxMainPeers = 7"

definition requiredMainPeers :: "consensus_settings option \<Rightarrow> eligibility_source \<Rightarrow> int" where
  "requiredMainPeers cfg source =
     (case cfg of
        None \<Rightarrow> MaxMainPeers
      | Some c \<Rightarrow>
          if TrimSpace (s_SeedAuthorityBLSPub c) = [] then MaxMainPeers
          else (case EligibleCommitteePeerIDs cfg source of
                  Inl _ \<Rightarrow> MaxMainPeers
                | Inr eligible \<Rightarrow>
                    if eligible = [] then MaxMainPeers
                    else let q = ByzantineQuorum (int (length eligible));
                             q1 = (if q > MaxMainPeers then MaxMainPeers else q)
                         in if q1 < 1 then 1 else q1))"

subsection \<open>The eligible set\<close>

lemma distinct_collect_eligible:
  "distinct (map fst acc) \<Longrightarrow> distinct (map fst (collect_eligible blocked bs acc))"
  by (induction bs arbitrary: acc) (auto simp: Let_def distinct_update)

lemma collect_eligible_keys:
  "fst ` set (collect_eligible blocked bs acc)
     = fst ` set acc \<union> {p. \<exists>b \<in> set bs. p = TrimSpace (fst b) \<and> p \<noteq> [] \<and> p \<notin> set blocked}"
  by (induction bs arbitrary: acc) (auto simp: Let_def dom_update)

text \<open>
  When no two source entries have the same trimmed id, the collected map is a
  function of the set of entries, whatever the iteration order.
\<close>

lemma collect_eligible_lookup:
  assumes "\<forall>b \<in> set bs. \<forall>c \<in> set bs. TrimSpace (fst b) = TrimSpace (fst c) \<longrightarrow> b = c"
    and "\<forall>b \<in> set bs. map_of acc (TrimSpace (fst b)) = None"
    and "distinct bs"
  shows "map_of (collect_eligible blocked bs acc) p = Some v \<longleftrightarrow>
      map_of acc p = Some v \<or>
      (\<exists>b \<in> set bs. p = TrimSpace (fst b) \<and> p \<noteq> [] \<and> p \<notin> set blocked \<and> v = normalizeBLSPub (snd b))"
  using assms
proof (induction bs arbitrary: acc)
  case (Cons b bs)
  define q where "q = TrimSpace (fst b)"
  have inj: "\<forall>b \<in> set bs. \<forall>c \<in> set bs. TrimSpace (fst b) = TrimSpace (fst c) \<longrightarrow> b = c"
    using Cons.prems(1) by simp
  have fresh: "TrimSpace (fst c) \<noteq> q" if "c \<in> set bs" for c
    using that Cons.prems(1,3) by (auto simp: q_def)
  show ?case
  proof (cases "q = [] \<or> q \<in> set blocked")
    case True
    with Cons.IH [OF inj, of acc] Cons.prems(2,3) show ?thesis by (auto simp: Let_def q_def)
  next
    case False
    let ?acc = "AList.update q (normalizeBLSPub (snd b)) acc"
    have "\<forall>c \<in> set bs. map_of ?acc (TrimSpace (fst c)) = None"
      using fresh Cons.prems(2) by (simp add: update_conv')
    with Cons.IH [OF inj, of ?acc] Cons.prems(2,3) False fresh show ?thesis
      by (auto simp: Let_def q_def [symmetric] update_conv')
  qed
qed simp

lemma map_of_go_lookup:
  "p \<in> set ids \<Longrightarrow> p \<in> fst ` set m \<Longrightarrow> map_of (map (\<lambda>q. (q, go_lookup m q)) ids) p = map_of m p"
  by (induction ids) (auto simp: go_lookup_def split: option.splits simp: map_of_eq_None_iff)

lemma cap_committee_keys_subset: "fst ` set (cap_committee lim m) \<subseteq> fst ` set m"
  by (auto simp: cap_committee_def dest: in_set_takeD)

lemma cap_committee_lookup:
  "map_of (cap_committee lim m) p = (if p \<in> fst ` set (cap_committee lim m) then map_of m p else None)"
proof (cases "p \<in> fst ` set (cap_committee lim m)")
  case True
  with cap_committee_keys_subset have "p \<in> fst ` set m" by blast
  with True show ?thesis by (auto simp: cap_committee_def intro: map_of_go_lookup)
qed (simp add: map_of_eq_None_iff)

lemma distinct_cap_committee: "distinct (map fst m) \<Longrightarrow> distinct (map fst (cap_committee lim m))"
  by (simp add: cap_committee_def comp_def)

lemma length_cap_committee: "0 < lim \<Longrightarrow> int (length (cap_committee lim m)) \<le> lim"
  by (auto simp: cap_committee_def)

lemma cap_committee_nonempty: "m \<noteq> [] \<Longrightarrow> cap_committee lim m \<noteq> []"
proof -
  assume "m \<noteq> []"
  then have "sort (map fst m) \<noteq> []" by (metis length_0_conv length_map length_sort)
  with \<open>m \<noteq> []\<close> show ?thesis by (auto simp: cap_committee_def)
qed

lemma cap_committee_cong:
  assumes "distinct (map fst m)" "distinct (map fst m')" "map_of m = map_of m'"
  shows "map_of (cap_committee lim m) = map_of (cap_committee lim m')"
    and "length (cap_committee lim m) = length (cap_committee lim m')"
proof -
  have keys: "fst ` set m = fst ` set m'"
    using assms(3) by (metis dom_map_of_conv_image_fst)
  then have "mset (map fst m) = mset (map fst m')"
    using assms(1,2) by (metis image_set set_eq_iff_mset_eq_distinct)
  then have srt: "sort (map fst m) = sort (map fst m')" and len: "length m = length m'"
    by (metis properties_for_sort sorted_sort mset_sort, metis size_mset length_map)
  have look: "go_lookup m = go_lookup m'" by (rule ext) (simp add: go_lookup_def assms(3))
  show "map_of (cap_committee lim m) = map_of (cap_committee lim m')"
    using assms(3) by (simp add: cap_committee_def srt len look)
  show "length (cap_committee lim m) = length (cap_committee lim m')"
    by (simp add: cap_committee_def srt len)
qed

lemma eligibleMembers_cases:
  assumes "eligibleMembers cfg source = Inr committee"
  obtains buddies where "source = Some (Inr buddies)"
    "committee = cap_committee (committeeSizeLimit cfg) (collect_eligible (blockedBuddies cfg) buddies [])"
    "collect_eligible (blockedBuddies cfg) buddies [] \<noteq> []"
  using assms by (auto simp: eligibleMembers_def Let_def split: option.splits sum.splits if_splits)

lemma eligible_distinct: "eligibleMembers cfg source = Inr committee \<Longrightarrow> distinct (map fst committee)"
  by (elim eligibleMembers_cases) (simp add: distinct_cap_committee distinct_collect_eligible)

lemma eligible_nonempty: "eligibleMembers cfg source = Inr committee \<Longrightarrow> committee \<noteq> []"
  by (elim eligibleMembers_cases) (simp add: cap_committee_nonempty)

lemma eligible_card: "eligibleMembers cfg source = Inr committee \<Longrightarrow> card (fst ` set committee) = length committee"
  using eligible_distinct by (metis distinct_card image_set length_map)

subsection \<open>What the counter counts\<close>

definition member_ok :: "go_map \<Rightarrow> bls_response \<Rightarrow> bool" where
  "member_ok committee r =
     (case map_of committee (r_PeerID r) of
        None \<Rightarrow> False
      | Some boundKey \<Rightarrow> boundKey = [] \<or> normalizeBLSPub (r_PubKey r) = boundKey)"

text \<open>A response that counts on its own: an agreeing, verifying vote, by a member if membership is enforced.\<close>

definition valid_yes ::
  "bls_lib \<Rightarrow> hardening_flags \<Rightarrow> u64 \<Rightarrow> string \<Rightarrow> u64 \<Rightarrow> go_map \<Rightarrow> bool \<Rightarrow> bls_response \<Rightarrow> bool" where
  "valid_yes L flags chain bh height committee filt r \<longleftrightarrow>
     r_Agree r \<and>
     (VerifyForBlock L r chain height bh 1 \<or> (\<not> RejectLegacyVotes flags \<and> Verify L r 1)) \<and>
     (filt \<longrightarrow> member_ok committee r)"

abbreviation key_of :: "bls_response \<Rightarrow> string" where
  "key_of r \<equiv> normalizeBLSPub (r_PubKey r)"

text \<open>\<open>voters ws t\<close>: the tally \<open>t\<close> is that of the accepted responses \<open>ws\<close>, no peer and no key twice.\<close>

definition voters :: "bls_response list \<Rightarrow> tally \<Rightarrow> bool" where
  "voters ws t \<longleftrightarrow>
     t = (r_PeerID ` set ws, {k. k \<noteq> [] \<and> k \<in> key_of ` set ws}, length ws) \<and>
     distinct (map r_PeerID ws) \<and> distinct (filter (\<lambda>k. k \<noteq> []) (map key_of ws))"

lemma count_vote_eq:
  "count_vote L flags chain bh height committee filt r (cp, ck, yes) =
     (if valid_yes L flags chain bh height committee filt r \<and>
         r_PeerID r \<notin> cp \<and> (key_of r = [] \<or> key_of r \<notin> ck)
      then (insert (r_PeerID r) cp, (if key_of r \<noteq> [] then insert (key_of r) ck else ck), yes + 1)
      else (cp, ck, yes))"
  by (auto simp: count_vote_def valid_yes_def member_ok_def Let_def)

lemma count_vote_voters:
  assumes "voters ws t"
  shows "\<exists>ws'. voters ws' (count_vote L flags chain bh height committee filt r t) \<and>
           (ws' = ws \<or> ws' = r # ws \<and> valid_yes L flags chain bh height committee filt r)"
proof -
  obtain cp ck yes where t: "t = (cp, ck, yes)" by (cases t)
  show ?thesis
  proof (cases "valid_yes L flags chain bh height committee filt r \<and>
         r_PeerID r \<notin> cp \<and> (key_of r = [] \<or> key_of r \<notin> ck)")
    case True
    with assms have "voters (r # ws) (count_vote L flags chain bh height committee filt r t)"
      by (auto simp: voters_def t count_vote_eq)
    with True show ?thesis by blast
  next
    case False
    with assms show ?thesis by (auto simp: t count_vote_eq)
  qed
qed

lemma count_votes_voters:
  assumes "voters ws t" "\<forall>w \<in> set ws. valid_yes L flags chain bh height committee filt w"
  shows "\<exists>ws'. voters ws' (count_votes L flags chain bh height committee filt rs t) \<and>
           set ws' \<subseteq> set rs \<union> set ws \<and>
           (\<forall>w \<in> set ws'. valid_yes L flags chain bh height committee filt w)"
  using assms
proof (induction rs arbitrary: ws t)
  case (Cons r rs)
  obtain ws1 where v: "voters ws1 (count_vote L flags chain bh height committee filt r t)"
    and ws1: "ws1 = ws \<or> ws1 = r # ws \<and> valid_yes L flags chain bh height committee filt r"
    using count_vote_voters [OF Cons.prems(1)] by blast
  then have "\<forall>w \<in> set ws1. valid_yes L flags chain bh height committee filt w"
    using Cons.prems(2) by auto
  from Cons.IH [OF v this] ws1 show ?case by (auto; blast)
qed auto

lemma countEligibleYes_voters:
  obtains ws where "set ws \<subseteq> set rs" "distinct (map r_PeerID ws)"
    "distinct (filter (\<lambda>k. k \<noteq> []) (map key_of ws))"
    "\<forall>w \<in> set ws. valid_yes L flags chain bh height committee filt w"
    "countEligibleYes L flags chain rs bh height committee filt = length ws"
proof -
  have "voters [] ({}, {}, 0)" by (simp add: voters_def)
  from count_votes_voters [OF this, of L flags chain bh height committee filt rs] that show ?thesis
    by (auto simp: voters_def countEligibleYes_def)
qed

definition yes_voters ::
  "bls_lib \<Rightarrow> hardening_flags \<Rightarrow> u64 \<Rightarrow> bls_response list \<Rightarrow> string \<Rightarrow> u64 \<Rightarrow> go_map \<Rightarrow> string set" where
  "yes_voters L flags chain rs bh height committee =
     r_PeerID ` {r \<in> set rs. valid_yes L flags chain bh height committee True r}"

text \<open>
  With distinct bound keys the order of the responses and the duplicates among them
  do not matter: the count is the number of members with some valid vote.
\<close>

definition keys_bound :: "go_map \<Rightarrow> bool" where
  "keys_bound committee \<longleftrightarrow> [] \<notin> snd ` set committee \<and> distinct (map fst committee) \<and> distinct (map snd committee)"

lemma keys_bound_member:
  assumes "keys_bound committee" "valid_yes L flags chain bh height committee True r"
  shows "(r_PeerID r, key_of r) \<in> set committee" "key_of r \<noteq> []"
proof -
  obtain k where k: "map_of committee (r_PeerID r) = Some k" "k = [] \<or> key_of r = k"
    using assms(2) by (auto simp: valid_yes_def member_ok_def split: option.splits)
  moreover from k have "k \<noteq> []" using assms(1) map_of_SomeD by (force simp: keys_bound_def)
  ultimately show "(r_PeerID r, key_of r) \<in> set committee" "key_of r \<noteq> []"
    using map_of_SomeD by fastforce+
qed

lemma keys_bound_inj:
  "keys_bound committee \<Longrightarrow> (p, k) \<in> set committee \<Longrightarrow> (q, k) \<in> set committee \<Longrightarrow> p = q"
  by (metis keys_bound_def distinct_map inj_on_eq_iff prod.inject snd_conv)

lemma count_votes_peers:
  assumes "keys_bound committee" "voters ws t"
    and "\<forall>w \<in> set ws. valid_yes L flags chain bh height committee True w"
  shows "fst (count_votes L flags chain bh height committee True rs t)
      = fst t \<union> yes_voters L flags chain rs bh height committee"
  using assms(2,3)
proof (induction rs arbitrary: ws t)
  case (Cons r rs)
  let ?V = "valid_yes L flags chain bh height committee True"
  obtain ws1 where v: "voters ws1 (count_vote L flags chain bh height committee True r t)"
    and ws1: "ws1 = ws \<or> ws1 = r # ws \<and> ?V r"
    using count_vote_voters [OF Cons.prems(1)] by blast
  have "\<forall>w \<in> set ws1. ?V w" using ws1 Cons.prems(2) by auto
  note IH = Cons.IH [OF v this]
  obtain cp ck yes where t: "t = (cp, ck, yes)" by (cases t)
  have "r_PeerID r \<in> cp" if V: "?V r" and key: "key_of r \<in> ck" "key_of r \<noteq> []"
  proof -
    obtain w where w: "w \<in> set ws" "key_of w = key_of r"
      using key Cons.prems(1) by (auto simp: voters_def t)
    with Cons.prems(2) have "?V w" by blast
    with V w(2) assms(1) have "r_PeerID r = r_PeerID w"
      using keys_bound_member(1) keys_bound_inj by metis
    with w(1) Cons.prems(1) show ?thesis by (auto simp: voters_def t)
  qed
  then have "fst (count_vote L flags chain bh height committee True r t)
      = fst t \<union> (if ?V r then {r_PeerID r} else {})"
    by (auto simp: count_vote_eq t)
  with IH show ?case by (auto simp: yes_voters_def)
qed (auto simp: yes_voters_def)

lemma countEligibleYes_exact:
  assumes "keys_bound committee"
  shows "countEligibleYes L flags chain rs bh height committee True
      = card (yes_voters L flags chain rs bh height committee)"
proof -
  have v0: "voters [] ({}, {}, 0)" by (simp add: voters_def)
  from count_votes_voters [OF v0, of L flags chain bh height committee True rs]
  obtain ws where ws: "voters ws (count_votes L flags chain bh height committee True rs ({}, {}, 0))"
    by auto
  then have "countEligibleYes L flags chain rs bh height committee True
      = card (fst (count_votes L flags chain bh height committee True rs ({}, {}, 0)))"
    by (auto simp: voters_def countEligibleYes_def distinct_card simp flip: set_map)
  with count_votes_peers [OF assms v0, of L flags chain bh height rs] show ?thesis by simp
qed

subsection \<open>Signed messages behind a certificate\<close>

lemma normalizeBLSPub_decoded:
  assumes "hex_decode s = Some bs"
  shows "hex_decode (normalizeBLSPub s) = Some bs"
proof -
  have "TrimSpace s = s"
    using hex_decode_chars [OF assms] hex_val_not_space by (intro TrimSpace_no_space) blast
  moreover have dec: "hex_decode (ToLower s) = Some bs" using assms by simp
  have "TrimPrefix (ToLower s) ''0x'' = ToLower s"
  proof (rule ccontr)
    assume "\<not> ?thesis"
    then have "take 2 (ToLower s) = ''0x''" by (auto simp: TrimPrefix_def numeral_2_eq_2 split: if_splits)
    then have "CHR ''x'' \<in> set (ToLower s)" by (metis in_set_takeD list.set_intros)
    from hex_decode_chars [OF dec this] show False by (simp add: hex_val_def)
  qed
  ultimately show ?thesis by (simp add: normalizeBLSPub_def assms)
qed

definition signed_yes :: "bls_lib \<Rightarrow> u64 \<Rightarrow> u64 \<Rightarrow> string \<Rightarrow> string \<Rightarrow> bool" where
  "signed_yes L chain height bh key \<longleftrightarrow>
     (\<exists>pub m sig. hex_decode key = Some pub \<and>
        CanonicalVoteMessageV3 chain height bh 1 = Some m \<and> BLSVerify L pub m sig)"

lemma valid_yes_signed:
  assumes "valid_yes L flags chain bh height committee True r" "RejectLegacyVotes flags"
    and "[] \<notin> snd ` set committee"
  shows "\<exists>key. map_of committee (r_PeerID r) = Some key \<and> signed_yes L chain height bh key"
proof -
  from assms obtain key where key: "map_of committee (r_PeerID r) = Some key"
    "key = [] \<or> key_of r = key" and ver: "VerifyForBlock L r chain height bh 1"
    by (auto simp: valid_yes_def member_ok_def split: option.splits)
  moreover have "key \<noteq> []" using key(1) assms(3) map_of_SomeD by force
  ultimately show ?thesis
    by (auto simp: signed_yes_def VerifyForBlock_def split: option.splits dest: normalizeBLSPub_decoded)
qed

lemma reached_signers:
  assumes cert: "VerifyCertificate L flags cfg source rs bh height = Inr res" "Reached res"
    and committee: "eligibleMembers cfg source = Inr committee" "[] \<notin> snd ` set committee"
    and flags: "RejectLegacyVotes flags" "EnforceCommitteeRegistry flags"
  obtains S where "S \<subseteq> fst ` set committee"
    "ByzantineQuorum (int (card (fst ` set committee))) \<le> int (card S)"
    "\<forall>p \<in> S. \<exists>key. map_of committee p = Some key \<and> signed_yes L (DomainChainID cfg) height bh key"
proof -
  obtain ws where ws: "set ws \<subseteq> set rs" "distinct (map r_PeerID ws)"
    "\<forall>w \<in> set ws. valid_yes L flags (DomainChainID cfg) bh height committee True w"
    "countEligibleYes L flags (DomainChainID cfg) rs bh height committee True = length ws"
    by (rule countEligibleYes_voters)
  have "ByzantineQuorum (int (card (fst ` set committee))) \<le> int (card (r_PeerID ` set ws))"
    using cert committee(1) flags ws(2,4) eligible_card [OF committee(1)]
    by (auto simp: VerifyCertificate_def Let_def distinct_card simp flip: set_map)
  moreover have sgn: "\<exists>key. map_of committee p = Some key \<and> signed_yes L (DomainChainID cfg) height bh key"
    if "p \<in> r_PeerID ` set ws" for p
    using that ws(3) valid_yes_signed flags(1) committee(2) by blast
  moreover from sgn have "r_PeerID ` set ws \<subseteq> fst ` set committee"
    by (metis map_of_eq_None_iff option.distinct(1) subsetI)
  ultimately show ?thesis by (intro that) auto
qed

text \<open>Two certificates at one height share a signer outside any set of at most \<open>f\<close> members.\<close>

lemma common_signer:
  assumes "VerifyCertificate L flags cfg source rs bh height = Inr res" "Reached res"
    and "VerifyCertificate L flags cfg source rs' bh' height = Inr res'" "Reached res'"
    and committee: "eligibleMembers cfg source = Inr committee" "[] \<notin> snd ` set committee"
    and flags: "RejectLegacyVotes flags" "EnforceCommitteeRegistry flags"
    and faulty: "F \<subseteq> fst ` set committee" "int (card F) \<le> ByzantineTolerance (int (length committee))"
  obtains p key where "p \<notin> F" "map_of committee p = Some key"
    "signed_yes L (DomainChainID cfg) height bh key" "signed_yes L (DomainChainID cfg) height bh' key"
proof -
  obtain S where S: "S \<subseteq> fst ` set committee" "ByzantineQuorum (int (card (fst ` set committee))) \<le> int (card S)"
    "\<forall>p \<in> S. \<exists>key. map_of committee p = Some key \<and> signed_yes L (DomainChainID cfg) height bh key"
    by (rule reached_signers [OF assms(1,2,5-8)])
  obtain T where T: "T \<subseteq> fst ` set committee" "ByzantineQuorum (int (card (fst ` set committee))) \<le> int (card T)"
    "\<forall>p \<in> T. \<exists>key. map_of committee p = Some key \<and> signed_yes L (DomainChainID cfg) height bh' key"
    by (rule reached_signers [OF assms(3-8)])
  have ne: "fst ` set committee \<noteq> {}" using eligible_nonempty [OF committee(1)] by simp
  obtain p where "p \<in> S" "p \<in> T" "p \<notin> F"
    by (rule cert_quorum.quorum_honest [OF _ S(1) T(1) ne S(2) T(2) faulty(1)])
       (use faulty(2) eligible_card [OF committee(1)] in auto)
  from bspec [OF S(3) \<open>p \<in> S\<close>] bspec [OF T(3) \<open>p \<in> T\<close>]
  obtain key where "map_of committee p = Some key" "signed_yes L (DomainChainID cfg) height bh key"
    "signed_yes L (DomainChainID cfg) height bh' key" by auto
  with \<open>p \<notin> F\<close> show ?thesis by (rule that)
qed

subsection \<open>Properties\<close>

text \<open>
  C16. Accountable agreement. If certificates for two different blocks at one height
  both verify against the authenticated committee (every member with a bound key,
  block-bound votes only), then more than \<^verbatim>\<open>f = floor((n-1)/3)\<close> committee members
  have valid signatures, under the key the committee binds to them, on agreeing
  votes for both blocks.
\<close>
theorem conflicting_certificates_accountable:
  assumes "VerifyCertificate L flags cfg source rs bh height = Inr res" "Reached res"
    and "VerifyCertificate L flags cfg source rs' bh' height = Inr res'" "Reached res'"
    and committee: "eligibleMembers cfg source = Inr committee" "[] \<notin> snd ` set committee"
    and "RejectLegacyVotes flags" "EnforceCommitteeRegistry flags"
  shows "\<exists>D. D \<subseteq> fst ` set committee \<and>
     ByzantineTolerance (int (length committee)) < int (card D) \<and>
     (\<forall>p \<in> D. \<exists>key. map_of committee p = Some key \<and>
        signed_yes L (DomainChainID cfg) height bh key \<and> signed_yes L (DomainChainID cfg) height bh' key)"
proof -
  obtain S where S: "S \<subseteq> fst ` set committee" "ByzantineQuorum (int (card (fst ` set committee))) \<le> int (card S)"
    "\<forall>p \<in> S. \<exists>key. map_of committee p = Some key \<and> signed_yes L (DomainChainID cfg) height bh key"
    by (rule reached_signers [OF assms(1,2,5-8)])
  obtain T where T: "T \<subseteq> fst ` set committee" "ByzantineQuorum (int (card (fst ` set committee))) \<le> int (card T)"
    "\<forall>p \<in> T. \<exists>key. map_of committee p = Some key \<and> signed_yes L (DomainChainID cfg) height bh' key"
    by (rule reached_signers [OF assms(3-8)])
  note n = eligible_card [OF committee(1)]
  have "ByzantineTolerance (int (length committee)) + 1 \<le> int (card (S \<inter> T))"
    using cert_quorum.quorum_overlap [of "fst ` set committee" S T] S T eligible_nonempty [OF committee(1)]
    by (simp add: n)
  moreover have "\<exists>key. map_of committee p = Some key \<and> signed_yes L (DomainChainID cfg) height bh key \<and>
      signed_yes L (DomainChainID cfg) height bh' key" if "p \<in> S \<inter> T" for p
    using bspec [OF S(3), of p] bspec [OF T(3), of p] that by auto
  ultimately show ?thesis using S(1) by (intro exI [of _ "S \<inter> T"]) auto
qed

text \<open>Concrete instances: a committee of four, of which three vote.\<close>

definition demo_settings :: consensus_settings where
  "demo_settings = \<lparr>s_BlockBuddy = [], s_MaxValidators = 7, s_SeedAuthorityBLSPub = [], s_ChainID = 7\<rparr>"

definition demo_committee :: go_map where
  "demo_committee = [(''a'', ''01''), (''b'', ''02''), (''c'', ''03''), (''d'', ''04'')]"

definition demo_vote :: "string \<Rightarrow> string \<Rightarrow> bls_response" where
  "demo_vote p k = \<lparr>r_Signature = [], r_Agree = True, r_PubKey = k, r_PeerID = p, r_RejectionReasons = Map.empty\<rparr>"

definition demo_votes :: "bls_response list" where
  "demo_votes = [demo_vote ''a'' ''01'', demo_vote ''b'' ''02'', demo_vote ''b'' ''02'', demo_vote ''c'' ''03'']"

definition demo_flags :: hardening_flags where
  "demo_flags = flags_from_env Map.empty"

definition accept_all :: bls_lib where
  "accept_all = \<lparr>lib_NewPublicKey = (\<lambda>_. True), lib_Verify = (\<lambda>_ _ _. True), lib_Sign = (\<lambda>_ m. Some m)\<rparr>"

text \<open>A library under which only one block-bound vote message has signatures.\<close>

definition one_message :: bls_lib where
  "one_message = \<lparr>lib_NewPublicKey = (\<lambda>_. True),
     lib_Verify = (\<lambda>_ m _. CanonicalVoteMessageV3 7 5 ''0xaa'' 1 = Some m), lib_Sign = (\<lambda>_ m. Some m)\<rparr>"

lemma demo_eligible:
  "eligibleMembers (Some demo_settings) (Some (Inr demo_committee)) = Inr demo_committee"
  by code_simp

lemma demo_flags [simp]: "RejectLegacyVotes demo_flags" "EnforceCommitteeRegistry demo_flags"
  by (simp_all add: demo_flags_def flags_from_env_def envOn_def)

lemma demo_chain [simp]: "DomainChainID (Some demo_settings) = 7"
  by (simp add: DomainChainID_def demo_settings_def)

lemma demo_norm [simp]:
  "normalizeBindings ''0xaa'' = ''0xaa''" "normalizeBindings '' 0xAA'' = ''0xaa''" "normalizeBindings ''0xbb'' = ''0xbb''"
  by code_simp+

lemma demo_decode [simp]:
  "hex_decode ''01'' = Some [1]" "hex_decode ''02'' = Some [2]" "hex_decode ''03'' = Some [3]"
  "normalizeBLSPub ''01'' = ''01''" "normalizeBLSPub ''02'' = ''02''" "normalizeBLSPub ''03'' = ''03''"
  by code_simp+

lemma demo_count:
  assumes "\<And>pub. BLSVerify L pub m []" "CanonicalVoteMessageV3 7 5 bh 1 = Some m"
  shows "countEligibleYes L demo_flags 7 demo_votes bh 5 demo_committee True = 3"
  using assms
  by (simp add: countEligibleYes_def demo_votes_def count_vote_eq valid_yes_def member_ok_def
      demo_vote_def demo_committee_def VerifyForBlock_def del: hex_decode.simps(2,3))

lemma demo_certificate:
  assumes "\<And>pub. BLSVerify L pub m []" "CanonicalVoteMessageV3 7 5 bh 1 = Some m"
  shows "VerifyCertificate L demo_flags (Some demo_settings) (Some (Inr demo_committee)) demo_votes bh 5
     = Inr \<lparr>CommitteeSize = 4, Threshold = 3, YesVotes = 3, Reached = True\<rparr>"
  using demo_count [OF assms]
  by (simp add: VerifyCertificate_def demo_eligible ByzantineQuorum_def Let_def)
     (simp add: demo_committee_def)

lemma demo_message: "\<exists>m. CanonicalVoteMessageV3 7 5 ''0xaa'' 1 = Some m" "\<exists>m. CanonicalVoteMessageV3 7 5 ''0xbb'' 1 = Some m"
  by (simp_all add: CanonicalVoteMessageV3_def)

lemma demo_message_norm: "CanonicalVoteMessageV3 7 5 '' 0xAA'' 1 = CanonicalVoteMessageV3 7 5 ''0xaa'' 1"
  by (simp add: CanonicalVoteMessageV3_def)

theorem conflicting_certificates_accountable_witness:
  "\<exists>D. D \<subseteq> fst ` set demo_committee \<and> 1 < int (card D) \<and>
     (\<forall>p \<in> D. \<exists>key. map_of demo_committee p = Some key \<and>
        signed_yes accept_all 7 5 ''0xaa'' key \<and> signed_yes accept_all 7 5 ''0xbb'' key)"
proof -
  have ver: "BLSVerify accept_all pub m []" for pub m by (simp add: BLSVerify_def accept_all_def)
  obtain m m' where m: "CanonicalVoteMessageV3 7 5 ''0xaa'' 1 = Some m" "CanonicalVoteMessageV3 7 5 ''0xbb'' 1 = Some m'"
    using demo_message by blast
  have "ByzantineTolerance (int (length demo_committee)) = 1"
    by (simp add: demo_committee_def quorum_defs)
  with conflicting_certificates_accountable [OF demo_certificate [OF ver m(1)] _
      demo_certificate [OF ver m(2)] _ demo_eligible]
  show ?thesis by (simp add: demo_committee_def)
qed

text \<open>
  C15. Agreement. If at most \<^verbatim>\<open>f\<close> members are faulty and every other member's key
  signs an agreeing vote for at most one block per height, then two certificates
  that verify at one height are for the same block hash.
\<close>
theorem certificate_agreement:
  assumes "VerifyCertificate L flags cfg source rs bh height = Inr res" "Reached res"
    and "VerifyCertificate L flags cfg source rs' bh' height = Inr res'" "Reached res'"
    and committee: "eligibleMembers cfg source = Inr committee" "[] \<notin> snd ` set committee"
    and flags: "RejectLegacyVotes flags" "EnforceCommitteeRegistry flags"
    and faulty: "F \<subseteq> fst ` set committee" "int (card F) \<le> ByzantineTolerance (int (length committee))"
    and honest: "\<And>p key b b'. p \<notin> F \<Longrightarrow> map_of committee p = Some key \<Longrightarrow>
        signed_yes L (DomainChainID cfg) height b key \<Longrightarrow> signed_yes L (DomainChainID cfg) height b' key \<Longrightarrow>
        normalizeBindings b = normalizeBindings b'"
  shows "normalizeBindings bh = normalizeBindings bh'"
proof -
  obtain p key where "p \<notin> F" "map_of committee p = Some key"
    "signed_yes L (DomainChainID cfg) height bh key" "signed_yes L (DomainChainID cfg) height bh' key"
    by (rule common_signer [OF assms(1-10)])
  with honest show ?thesis by blast
qed

theorem certificate_agreement_witness:
  "normalizeBindings '' 0xAA'' = normalizeBindings ''0xaa''"
proof -
  obtain m where m: "CanonicalVoteMessageV3 7 5 ''0xaa'' 1 = Some m" using demo_message by blast
  have ver: "BLSVerify one_message pub m' [] \<longleftrightarrow> m' = m" for pub m'
    using m by (auto simp: BLSVerify_def one_message_def)
  have only: "normalizeBindings b = ''0xaa''" if "signed_yes one_message 7 5 b key" for b key
    using that m CanonicalVoteMessageV3_inj [of 7 5 b 1 m 7 5 "''0xaa''" 1]
    by (auto simp: signed_yes_def one_message_def BLSVerify_def)
  show ?thesis
  proof (rule certificate_agreement [where F = "{}" and L = one_message and flags = demo_flags,
        OF demo_certificate _ demo_certificate _ demo_eligible])
    show "CanonicalVoteMessageV3 7 5 '' 0xAA'' 1 = Some m" by (simp add: demo_message_norm m)
    show "CanonicalVoteMessageV3 7 5 ''0xaa'' 1 = Some m" by (rule m)
    show "int (card ({} :: string set)) \<le> ByzantineTolerance (int (length demo_committee))"
      by (simp add: quorum_defs demo_committee_def)
    show "[] \<notin> snd ` set demo_committee" by (simp add: demo_committee_def)
  qed (use only in \<open>auto simp: ver\<close>)
qed

text \<open>
  C17. Every certificate result is exact and bounded: for a committee whose members
  have pairwise different bound keys, the vote count is the number of members with
  at least one valid agreeing vote among the responses, so neither duplicated
  responses, nor one key presented for several peers, nor the order of the
  responses changes the outcome, and the certificate is reached exactly when that
  number is at least \<^verbatim>\<open>ceil(2n/3)\<close>.
\<close>
theorem certificate_counts_members:
  assumes "eligibleMembers cfg source = Inr committee" "keys_bound committee"
    and "EnforceCommitteeRegistry flags"
    and "V = yes_voters L flags (DomainChainID cfg) rs bh height committee"
  shows "VerifyCertificate L flags cfg source rs bh height =
      Inr \<lparr>CommitteeSize = int (length committee), Threshold = ByzantineQuorum (int (length committee)),
           YesVotes = int (card V), Reached = (ByzantineQuorum (int (length committee)) \<le> int (card V))\<rparr>
    \<and> V \<subseteq> fst ` set committee \<and> card V \<le> length committee"
proof -
  have sub: "V \<subseteq> fst ` set committee"
    unfolding assms(4) yes_voters_def
    by (auto dest!: keys_bound_member(1) [OF assms(2)] intro: image_eqI [rotated])
  moreover have "card V \<le> length committee"
    using card_mono [OF _ sub] eligible_card [OF assms(1)] by simp
  ultimately show ?thesis
    using assms(1,3) countEligibleYes_exact [OF assms(2)] by (simp add: VerifyCertificate_def assms(4) Let_def)
qed

theorem certificate_counts_members_witness:
  "\<exists>res. VerifyCertificate accept_all demo_flags (Some demo_settings) (Some (Inr demo_committee)) demo_votes ''0xaa'' 5 = Inr res
     \<and> YesVotes res \<le> 4"
proof -
  have "keys_bound demo_committee" by (simp add: keys_bound_def demo_committee_def)
  from certificate_counts_members [OF demo_eligible this demo_flags(2) refl, of accept_all demo_votes "''0xaa''" 5]
  show ?thesis by (auto simp: demo_committee_def)
qed

text \<open>
  Every node derives the same committee from the same authenticated source: if no
  two source entries collide after trimming, the eligible set does not depend on the
  iteration order of the source map, contains no blocked and no empty id, has no
  duplicates, and is never larger than the configured cap.
\<close>
theorem committee_deterministic:
  assumes "set bs = set bs'" "distinct bs" "distinct bs'"
    and "\<forall>b \<in> set bs. \<forall>c \<in> set bs. TrimSpace (fst b) = TrimSpace (fst c) \<longrightarrow> b = c"
    and "eligibleMembers cfg (Some (Inr bs)) = Inr committee"
  shows "\<exists>committee'. eligibleMembers cfg (Some (Inr bs')) = Inr committee' \<and>
      map_of committee = map_of committee' \<and> length committee = length committee' \<and>
      distinct (map fst committee) \<and> [] \<notin> fst ` set committee \<and>
      fst ` set committee \<inter> set (blockedBuddies cfg) = {} \<and>
      (0 < committeeSizeLimit cfg \<longrightarrow> int (length committee) \<le> committeeSizeLimit cfg)"
proof -
  let ?e = "collect_eligible (blockedBuddies cfg) bs []"
  let ?e' = "collect_eligible (blockedBuddies cfg) bs' []"
  have c: "committee = cap_committee (committeeSizeLimit cfg) ?e" "?e \<noteq> []"
    using assms(5) by (auto elim: eligibleMembers_cases)
  have "map_of ?e p = Some v \<longleftrightarrow> map_of ?e' p = Some v" for p v
    using collect_eligible_lookup [of bs "[]" "blockedBuddies cfg" p v]
      collect_eligible_lookup [of bs' "[]" "blockedBuddies cfg" p v] assms(1-4) by simp
  then have e: "map_of ?e = map_of ?e'" by (metis ext not_Some_eq)
  then have ne: "?e' \<noteq> []" "bs' \<noteq> []" using c(2) by (auto simp: map_of_eq_empty_iff)
  have d: "distinct (map fst ?e)" "distinct (map fst ?e')"
    by (simp_all add: distinct_collect_eligible)
  have "fst ` set committee \<subseteq> {p. p \<noteq> [] \<and> p \<notin> set (blockedBuddies cfg)}"
    using cap_committee_keys_subset [of "committeeSizeLimit cfg" ?e] collect_eligible_keys [of _ bs "[]"]
    unfolding c(1) by fastforce
  moreover have "eligibleMembers cfg (Some (Inr bs')) = Inr (cap_committee (committeeSizeLimit cfg) ?e')"
    using ne by (simp add: eligibleMembers_def)
  ultimately show ?thesis
    using cap_committee_cong [OF d e] eligible_distinct [OF assms(5)] length_cap_committee
    by (auto simp: c(1))
qed

theorem committee_deterministic_witness:
  "\<exists>committee'. eligibleMembers (Some (demo_settings \<lparr>s_MaxValidators := 2, s_BlockBuddy := ['' a '']\<rparr>))
      (Some (Inr [(''c'', ''03''), ('' b'', ''0X02''), (''d'', ''04''), (''a'', ''01'')])) = Inr committee'
    \<and> map_of committee' ''b'' = Some ''02'' \<and> map_of committee' ''d'' = None"
proof -
  let ?cfg = "Some (demo_settings \<lparr>s_MaxValidators := 2, s_BlockBuddy := ['' a '']\<rparr>)"
  let ?bs = "[(''a'', ''01''), ('' b'', ''0X02''), (''c'', ''03''), (''d'', ''04'')]"
  let ?bs' = "[(''c'', ''03''), ('' b'', ''0X02''), (''d'', ''04''), (''a'', ''01'')]"
  have e: "eligibleMembers ?cfg (Some (Inr ?bs)) = Inr [(''b'', ''02''), (''c'', ''03'')]"
    by code_simp
  have "set ?bs = set ?bs'" "distinct ?bs" "distinct ?bs'"
    "\<forall>b \<in> set ?bs. \<forall>c \<in> set ?bs. TrimSpace (fst b) = TrimSpace (fst c) \<longrightarrow> b = c"
    by (auto simp: TrimSpace_def is_space_def)
  from committee_deterministic [OF this e] obtain c
    where "eligibleMembers ?cfg (Some (Inr ?bs')) = Inr c" "map_of [(''b'', ''02''), (''c'', ''03'')] = map_of c"
    by (elim exE conjE)
  then show ?thesis by (intro exI [of _ c] conjI) (simp_all flip: \<open>_ = map_of c\<close>)
qed

end
