(* ===== verification/Security.thy ===== *)
theory Security
  imports ZKBlock
begin

text \<open>
  Stateless transaction and block checks of \<^verbatim>\<open>src/Security/Security.go\<close>: signature
  authenticity, the binding of \<^verbatim>\<open>tx.Hash\<close> and of the block hash to transaction
  contents, and the value gate. go-ethereum is third-party code: its transaction
  values are the datatype \<open>eth_tx\<close>, its content hash, sender recovery and Keccak-256
  are the functions of a \<open>geth\<close> record, passed as an argument. The cached signers
  are the state \<open>signer_cache\<close>.
\<close>

subsection \<open>The interface of go-ethereum\<close>

datatype eth_tx =
    DynamicFeeTx "int option" u64 "addr option" "int option" "int option" "int option" u64
      "byte list" "access_tuple list" "int option" "int option" "int option"
  | AccessListTx "int option" u64 "addr option" "int option" "int option" u64
      "byte list" "access_tuple list" "int option" "int option" "int option"
  | LegacyTx u64 "addr option" "int option" "int option" u64
      "byte list" "int option" "int option" "int option"

datatype signer =
    LatestSigner "int option"
  | EIP155Signer "int option"
  | HomesteadSigner

record geth =
  geth_Hash :: "eth_tx \<Rightarrow> hash"
  geth_Sender :: "signer \<Rightarrow> eth_tx \<Rightarrow> addr option"
  geth_Keccak256 :: "byte list \<Rightarrow> byte list"

text \<open>\<^verbatim>\<open>common.BytesToHash\<close>: crop from the left, pad on the left.\<close>

definition BytesToHash :: "byte list \<Rightarrow> hash" where
  "BytesToHash b = (if length b > 32 then drop (length b - 32) b else replicate (32 - length b) 0 @ b)"

lemma BytesToHash_32 [simp]: "length b = 32 \<Longrightarrow> BytesToHash b = b"
  by (simp add: BytesToHash_def)

lemma wf_BytesToHash [simp]: "wf_hash (BytesToHash b)"
  by (simp add: BytesToHash_def wf_hash_def)

subsection \<open>Signer cache\<close>

record signer_cache =
  expectedChainID :: "int option"
  cachedLatestSigner :: "signer option"
  cachedEIP155Signer :: "signer option"

definition rebuildSignerCache :: "signer_cache \<Rightarrow> signer_cache" where
  "rebuildSignerCache c =
     (case expectedChainID c of
        None \<Rightarrow> c
      | Some i \<Rightarrow> c\<lparr>cachedLatestSigner := Some (LatestSigner (Some i)),
                     cachedEIP155Signer := Some (EIP155Signer (Some i))\<rparr>)"

definition SetExpectedChainID :: "int \<Rightarrow> signer_cache \<Rightarrow> signer_cache" where
  "SetExpectedChainID i c = rebuildSignerCache (c\<lparr>expectedChainID := Some i\<rparr>)"

definition SetExpectedChainIDBig :: "int option \<Rightarrow> signer_cache \<Rightarrow> signer_cache" where
  "SetExpectedChainIDBig i c =
     (case i of
        None \<Rightarrow> c\<lparr>expectedChainID := None\<rparr>
      | Some j \<Rightarrow> rebuildSignerCache (c\<lparr>expectedChainID := Some j\<rparr>))"

subsection \<open>Transactions as go-ethereum values\<close>

definition ethTxFromConfig :: "transaction \<Rightarrow> eth_tx" where
  "ethTxFromConfig tx =
     (if tx_Type tx = 2 then
        DynamicFeeTx (tx_ChainID tx) (tx_Nonce tx) (tx_To tx) (tx_Value tx) (tx_MaxPriorityFee tx)
          (tx_MaxFee tx) (tx_GasLimit tx) (tx_Data tx) (tx_AccessList tx) (tx_V tx) (tx_R tx) (tx_S tx)
      else if tx_Type tx = 1 then
        AccessListTx (tx_ChainID tx) (tx_Nonce tx) (tx_To tx) (tx_Value tx) (tx_GasPrice tx)
          (tx_GasLimit tx) (tx_Data tx) (tx_AccessList tx) (tx_V tx) (tx_R tx) (tx_S tx)
      else
        LegacyTx (tx_Nonce tx) (tx_To tx) (tx_Value tx) (tx_GasPrice tx) (tx_GasLimit tx)
          (tx_Data tx) (tx_V tx) (tx_R tx) (tx_S tx))"

datatype sec_error =
    MissingSignatureFields
  | SenderRecoveryFailed
  | SenderMismatch
  | TxHashMismatch
  | NegativeValue | NegativeGasPrice | NegativeMaxFee | NegativePriorityFee | TipAboveMaxFee
  | BlockHashMismatch

text \<open>
  \<^verbatim>\<open>CheckSignature\<close>. \<^verbatim>\<open>big.Int.Uint64\<close> is the low 64 bits of the magnitude. A nil
  cached signer is replaced by one for the chain id the transaction claims.
\<close>

definition recover_result :: "addr \<Rightarrow> addr option \<Rightarrow> sec_error option" where
  "recover_result sender res =
     (case res of
        None \<Rightarrow> Some SenderRecoveryFailed
      | Some a \<Rightarrow> if a = sender then None else Some SenderMismatch)"

definition CheckSignature :: "geth \<Rightarrow> signer_cache \<Rightarrow> transaction \<Rightarrow> sec_error option" where
  "CheckSignature G cache tx =
     (case tx_From tx of
        None \<Rightarrow> Some MissingSignatureFields
      | Some sender \<Rightarrow>
          if tx_V tx = None \<or> tx_R tx = None \<or> tx_S tx = None then Some MissingSignatureFields
          else
            let ethTx = ethTxFromConfig tx;
                v = (case tx_V tx of None \<Rightarrow> 0 | Some i \<Rightarrow> (word_of_int (abs i) :: u64))
            in if tx_Type tx = 2 \<or> tx_Type tx = 1 then
                 recover_result sender (geth_Sender G
                   (case cachedLatestSigner cache of Some s \<Rightarrow> s | None \<Rightarrow> LatestSigner (tx_ChainID tx)) ethTx)
               else if (v = 27 \<or> v = 28) \<and> geth_Sender G HomesteadSigner ethTx = Some sender then None
               else recover_result sender (geth_Sender G
                   (case cachedEIP155Signer cache of Some s \<Rightarrow> s | None \<Rightarrow> EIP155Signer (tx_ChainID tx)) ethTx))"

definition CheckTransactionHash :: "geth \<Rightarrow> transaction \<Rightarrow> sec_error option" where
  "CheckTransactionHash G tx =
     (if geth_Hash G (ethTxFromConfig tx) \<noteq> tx_Hash tx then Some TxHashMismatch else None)"

definition negative :: "int option \<Rightarrow> bool" where
  "negative x = (case x of None \<Rightarrow> False | Some v \<Rightarrow> v < 0)"

definition CheckTransactionValues :: "transaction \<Rightarrow> sec_error option" where
  "CheckTransactionValues tx =
     (if negative (tx_Value tx) then Some NegativeValue
      else if negative (tx_GasPrice tx) then Some NegativeGasPrice
      else if negative (tx_MaxFee tx) then Some NegativeMaxFee
      else if negative (tx_MaxPriorityFee tx) then Some NegativePriorityFee
      else case (tx_MaxFee tx, tx_MaxPriorityFee tx) of
             (Some mf, Some tip) \<Rightarrow> if tip > mf then Some TipAboveMaxFee else None
           | _ \<Rightarrow> None)"

definition RecomputeBlockHashFromContents :: "geth \<Rightarrow> transaction list \<Rightarrow> hash" where
  "RecomputeBlockHashFromContents G txs =
     (if txs = [] then zero_hash
      else BytesToHash (geth_Keccak256 G (concat (map (geth_Hash G \<circ> ethTxFromConfig) txs))))"

definition CheckBlockHash :: "geth \<Rightarrow> zkblock \<Rightarrow> sec_error option" where
  "CheckBlockHash G block =
     (if b_BlockHash block \<noteq> RecomputeBlockHashFromContents G (b_Transactions block)
      then Some BlockHashMismatch else None)"

subsection \<open>What the checks establish\<close>

text \<open>
  A verified signature is one recovered from the transaction's own contents, for the
  node's chain once a chain id is configured (or by the Homestead rule, for a
  legacy transaction whose V is 27 or 28).
\<close>

lemma recover_result_None [simp]: "recover_result sender r = None \<longleftrightarrow> r = Some sender"
  by (simp add: recover_result_def split: option.splits)

lemma CheckSignature_None:
  "CheckSignature G cache tx = None \<longleftrightarrow>
     (\<exists>sender. tx_From tx = Some sender \<and> tx_V tx \<noteq> None \<and> tx_R tx \<noteq> None \<and> tx_S tx \<noteq> None \<and>
       (if tx_Type tx = 2 \<or> tx_Type tx = 1 then
          geth_Sender G (case cachedLatestSigner cache of Some s \<Rightarrow> s | None \<Rightarrow> LatestSigner (tx_ChainID tx))
            (ethTxFromConfig tx) = Some sender
        else
          (\<exists>i. tx_V tx = Some i \<and> (word_of_int (abs i) :: u64) \<in> {27, 28}) \<and>
            geth_Sender G HomesteadSigner (ethTxFromConfig tx) = Some sender \<or>
          geth_Sender G (case cachedEIP155Signer cache of Some s \<Rightarrow> s | None \<Rightarrow> EIP155Signer (tx_ChainID tx))
            (ethTxFromConfig tx) = Some sender))"
proof (cases "tx_From tx")
  case (Some sender)
  show ?thesis
  proof (cases "tx_V tx = None \<or> tx_R tx = None \<or> tx_S tx = None")
    case False
    then obtain v r t where "tx_V tx = Some v" "tx_R tx = Some r" "tx_S tx = Some t" by auto
    with Some show ?thesis by (simp add: CheckSignature_def Let_def)
  qed (auto simp: CheckSignature_def Some)
qed (simp add: CheckSignature_def)

lemma CheckTransactionValues_None:
  "CheckTransactionValues tx = None \<longleftrightarrow>
     (\<forall>v. tx_Value tx = Some v \<longrightarrow> 0 \<le> v) \<and> (\<forall>v. tx_GasPrice tx = Some v \<longrightarrow> 0 \<le> v) \<and>
     (\<forall>v. tx_MaxFee tx = Some v \<longrightarrow> 0 \<le> v) \<and> (\<forall>v. tx_MaxPriorityFee tx = Some v \<longrightarrow> 0 \<le> v) \<and>
     (\<forall>f t. tx_MaxFee tx = Some f \<longrightarrow> tx_MaxPriorityFee tx = Some t \<longrightarrow> t \<le> f)"
  by (auto simp: CheckTransactionValues_def negative_def split: option.splits)

lemma chain_bound_cache:
  "cachedLatestSigner (SetExpectedChainID i c) = Some (LatestSigner (Some i))"
  "cachedEIP155Signer (SetExpectedChainID i c) = Some (EIP155Signer (Some i))"
  by (simp_all add: SetExpectedChainID_def rebuildSignerCache_def)

lemma concat_hashes_inj:
  "\<forall>x \<in> set xs. wf_hash x \<Longrightarrow> \<forall>y \<in> set ys. wf_hash y \<Longrightarrow> concat xs = concat ys \<Longrightarrow> xs = ys"
proof (induction xs arbitrary: ys)
  case Nil
  show ?case
  proof (cases ys)
    case (Cons y ys')
    with Nil(2,3) have "length y = 32" "y = []" by (simp_all add: wf_hash_def)
    then show ?thesis by simp
  qed simp
next
  case (Cons x xs)
  have "concat ys \<noteq> []" using Cons.prems(1,3) by (auto simp: wf_hash_def simp del: concat_eq_Nil_conv)
  then obtain y ys' where ys: "ys = y # ys'" by (cases ys) simp_all
  with Cons.prems have "length x = length y" by (simp add: wf_hash_def)
  moreover have "x @ concat xs = y @ concat ys'" using Cons.prems(3) ys by simp
  ultimately have eq: "x = y" "concat xs = concat ys'" by simp_all
  have "xs = ys'" using Cons.prems(1,2) ys eq(2) by (intro Cons.IH) simp_all
  with eq(1) ys show ?case by simp
qed

end
