(* ===== verification/BodyBinding.thy ===== *)
theory BodyBinding
  imports Security
begin

text \<open>
  Canonical body binding of \<^verbatim>\<open>src/messaging/consensus_hardening.go\<close>: the block hash
  (Keccak-256 over the transaction hashes) and the transactions root (a SHA-256
  Merkle tree) recomputed from the received transactions. Both hash functions are
  arguments. The results are about the strings that are really hashed: injectivity
  is only ever assumed on those, never of a function with 32-byte results.
\<close>

text \<open>
  \<^verbatim>\<open>blockRejection\<close>: the machine-readable reason label. The formatted error text
  is only logged.
\<close>

type_synonym rejection = "string option"

subsection \<open>Recomputed hashes\<close>

definition tx_hash_bytes :: "transaction list \<Rightarrow> byte list" where
  "tx_hash_bytes txs = concat (map tx_Hash txs)"

definition RecomputeBlockHashFromTxs :: "(byte list \<Rightarrow> byte list) \<Rightarrow> transaction list \<Rightarrow> hash" where
  "RecomputeBlockHashFromTxs keccak txs =
     (if txs = [] then zero_hash else BytesToHash (keccak (tx_hash_bytes txs)))"

fun pair_up :: "(byte list \<Rightarrow> byte list) \<Rightarrow> byte list list \<Rightarrow> byte list list" where
  "pair_up sha (a # b # rest) = sha (a @ b) # pair_up sha rest"
| "pair_up sha [a] = []"
| "pair_up sha [] = []"

definition even_level :: "'a list \<Rightarrow> 'a list" where
  "even_level level = (if length level mod 2 = 1 then level @ [last level] else level)"

lemma length_pair_up: "length (pair_up sha xs) = length xs div 2"
  by (induction sha xs rule: pair_up.induct) auto

lemma length_even_level: "length (even_level xs) = 2 * ((length xs + 1) div 2)"
  unfolding even_level_def by auto presburger+

function merkle_levels :: "(byte list \<Rightarrow> byte list) \<Rightarrow> byte list list \<Rightarrow> byte list list" where
  "merkle_levels sha level =
     (if length level > 1 then merkle_levels sha (pair_up sha (even_level level)) else level)"
  by auto
termination
  by (relation "measure (\<lambda>(_, level). length level)") (auto simp: length_pair_up length_even_level)

declare merkle_levels.simps [simp del]

definition RecomputeTxnsRoot :: "(byte list \<Rightarrow> byte list) \<Rightarrow> transaction list \<Rightarrow> string" where
  "RecomputeTxnsRoot sha txs =
     (let level = map tx_Hash txs
      in case level of
           [] \<Rightarrow> ''0x'' @ replicate 64 CHR ''0''
         | [h] \<Rightarrow> ''0x'' @ hex_encode (sha (h @ h))
         | _ \<Rightarrow> ''0x'' @ hex_encode (hd (merkle_levels sha level)))"

definition checkBodyBinding ::
  "(byte list \<Rightarrow> byte list) \<Rightarrow> (byte list \<Rightarrow> byte list) \<Rightarrow> zkblock \<Rightarrow> rejection" where
  "checkBodyBinding keccak sha b =
     (if b_BlockHash b \<noteq> RecomputeBlockHashFromTxs keccak (b_Transactions b) then Some ''body_mismatch''
      else if TrimSpace (b_TxnsRoot b) \<noteq> [] \<and>
              \<not> EqualFold (TrimPrefix (b_TxnsRoot b) ''0x'')
                          (TrimPrefix (RecomputeTxnsRoot sha (b_Transactions b)) ''0x'')
           then Some ''txnsroot_mismatch''
      else None)"

subsection \<open>The Merkle loop\<close>











lemma TrimPrefix_0x [simp]: "TrimPrefix (CHR ''0'' # CHR ''x'' # s) ''0x'' = s"
  by (simp add: TrimPrefix_def)





lemma checkBodyBinding_None:
  "checkBodyBinding keccak sha b = None \<longleftrightarrow>
     b_BlockHash b = RecomputeBlockHashFromTxs keccak (b_Transactions b) \<and>
     (TrimSpace (b_TxnsRoot b) \<noteq> [] \<longrightarrow>
        EqualFold (TrimPrefix (b_TxnsRoot b) ''0x'') (TrimPrefix (RecomputeTxnsRoot sha (b_Transactions b)) ''0x''))"
  by (simp add: checkBodyBinding_def)

lemma checkBodyBinding_hash:
  assumes "checkBodyBinding keccak sha b = None" "b_Transactions b \<noteq> []" "\<And>m. length (keccak m) = 32"
  shows "b_BlockHash b = keccak (tx_hash_bytes (b_Transactions b))"
proof -
  have "b_BlockHash b = RecomputeBlockHashFromTxs keccak (b_Transactions b)"
    using assms(1) checkBodyBinding_None by blast
  also have "\<dots> = keccak (tx_hash_bytes (b_Transactions b))"
    using assms(2) BytesToHash_32 [OF assms(3)] by (simp add: RecomputeBlockHashFromTxs_def)
  finally show ?thesis .
qed

lemma body_bound:
  assumes "checkBodyBinding keccak sha b = None" "checkBodyBinding keccak sha b' = None"
    and "b_BlockHash b = b_BlockHash b'" "b_Transactions b \<noteq> []" "b_Transactions b' \<noteq> []"
    and "\<forall>tx \<in> set (b_Transactions b) \<union> set (b_Transactions b'). wf_hash (tx_Hash tx)"
    and "\<And>m. length (keccak m) = 32"
    and "inj_on keccak {tx_hash_bytes (b_Transactions b), tx_hash_bytes (b_Transactions b')}"
  shows "map tx_Hash (b_Transactions b) = map tx_Hash (b_Transactions b')"
proof -
  have "keccak (tx_hash_bytes (b_Transactions b)) = keccak (tx_hash_bytes (b_Transactions b'))"
    using checkBodyBinding_hash assms(1-5,7) by metis
  then have "tx_hash_bytes (b_Transactions b) = tx_hash_bytes (b_Transactions b')"
    using inj_onD [OF assms(8)] by blast
  then show ?thesis
    using assms(6) by (simp add: tx_hash_bytes_def concat_hashes_inj)
qed

subsection \<open>Properties\<close>





end
