(* ===== verification/Linkage.thy ===== *)
theory Linkage
  imports BodyBinding DbOps
begin

text \<open>
  Fork protection of \<^verbatim>\<open>src/messaging/consensus_hardening.go\<close>: equivocation detection
  with its durable store (\<^verbatim>\<open>src/DB_OPs/equivocation.go\<close>), and parent, height and
  state-root linkage.
\<close>

subsection \<open>Durable first-seen records\<close>

definition EquivocationHeightKey :: "u64 \<Rightarrow> string" where
  "EquivocationHeightKey height = ''equivocation_height:'' @ show_u64 height"

text \<open>
  \<^verbatim>\<open>json.Unmarshal\<close> into a \<^verbatim>\<open>string\<close>: a JSON string literal, or \<^verbatim>\<open>null\<close>, which leaves
  the empty string. Unicode escapes are not decoded here; no writer produces them.
\<close>

fun json_chars :: "string \<Rightarrow> string option" where
  "json_chars [] = None"
| "json_chars (c # cs) =
     (if c = CHR 0x22 then (if cs = [] then Some [] else None)
      else if (of_char c :: nat) < 32 then None
      else if c = CHR 0x5C then
        (case cs of [] \<Rightarrow> None
         | d # ds \<Rightarrow> (if d = CHR 0x22 \<or> d = CHR 0x5C \<or> d = CHR 0x2F
                      then map_option (\<lambda>r. d # r) (json_chars ds) else None))
      else map_option (\<lambda>r. c # r) (json_chars cs))"

definition json_string :: "string \<Rightarrow> string option" where
  "json_string s =
     (let t = json_trim s
      in if t = ''null'' then Some []
         else case t of [] \<Rightarrow> None | c # cs \<Rightarrow> if c = CHR 0x22 then json_chars cs else None)"

definition GetEquivocationHash :: "u64 \<Rightarrow> (err + string option) go" where
  "GetEquivocationHash height = bnd (kv_get acctkv (EquivocationHeightKey height)) (\<lambda>r. ret (case r of
      Inl e \<Rightarrow> Inl e
    | Inr None \<Rightarrow> Inr None
    | Inr (Some raw) \<Rightarrow> (case json_string raw of None \<Rightarrow> Inl EBadRecord | Some h \<Rightarrow> Inr (Some h))))"

text \<open>The value is a Go string, which \<^verbatim>\<open>toBytes\<close> stores as it is.\<close>

definition RecordEquivocationHash :: "u64 \<Rightarrow> string \<Rightarrow> (err + unit) go" where
  "RecordEquivocationHash height hashHex = SafeCreate (put_acct (EquivocationHeightKey height) hashHex)"

subsection \<open>Equivocation detection\<close>

record equivocation_store =
  FirstSeenHash :: "u64 \<Rightarrow> (err + string option) go"
  RecordFirstSeen :: "u64 \<Rightarrow> string \<Rightarrow> (err + unit) go"

definition DBEquivocationStore :: equivocation_store where
  "DBEquivocationStore = \<lparr>FirstSeenHash = GetEquivocationHash, RecordFirstSeen = RecordEquivocationHash\<rparr>"

definition set_seen :: "u64 \<Rightarrow> string \<Rightarrow> unit go" where
  "set_seen n h = (\<lambda>e s. (Ret (), s\<lparr>seenHeights := (seenHeights s)(n \<mapsto> h)\<rparr>))"

definition get_seen :: "u64 \<Rightarrow> string option go" where
  "get_seen n = (\<lambda>e s. (Ret (seenHeights s n), s))"

definition first_sighting :: "equivocation_store option \<Rightarrow> u64 \<Rightarrow> string \<Rightarrow> rejection go" where
  "first_sighting store number hashHex =
     bnd (set_seen number hashHex) (\<lambda>_. case store of
        None \<Rightarrow> ret None
      | Some st \<Rightarrow> bnd (RecordFirstSeen st number hashHex) (\<lambda>_. ret None))"

definition checkEquivocation :: "equivocation_store option \<Rightarrow> u64 \<Rightarrow> string \<Rightarrow> rejection go" where
  "checkEquivocation store number hashHex =
     bnd (get_seen number) (\<lambda>prev. case prev of
        Some p \<Rightarrow> ret (if p \<noteq> hashHex then Some ''equivocation'' else None)
      | None \<Rightarrow> (case store of
          None \<Rightarrow> first_sighting store number hashHex
        | Some st \<Rightarrow> bnd (FirstSeenHash st number) (\<lambda>r. case r of
            Inl _ \<Rightarrow> first_sighting store number hashHex
          | Inr None \<Rightarrow> first_sighting store number hashHex
          | Inr (Some p) \<Rightarrow> bnd (set_seen number p) (\<lambda>_.
              ret (if p \<noteq> hashHex then Some ''equivocation'' else None)))))"

subsection \<open>Linkage\<close>

definition stateRootChain :: "(byte list \<Rightarrow> byte list) \<Rightarrow> hash \<Rightarrow> hash \<Rightarrow> hash option" where
  "stateRootChain keccak parentStateRoot blockHash =
     (if parentStateRoot = zero_hash then None
      else Some (BytesToHash (keccak (parentStateRoot @ blockHash))))"

definition linkageDecision ::
  "(byte list \<Rightarrow> byte list) \<Rightarrow> zkblock \<Rightarrow> err + u64 \<Rightarrow> err + zkblock option \<Rightarrow> rejection" where
  "linkageDecision keccak b tip parent =
     (case tip of
        Inl _ \<Rightarrow> Some ''tip_unreadable''
      | Inr localTip \<Rightarrow>
          if localTip = 0 then Some ''not_bootstrapped''
          else if b_BlockNumber b \<le> localTip then Some ''stale_height''
          else if b_BlockNumber b > localTip + 1 then Some ''height_gap''
          else (case parent of
              Inr (Some p) \<Rightarrow>
                if b_PrevHash b \<noteq> b_BlockHash p then Some ''bad_parent''
                else (case stateRootChain keccak (b_StateRoot p) (b_BlockHash b) of
                    Some want \<Rightarrow> if b_StateRoot b \<noteq> want then Some ''bad_stateroot'' else None
                  | None \<Rightarrow> None)
            | _ \<Rightarrow> Some ''parent_unavailable''))"

text \<open>
  \<^verbatim>\<open>checkLinkage\<close> with its injectable readers; the second component is the height it
  asks authenticated catch-up to start from.
\<close>

definition checkLinkage ::
  "(byte list \<Rightarrow> byte list) \<Rightarrow> (err + u64) go \<Rightarrow> (u64 \<Rightarrow> (err + zkblock option) go) \<Rightarrow> zkblock \<Rightarrow>
     (rejection \<times> u64 option) go" where
  "checkLinkage keccak readLocalTip readBlockByNumber b =
     bnd readLocalTip (\<lambda>tip.
       let localTip = (case tip of Inl _ \<Rightarrow> 0 | Inr t \<Rightarrow> t)
       in bnd (if (case tip of Inl _ \<Rightarrow> False | Inr t \<Rightarrow> t > 0 \<and> b_BlockNumber b = t + 1)
               then readBlockByNumber localTip else ret (Inr None)) (\<lambda>parent.
            let rej = linkageDecision keccak b tip parent
            in ret (rej, if rej = Some ''height_gap'' \<or> rej = Some ''not_bootstrapped''
                         then Some (localTip + 1) else None)))"

subsection \<open>Lemmas\<close>

lemma wp_set_seen [wp_rules]:
  "wp (set_seen n h) e Q P s = Q () (s\<lparr>seenHeights := (seenHeights s)(n \<mapsto> h)\<rparr>)"
  by (simp add: wp_def set_seen_def)

lemma wp_get_seen [wp_rules]: "wp (get_seen n) e Q P s = Q (seenHeights s n) s"
  by (simp add: wp_def get_seen_def)

lemma put_acct_seen [simp]: "seenHeights (put_acct k v s) = seenHeights s"
  by (simp add: put_acct_def)

lemma checkEquivocation_wp:
  "wp (checkEquivocation (Some DBEquivocationStore) n h) e
     (\<lambda>r s'. accounts s' = accounts s \<and> mainkv s' = mainkv s \<and>
        (\<exists>p. seenHeights s' = (seenHeights s)(n \<mapsto> p) \<and> (seenHeights s n = None \<or> seenHeights s n = Some p) \<and>
           r = (if p = h then None else Some ''equivocation'')))
     (\<lambda>s'. accounts s' = accounts s \<and> mainkv s' = mainkv s \<and> seenHeights s' = (seenHeights s)(n \<mapsto> h) \<and>
        seenHeights s n = None) s"
proof (cases "seenHeights s n")
  case (Some p)
  then show ?thesis by (auto simp: checkEquivocation_def wp_rules fun_upd_idem intro!: exI [of _ p])
next
  case None
  then show ?thesis
    by (cases "fault e (tick s)"; cases "acctkv s (EquivocationHeightKey n)";
        cases "json_string (the (acctkv s (EquivocationHeightKey n)))")
       (auto simp: checkEquivocation_def first_sighting_def DBEquivocationStore_def GetEquivocationHash_def
         RecordEquivocationHash_def put_acct_def wp_rules split: outcome.splits)
qed

lemma linkageDecision_None:
  "linkageDecision keccak b tip parent = None \<longleftrightarrow>
     (\<exists>t p. tip = Inr t \<and> parent = Inr (Some p) \<and> t \<noteq> 0 \<and> unat (b_BlockNumber b) = unat t + 1 \<and>
        b_PrevHash b = b_BlockHash p \<and>
        (b_StateRoot p \<noteq> zero_hash \<longrightarrow> b_StateRoot b = BytesToHash (keccak (b_StateRoot p @ b_BlockHash b))))"
proof -
  have num: "\<not> n \<le> t \<and> \<not> t + 1 < n \<longleftrightarrow> unat n = Suc (unat t)" for n t :: u64
  proof -
    have "unat (t + 1) = (unat t + 1) mod 2 ^ 64" by (simp add: unat_word_ariths)
    moreover have "unat t < 2 ^ 64" "unat n < 2 ^ 64" using unsigned_less [of t] unsigned_less [of n] by simp_all
    ultimately show ?thesis
      by (cases "unat t + 1 = 2 ^ 64") (auto simp: word_le_nat_alt word_less_nat_alt)
  qed
  show ?thesis
    unfolding linkageDecision_def stateRootChain_def
    by (auto simp: num [symmetric] split: sum.splits option.splits if_splits)
qed

text \<open>A run of the check over the blocks a node receives, keeping the admitted ones.\<close>

fun equivocation_session :: "(u64 \<times> string) list \<Rightarrow> (u64 \<times> string) list go" where
  "equivocation_session [] = ret []"
| "equivocation_session ((n, h) # calls) =
     bnd (checkEquivocation (Some DBEquivocationStore) n h) (\<lambda>rej.
       bnd (equivocation_session calls) (\<lambda>acc. ret (if rej = None then (n, h) # acc else acc)))"

lemma equivocation_session_wp:
  "wp (equivocation_session calls) e
     (\<lambda>acc s'. seenHeights s \<subseteq>\<^sub>m seenHeights s' \<and>
        (\<forall>(n, h) \<in> set acc. seenHeights s' n = Some h)) (\<lambda>_. True) s"
proof (induction calls arbitrary: s)
  case (Cons c calls)
  obtain n h where c: "c = (n, h)" by (cases c)
  show ?case
    unfolding c equivocation_session.simps wp_bnd
  proof (rule wp_mono [OF checkEquivocation_wp], goal_cases)
    case (1 rej s1)
    then obtain p where p: "seenHeights s1 = (seenHeights s)(n \<mapsto> p)" "seenHeights s n = None \<or> seenHeights s n = Some p"
      "rej = (if p = h then None else Some ''equivocation'')" by blast
    have le: "seenHeights s \<subseteq>\<^sub>m seenHeights s1" and n: "seenHeights s1 n = Some p"
      using p(1,2) by (auto simp: map_le_def)
    show ?case
    proof (rule wp_mono [OF Cons.IH [of s1]], goal_cases)
      case (1 acc s')
      then have "seenHeights s' n = Some p" using n by (auto simp: map_le_def dest: bspec)
      with 1 p(3) map_le_trans [OF le] show ?case by (auto simp: wp_rules)
    qed simp
  qed simp
qed (simp add: wp_rules)

lemma Hash_Hex_not_json: "json_string (Hash_Hex h) = None"
proof -
  have "json_trim (Hash_Hex h) = Hash_Hex h"
  proof -
    have ns: "\<not> json_space c" if "c \<in> set (Hash_Hex h)" for c
      using that hex_encode_not_space [of c h]
      by (auto simp: Hash_Hex_def json_space_def is_space_def)
    have "dropWhile json_space (Hash_Hex h) = Hash_Hex h"
      using ns by (intro dropWhile_hd_False) (simp add: Hash_Hex_def)
    moreover have "dropWhile json_space (rev (Hash_Hex h)) = rev (Hash_Hex h)"
      using ns hd_in_set [of "rev (Hash_Hex h)"] by (intro dropWhile_hd_False) auto
    ultimately show ?thesis by (simp add: json_trim_def)
  qed
  then show ?thesis by (simp add: json_string_def Hash_Hex_def)
qed

subsection \<open>Properties\<close>

text \<open>
  C21. Linkage is fail-closed and exact: a remote block passes if and only if the local
  tip is readable and non-zero, the block is the immediate successor of the tip, the
  parent block was loaded, the parent hash matches it, and, when the parent has a
  state root, the block's state root is the hash of that root and the block's hash.
  The arithmetic is over 64-bit heights: at the maximal height nothing passes.
\<close>
theorem linkage_accepts_exactly:
  "linkageDecision keccak b tip parent = None \<longleftrightarrow>
     (\<exists>t p. tip = Inr t \<and> parent = Inr (Some p) \<and> t \<noteq> 0 \<and> unat (b_BlockNumber b) = unat t + 1 \<and>
        b_PrevHash b = b_BlockHash p \<and>
        (b_StateRoot p = zero_hash \<or> b_StateRoot b = BytesToHash (keccak (b_StateRoot p @ b_BlockHash b))))"
  unfolding linkageDecision_None by blast

text \<open>
  Within a process lifetime a node admits at most one block hash per height, for
  every sequence of received blocks and every behaviour of the durable store.
\<close>
theorem one_hash_per_height:
  assumes "equivocation_session calls e s = (Ret acc, s')" "(n, h) \<in> set acc" "(n, h') \<in> set acc"
  shows "h = h'"
proof -
  have "\<forall>(m, g) \<in> set acc. seenHeights s' m = Some g"
    using wp_run [OF equivocation_session_wp [of calls e s] assms(1)] by blast
  with assms(2,3) have "seenHeights s' n = Some h" "seenHeights s' n = Some h'" by auto
  then show ?thesis by simp
qed

theorem one_hash_per_height_witness:
  "fst (equivocation_session [(5, ''0xaa''), (5, ''0xbb''), (6, ''0xcc'')] calm fresh_db)
      = Ret [(5, ''0xaa''), (6, ''0xcc'')] \<and>
   (5 :: u64, ''0xbb'') \<notin> set [(5, ''0xaa''), (6, ''0xcc'')]" (is "?run \<and> ?rej")
proof
  show run: ?run by code_simp
  show ?rej
  proof
    assume "(5 :: u64, ''0xbb'') \<in> set [(5, ''0xaa''), (6, ''0xcc'')]"
    from one_hash_per_height [OF run_eq [OF run] _ this] show False by auto
  qed
qed

text \<open>
  C29. The durable record does not survive a restart: with a database that never
  fails, a node that admitted a block hash at a height and recorded it durably, and
  then restarted (the in-memory map is empty), admits a different hash at the same
  height. The record is written as the bare hash string but read back as JSON.
\<close>
theorem durable_equivocation_lost:
  assumes "\<And>t. fault e t = Done" "seenHeights s n = None" "acctkv s (EquivocationHeightKey n) = None"
    and "checkEquivocation (Some DBEquivocationStore) n (Hash_Hex g) e s = (r, s1)"
  shows "r = Ret None \<and> acctkv s1 (EquivocationHeightKey n) = Some (Hash_Hex g) \<and>
     fst (checkEquivocation (Some DBEquivocationStore) n (Hash_Hex g') e (s1\<lparr>seenHeights := Map.empty\<rparr>)) = Ret None"
proof -
  let ?C = "\<lambda>g. checkEquivocation (Some DBEquivocationStore) n (Hash_Hex g)"
  have "wp (?C g) e (\<lambda>r s'. r = None \<and> acctkv s' (EquivocationHeightKey n) = Some (Hash_Hex g)) (\<lambda>_. False) s"
    using assms(1-3)
    by (simp add: checkEquivocation_def first_sighting_def DBEquivocationStore_def GetEquivocationHash_def
        RecordEquivocationHash_def put_acct_def wp_rules)
  then have 1: "r = Ret None" "acctkv s1 (EquivocationHeightKey n) = Some (Hash_Hex g)"
    using assms(4) by (auto simp: wp_def split: result.splits)
  have "wp (?C g') e (\<lambda>r s'. r = None) (\<lambda>_. False) (s1\<lparr>seenHeights := Map.empty\<rparr>)"
    using assms(1) 1(2)
    by (simp add: checkEquivocation_def first_sighting_def DBEquivocationStore_def GetEquivocationHash_def
        RecordEquivocationHash_def wp_rules Hash_Hex_not_json)
  then have "fst (?C g' e (s1\<lparr>seenHeights := Map.empty\<rparr>)) = Ret None"
    by (auto simp: wp_def split: result.splits prod.splits)
  with 1 show ?thesis by simp
qed

theorem durable_equivocation_lost_witness:
  "fst (checkEquivocation (Some DBEquivocationStore) 5 (Hash_Hex [2]) calm
      ((snd (checkEquivocation (Some DBEquivocationStore) 5 (Hash_Hex [1]) calm fresh_db))\<lparr>seenHeights := Map.empty\<rparr>))
    = Ret None"
  using durable_equivocation_lost [of calm fresh_db 5 "[1]" _ _ "[2]", OF _ _ _ surjective_pairing]
  by (simp add: calm_def fresh_db_def)

end
