(* ===== verification/BlockGate.thy ===== *)
theory BlockGate
  imports BlockStore Certificate Linkage
begin

text \<open>
  Receiving a block: \<^verbatim>\<open>src/messaging/blockPropagation.go\<close>. A message is checked for
  duplicates, a zkblock then passes the fail-closed gate \<^verbatim>\<open>validateRemoteBlock\<close>, and
  only after that is it marked as seen, forwarded, executed and stored.

  The node's wiring is the record \<open>node\<close>: the hardening flags, the settings, the
  signer cache and the equivocation store, with the third-party parts as fields
  (go-ethereum, SHA-256, the BLS library, the eligibility source, the JSON decoder
  of \<^verbatim>\<open>bls_results\<close> and the Bloom filter of seen messages). The variables the handlers
  write are the record \<open>relay\<close>; goroutines and notifications are the list of effects
  a handler returns.
\<close>

subsection \<open>State\<close>

record 'f node =
  n_flags :: hardening_flags
  n_cfg :: "consensus_settings option"
  n_signers :: signer_cache
  n_store :: "equivocation_store option"
  n_codec :: codec
  n_geth :: geth
  n_sha :: "byte list \<Rightarrow> byte list"
  n_bls :: bls_lib
  n_source :: eligibility_source
  n_decode :: "string \<Rightarrow> bls_response list option"
  n_Test :: "'f \<Rightarrow> string \<Rightarrow> bool"
  n_Add :: "'f \<Rightarrow> string \<Rightarrow> 'f"
  n_p2p :: "int option"
  n_directEnv :: bool
  n_host :: bool

record 'f relay =
  messageFilter :: 'f
  peerTimeouts :: "string \<rightharpoonup> int"

datatype effect =
    Forward block_message
  | ProcessAndStore block_message zkblock
  | NotifyBroadcast block_message
  | RequestCatchUp u64

definition MaxHops :: int where "MaxHops = 5"
definition second :: int where "second = 1000000000"

subsection \<open>Peer timeouts and the duplicate filter\<close>

definition timeoutPeer :: "string \<Rightarrow> int \<Rightarrow> int \<Rightarrow> 'f relay \<Rightarrow> 'f relay" where
  "timeoutPeer peer duration t R = R\<lparr>peerTimeouts := (peerTimeouts R)(peer \<mapsto> t + duration)\<rparr>"

definition isPeerTimedOut :: "string \<Rightarrow> int \<Rightarrow> 'f relay \<Rightarrow> bool" where
  "isPeerTimedOut peer t R = (case peerTimeouts R peer of None \<Rightarrow> False | Some until \<Rightarrow> t < until)"

text \<open>One tick of the clean-up loop.\<close>

definition cleanupPeerTimeouts :: "int \<Rightarrow> 'f relay \<Rightarrow> 'f relay" where
  "cleanupPeerTimeouts t R = R\<lparr>peerTimeouts := (\<lambda>p. case peerTimeouts R p of
      None \<Rightarrow> None | Some until \<Rightarrow> if t > until then None else Some until)\<rparr>"

definition isMessageProcessed :: "'f node \<Rightarrow> string \<Rightarrow> 'f relay \<Rightarrow> bool" where
  "isMessageProcessed N i R = n_Test N (messageFilter R) i"

definition markMessageProcessed :: "'f node \<Rightarrow> string \<Rightarrow> 'f relay \<Rightarrow> 'f relay" where
  "markMessageProcessed N i R = R\<lparr>messageFilter := n_Add N (messageFilter R) i\<rparr>"

definition getMessageIDForBloomFilter :: "block_message \<Rightarrow> string" where
  "getMessageIDForBloomFilter msg =
     (if m_Type msg = ''zkblock'' \<and> m_Block msg \<noteq> None
      then ''zkblock:'' @ Hash_Hex (b_BlockHash (the (m_Block msg)))
      else if m_Type msg = ''transaction'' \<and> data_get msg ''transaction_hash'' \<noteq> []
      then data_get msg ''transaction_hash''
      else m_Nonce msg)"

subsection \<open>The gate\<close>

definition check_transaction :: "geth \<Rightarrow> signer_cache \<Rightarrow> transaction \<Rightarrow> rejection" where
  "check_transaction G cache tx =
     (if tx_From tx = None then Some ''bad_signature''
      else if CheckSignature G cache tx \<noteq> None then Some ''bad_signature''
      else if CheckTransactionHash G tx \<noteq> None then Some ''tx_hash_mismatch''
      else if CheckTransactionValues tx \<noteq> None then Some ''negative_tx_value''
      else None)"

primrec check_transactions :: "geth \<Rightarrow> signer_cache \<Rightarrow> transaction list \<Rightarrow> rejection" where
  "check_transactions G cache [] = None"
| "check_transactions G cache (tx # txs) =
     (case check_transaction G cache tx of Some r \<Rightarrow> Some r | None \<Rightarrow> check_transactions G cache txs)"

text \<open>The senders are not nil here: \<^const>\<open>check_transactions\<close> has run.\<close>

primrec check_nonces :: "(addr \<rightharpoonup> u64) \<Rightarrow> transaction list \<Rightarrow> rejection" where
  "check_nonces lastNonce [] = None"
| "check_nonces lastNonce (tx # txs) =
     (let sender = the (tx_From tx)
      in if (case lastNonce sender of None \<Rightarrow> False | Some prev \<Rightarrow> tx_Nonce tx \<le> prev) then Some ''bad_nonce''
         else check_nonces (lastNonce(sender \<mapsto> tx_Nonce tx)) txs)"

definition verifyBlockProof :: "zkblock \<Rightarrow> string option" where
  "verifyBlockProof b = None"

definition verifyBlockCertificate :: "'f node \<Rightarrow> block_message \<Rightarrow> zkblock \<Rightarrow> rejection" where
  "verifyBlockCertificate N msg b =
     (if data_get msg ''bls_results'' = [] then Some ''no_certificate''
      else case n_decode N (data_get msg ''bls_results'') of
          None \<Rightarrow> Some ''malformed_certificate''
        | Some responses \<Rightarrow>
            if responses = [] then Some ''no_certificate''
            else (case VerifyCertificate (n_bls N) (n_flags N) (n_cfg N) (n_source N) responses
                         (Hash_Hex (b_BlockHash b)) (b_BlockNumber b) of
                Inl _ \<Rightarrow> Some ''committee_source_invalid''
              | Inr res \<Rightarrow> if Reached res then None else Some ''quorum_not_met''))"

definition check_body :: "'f node \<Rightarrow> zkblock \<Rightarrow> rejection" where
  "check_body N b =
     (if \<not> EnforceBodyBinding (n_flags N) then None
      else case checkBodyBinding (geth_Keccak256 (n_geth N)) (n_sha N) b of
          Some r \<Rightarrow> Some r
        | None \<Rightarrow> if CheckBlockHash (n_geth N) b \<noteq> None then Some ''block_hash_mismatch'' else None)"

text \<open>The checks of \<^verbatim>\<open>validateRemoteBlock\<close> up to the chain linkage, which read no state.\<close>

definition check_contents :: "'f node \<Rightarrow> zkblock \<Rightarrow> rejection" where
  "check_contents N b =
     (if b_Transactions b = [] then Some ''empty_block''
      else if b_FeeRecipients b \<noteq> [] then Some ''feerecipients_unsupported''
      else case check_transactions (n_geth N) (n_signers N) (b_Transactions b) of
          Some r \<Rightarrow> Some r
        | None \<Rightarrow> (case check_nonces Map.empty (b_Transactions b) of
              Some r \<Rightarrow> Some r
            | None \<Rightarrow> (case check_body N b of
                  Some r \<Rightarrow> Some r
                | None \<Rightarrow> if verifyBlockProof b \<noteq> None then Some ''invalid_proof'' else None)))"

text \<open>The default readers of \<^verbatim>\<open>checkLinkage\<close>: the tip marker and the stored blocks.\<close>

definition readLocalTip :: "(err + u64) go" where
  "readLocalTip = GetLatestBlockNumber"

definition readBlockByNumber :: "codec \<Rightarrow> u64 \<Rightarrow> (err + zkblock option) go" where
  "readBlockByNumber C n = bnd (GetZKBlockByNumber C n) (\<lambda>r. ret (case r of Inl e \<Rightarrow> Inl e | Inr b \<Rightarrow> Inr (Some b)))"

definition check_linkage :: "'f node \<Rightarrow> zkblock \<Rightarrow> (rejection \<times> u64 option) go" where
  "check_linkage N b =
     (if EnforceBlockLinkage (n_flags N)
      then checkLinkage (geth_Keccak256 (n_geth N)) readLocalTip (readBlockByNumber (n_codec N)) b
      else ret (None, None))"

definition validateRemoteBlock :: "'f node \<Rightarrow> block_message \<Rightarrow> (rejection \<times> u64 option) go" where
  "validateRemoteBlock N msg =
     (case m_Block msg of
        None \<Rightarrow> ret (Some ''nil_block'', None)
      | Some b \<Rightarrow> (case check_contents N b of
            Some r \<Rightarrow> ret (Some r, None)
          | None \<Rightarrow> bnd (check_linkage N b) (\<lambda>(rej, ask).
              case rej of
                Some r \<Rightarrow> ret (Some r, ask)
              | None \<Rightarrow> (case verifyBlockCertificate N msg b of
                    Some r \<Rightarrow> ret (Some r, ask)
                  | None \<Rightarrow> bnd (checkEquivocation (n_store N) (b_BlockNumber b) (Hash_Hex (b_BlockHash b)))
                              (\<lambda>rej. ret (rej, ask))))))"

definition admitZKBlock ::
  "'f node \<Rightarrow> block_message \<Rightarrow> string \<Rightarrow> 'f relay \<Rightarrow> (rejection \<times> u64 option \<times> 'f relay) go" where
  "admitZKBlock N msg messageID R =
     bnd (validateRemoteBlock N msg) (\<lambda>(rej, ask).
       ret (rej, ask, if rej = None then markMessageProcessed N messageID R else R))"

subsection \<open>The handlers\<close>

text \<open>\<open>n_p2p\<close> is \<^verbatim>\<open>Consensus.P2P\<close> of the settings once they are loaded.\<close>

definition directBlockPropagationEnabled :: "'f node \<Rightarrow> bool" where
  "directBlockPropagationEnabled N \<longleftrightarrow> (case n_p2p N of None \<Rightarrow> False | Some p \<Rightarrow> p \<ge> 1) \<or> n_directEnv N"

text \<open>The peers \<^verbatim>\<open>forwardBlock\<close> sends to, of those connected.\<close>

definition forwardBlock :: "string list \<Rightarrow> block_message \<Rightarrow> string list" where
  "forwardBlock peers msg = filter (\<lambda>p. p \<noteq> m_Sender msg) peers"

definition hop :: "block_message \<Rightarrow> block_message" where
  "hop msg = msg\<lparr>m_Hops := m_Hops msg + 1\<rparr>"

definition may_hop :: "block_message \<Rightarrow> bool" where
  "may_hop msg \<longleftrightarrow> sint (m_Hops msg) < MaxHops"

definition asks :: "u64 option \<Rightarrow> effect list" where
  "asks a = (case a of None \<Rightarrow> [] | Some n \<Rightarrow> [RequestCatchUp n])"

text \<open>After admission: the optional re-flood, then execution, then the notification.\<close>

definition admitted_effects :: "'f node \<Rightarrow> block_message \<Rightarrow> zkblock \<Rightarrow> bool \<Rightarrow> effect list" where
  "admitted_effects N msg b forward =
     (let hops = forward \<and> directBlockPropagationEnabled N \<and> may_hop msg;
          msg' = (if hops then hop msg else msg)
      in (if hops \<and> n_host N then [Forward msg'] else []) @ [ProcessAndStore msg' b, NotifyBroadcast msg'])"

definition handle_zkblock ::
  "'f node \<Rightarrow> block_message \<Rightarrow> zkblock \<Rightarrow> string \<Rightarrow> bool \<Rightarrow> 'f relay \<Rightarrow> ('f relay \<times> effect list) go" where
  "handle_zkblock N msg b peer forward R =
     (if m_Data msg ''status'' = Some ''rejected'' then ret (R, [NotifyBroadcast msg])
      else bnd (admitZKBlock N msg (getMessageIDForBloomFilter msg) R) (\<lambda>(rej, ask, R').
        if rej \<noteq> None then bnd now (\<lambda>t. ret (timeoutPeer peer (30 * second) t R', asks ask))
        else ret (R', asks ask @ admitted_effects N msg b forward)))"

text \<open>Other messages have no gate; \<^verbatim>\<open>forwardBlock\<close> dereferences the host.\<close>

definition handle_other :: "'f node \<Rightarrow> block_message \<Rightarrow> bool \<Rightarrow> 'f relay \<Rightarrow> 'f relay \<times> effect list" where
  "handle_other N msg forward R =
     (let msg' = (if forward \<and> may_hop msg then hop msg else msg)
      in (markMessageProcessed N (getMessageIDForBloomFilter msg) R,
          (if forward \<and> may_hop msg then [Forward msg'] else []) @ [NotifyBroadcast msg']))"

definition HandleReceivedBlockMessage ::
  "'f node \<Rightarrow> block_message \<Rightarrow> string \<Rightarrow> bool \<Rightarrow> 'f relay \<Rightarrow> ('f relay \<times> effect list) go" where
  "HandleReceivedBlockMessage N msg peer forward R =
     (if isMessageProcessed N (getMessageIDForBloomFilter msg) R
      then bnd now (\<lambda>t. ret (timeoutPeer peer (20 * second) t R, []))
      else case m_Block msg of
          Some b \<Rightarrow> if m_Type msg = ''zkblock'' then handle_zkblock N msg b peer forward R
                    else ret (handle_other N msg forward R)
        | None \<Rightarrow> ret (handle_other N msg forward R))"

text \<open>The two transports: a direct stream, whose message parsed or not, and the gossip mesh.\<close>

definition HandleBlockStream ::
  "'f node \<Rightarrow> string \<Rightarrow> block_message option \<Rightarrow> 'f relay \<Rightarrow> ('f relay \<times> effect list) go" where
  "HandleBlockStream N peer parsed R =
     bnd now (\<lambda>t. if isPeerTimedOut peer t R then ret (R, [])
       else case parsed of None \<Rightarrow> ret (R, []) | Some msg \<Rightarrow> HandleReceivedBlockMessage N msg peer True R)"

definition HandleGossipedBlockMessage ::
  "'f node \<Rightarrow> block_message \<Rightarrow> string \<Rightarrow> 'f relay \<Rightarrow> ('f relay \<times> effect list) go" where
  "HandleGossipedBlockMessage N msg sender R = HandleReceivedBlockMessage N msg sender False R"

subsection \<open>What the gate establishes\<close>

definition tx_valid :: "'f node \<Rightarrow> transaction \<Rightarrow> bool" where
  "tx_valid N tx \<longleftrightarrow> tx_From tx \<noteq> None \<and> CheckSignature (n_geth N) (n_signers N) tx = None \<and>
     tx_Hash tx = geth_Hash (n_geth N) (ethTxFromConfig tx) \<and> CheckTransactionValues tx = None"

definition ascending :: "transaction list \<Rightarrow> bool" where
  "ascending = sorted_wrt (\<lambda>t u. tx_From t = tx_From u \<longrightarrow> tx_Nonce t < tx_Nonce u)"

definition contents_valid :: "'f node \<Rightarrow> zkblock \<Rightarrow> bool" where
  "contents_valid N b \<longleftrightarrow> b_Transactions b \<noteq> [] \<and> b_FeeRecipients b = [] \<and> ascending (b_Transactions b) \<and>
     (\<forall>tx \<in> set (b_Transactions b). tx_valid N tx) \<and>
     (EnforceBodyBinding (n_flags N) \<longrightarrow>
        checkBodyBinding (geth_Keccak256 (n_geth N)) (n_sha N) b = None \<and>
        b_BlockHash b = RecomputeBlockHashFromContents (n_geth N) (b_Transactions b))"

definition linked :: "'f node \<Rightarrow> db \<Rightarrow> zkblock \<Rightarrow> bool" where
  "linked N s b \<longleftrightarrow> tip_of s \<noteq> 0 \<and> unat (b_BlockNumber b) = unat (tip_of s) + 1 \<and>
     (\<exists>raw p. mainkv s (block_key (tip_of s)) = Some raw \<and> dec_block (n_codec N) raw = Some p \<and>
        b_PrevHash b = b_BlockHash p \<and>
        (b_StateRoot p \<noteq> zero_hash \<longrightarrow>
           b_StateRoot b = BytesToHash (geth_Keccak256 (n_geth N) (b_StateRoot p @ b_BlockHash b))))"

definition certified :: "'f node \<Rightarrow> block_message \<Rightarrow> zkblock \<Rightarrow> bool" where
  "certified N msg b \<longleftrightarrow> (\<exists>rs res. n_decode N (data_get msg ''bls_results'') = Some rs \<and>
     VerifyCertificate (n_bls N) (n_flags N) (n_cfg N) (n_source N) rs (Hash_Hex (b_BlockHash b)) (b_BlockNumber b) = Inr res \<and>
     Reached res)"

lemma check_transactions_None:
  "check_transactions (n_geth N) (n_signers N) txs = None \<longleftrightarrow> (\<forall>tx \<in> set txs. tx_valid N tx)"
  by (induction txs) (auto simp: check_transaction_def tx_valid_def CheckTransactionHash_def split: option.splits)

lemma check_nonces_None:
  assumes "\<forall>tx \<in> set txs. tx_From tx \<noteq> None"
  shows "check_nonces m txs = None \<longleftrightarrow>
    ascending txs \<and> (\<forall>tx \<in> set txs. \<forall>p. m (the (tx_From tx)) = Some p \<longrightarrow> p < tx_Nonce tx)"
  using assms
proof (induction txs arbitrary: m)
  case (Cons tx txs)
  obtain f where f: "tx_From tx = Some f" using Cons.prems by auto
  let ?up = "\<lambda>u. tx_From u = Some f \<longrightarrow> tx_Nonce tx < tx_Nonce u"
  have up: "(\<forall>p. (m(f \<mapsto> tx_Nonce tx)) (the (tx_From u)) = Some p \<longrightarrow> p < tx_Nonce u) \<longleftrightarrow>
      ?up u \<and> (tx_From u \<noteq> Some f \<longrightarrow> (\<forall>p. m (the (tx_From u)) = Some p \<longrightarrow> p < tx_Nonce u))" if "u \<in> set txs" for u
    using Cons.prems that by auto
  have "check_nonces m (tx # txs) = None \<longleftrightarrow> (\<forall>p. m f = Some p \<longrightarrow> p < tx_Nonce tx) \<and> ascending txs \<and>
      (\<forall>u \<in> set txs. ?up u \<and> (tx_From u \<noteq> Some f \<longrightarrow> (\<forall>p. m (the (tx_From u)) = Some p \<longrightarrow> p < tx_Nonce u)))"
  proof -
    have "check_nonces (m(f \<mapsto> tx_Nonce tx)) txs = None \<longleftrightarrow> ascending txs \<and>
        (\<forall>u \<in> set txs. ?up u \<and> (tx_From u \<noteq> Some f \<longrightarrow> (\<forall>p. m (the (tx_From u)) = Some p \<longrightarrow> p < tx_Nonce u)))"
      using Cons.prems by (subst Cons.IH) (auto simp del: fun_upd_apply simp: up)
    then show ?thesis
      by (cases "m f") (auto simp: Let_def f simp del: fun_upd_apply)
  qed
  also have "\<dots> \<longleftrightarrow> ascending (tx # txs) \<and>
      (\<forall>u \<in> set (tx # txs). \<forall>p. m (the (tx_From u)) = Some p \<longrightarrow> p < tx_Nonce u)"
    using f by (auto simp: ascending_def)
  finally show ?case .
qed (simp add: ascending_def)

lemma first_rejection_None [simp]:
  "(case x of None \<Rightarrow> y | Some r \<Rightarrow> Some r) = None \<longleftrightarrow> x = None \<and> y = None"
  by (simp split: option.split)

lemma check_contents_None: "check_contents N b = None \<longleftrightarrow> contents_valid N b"
proof -
  have "(\<forall>tx \<in> set (b_Transactions b). tx_valid N tx) \<Longrightarrow>
      check_nonces Map.empty (b_Transactions b) = None \<longleftrightarrow> ascending (b_Transactions b)"
    by (subst check_nonces_None) (auto simp: tx_valid_def)
  then show ?thesis
    by (auto simp: check_contents_def contents_valid_def check_body_def verifyBlockProof_def CheckBlockHash_def
        check_transactions_None)
qed

lemma verifyBlockCertificate_None: "verifyBlockCertificate N msg b = None \<Longrightarrow> certified N msg b"
  by (auto simp: verifyBlockCertificate_def certified_def split: if_splits option.splits sum.splits)

text \<open>The linkage reads; nothing of the state but the clock moves.\<close>

lemma check_linkage_wp:
  "wp (check_linkage N b) e (\<lambda>(rej, ask) s'. (\<exists>n. s' = s\<lparr>tick := n\<rparr>) \<and>
      (rej = None \<longrightarrow> EnforceBlockLinkage (n_flags N) \<longrightarrow> linked N s b)) (\<lambda>_. False) s"
proof (cases "EnforceBlockLinkage (n_flags N)")
  case True
  let ?tip = "if fault e (tick s) \<noteq> Done then Inl EDb
        else case mainkv s ''latest_block'' of None \<Rightarrow> Inr 0
           | Some raw \<Rightarrow> (case json_u64 raw of None \<Rightarrow> Inl EBadRecord | Some w \<Rightarrow> Inr w)"
  have tip: "?tip = Inr (tip_of s) \<or> (\<exists>x. ?tip = Inl x)" by (auto simp: tip_of_def split: option.splits)
  show ?thesis
  proof (cases "\<exists>x. ?tip = Inl x")
    case inl: True
    then obtain x where "?tip = Inl x" ..
    with True show ?thesis
      by (auto simp: check_linkage_def checkLinkage_def readLocalTip_def wp_rules Let_def linkageDecision_def)
  next
    case False
    with tip have inr: "?tip = Inr (tip_of s)" by blast
    show ?thesis
      using True
      by (simp add: check_linkage_def checkLinkage_def readLocalTip_def wp_rules Let_def inr readBlockByNumber_def)
         (auto simp: linkageDecision_None linked_def split: option.splits)
  qed
qed (auto simp: check_linkage_def wp_ret intro: exI [of _ "tick s"])

text \<open>The equivocation store is unset or the database-backed one.\<close>

definition store_wired :: "'f node \<Rightarrow> bool" where
  "store_wired N \<longleftrightarrow> n_store N = None \<or> n_store N = Some DBEquivocationStore"

definition state_untouched :: "db \<Rightarrow> db \<Rightarrow> bool" where
  "state_untouched s s' \<longleftrightarrow> accounts s' = accounts s \<and> mainkv s' = mainkv s"

lemma checkEquivocation_gate:
  assumes "store_wired N"
  shows "wp (checkEquivocation (n_store N) n h) e
     (\<lambda>rej s'. state_untouched s s' \<and> (rej = None \<longrightarrow> seenHeights s' n = Some h))
     (\<lambda>s'. state_untouched s s') s"
proof (cases "n_store N")
  case None
  then show ?thesis
    by (auto simp: checkEquivocation_def first_sighting_def wp_rules state_untouched_def split: option.split)
next
  case (Some st)
  then have st: "n_store N = Some DBEquivocationStore" using assms by (auto simp: store_wired_def)
  show ?thesis
    unfolding st by (rule wp_mono [OF checkEquivocation_wp]) (auto simp: state_untouched_def split: if_splits)
qed

lemma validateRemoteBlock_wp:
  assumes "store_wired N"
  shows "wp (validateRemoteBlock N msg) e
     (\<lambda>(rej, ask) s'. state_untouched s s' \<and> (rej = None \<longrightarrow> (\<exists>b. m_Block msg = Some b \<and> contents_valid N b \<and>
         (EnforceBlockLinkage (n_flags N) \<longrightarrow> linked N s b) \<and> certified N msg b \<and>
         seenHeights s' (b_BlockNumber b) = Some (Hash_Hex (b_BlockHash b)))))
     (\<lambda>s'. state_untouched s s') s"
proof (cases "m_Block msg")
  case (Some b)
  show ?thesis
  proof (cases "check_contents N b")
    case None
    show ?thesis
      unfolding validateRemoteBlock_def Some None option.case wp_bnd [of "check_linkage _ _"]
    proof (rule wp_mono [OF check_linkage_wp], goal_cases)
      case (1 res s1)
      obtain rej ask where res: "res = (rej, ask)" by (cases res)
      with 1 have s1: "state_untouched s s1" "rej = None \<longrightarrow> EnforceBlockLinkage (n_flags N) \<longrightarrow> linked N s b"
        by (auto simp: state_untouched_def)
      show ?case
      proof (cases "rej = None \<and> verifyBlockCertificate N msg b = None")
        case True
        then have "wp (checkEquivocation (n_store N) (b_BlockNumber b) (Hash_Hex (b_BlockHash b))) e
            (\<lambda>rej s'. state_untouched s1 s' \<and> (rej = None \<longrightarrow> seenHeights s' (b_BlockNumber b) = Some (Hash_Hex (b_BlockHash b))))
            (\<lambda>s'. state_untouched s1 s') s1"
          using checkEquivocation_gate [OF assms] by blast
        then show ?thesis
          using True s1 None verifyBlockCertificate_None [of N msg b]
          by (auto simp: res wp_bnd wp_ret check_contents_None state_untouched_def elim!: wp_mono)
      qed (use s1 in \<open>auto simp: res wp_ret split: option.splits\<close>)
    qed simp
  qed (simp add: validateRemoteBlock_def Some wp_ret state_untouched_def)
qed (simp add: validateRemoteBlock_def wp_ret state_untouched_def)

end
