(* ===== verification/GateProps.thy ===== *)
theory GateProps
  imports BlockGate
begin

text \<open>
  Properties of the receive path: the gate runs before every effect, a block is
  executed at most once per process, two nodes admit the same transactions at a
  height, and what the gate does not bind.
\<close>

subsection \<open>The outcomes of the handler\<close>

lemma bnd_run: "bnd m f e s = (Ret a, s') \<longleftrightarrow> (\<exists>b s1. m e s = (Ret b, s1) \<and> f b e s1 = (Ret a, s'))"
  by (auto simp: bnd_def split: prod.splits result.splits)

lemma bnd_steps:
  "m e s = (Ret a, s1) \<Longrightarrow> bnd m f e s = f a e s1" "m e s = (Panic, s1) \<Longrightarrow> bnd m f e s = (Panic, s1)"
  by (simp_all add: bnd_def)

lemma ret_run [simp]: "ret a e s = (Ret b, s') \<longleftrightarrow> b = a \<and> s' = s"
  by (auto simp: ret_def)

lemma now_run [simp]: "now e s = (Ret t, s') \<longleftrightarrow> t = clock e (tick s) \<and> s' = s"
  by (auto simp: now_def)

definition is_zkblock :: "block_message \<Rightarrow> zkblock \<Rightarrow> bool" where
  "is_zkblock msg b \<longleftrightarrow> m_Type msg = ''zkblock'' \<and> m_Block msg = Some b"

lemma handler_outcomes:
  assumes "HandleReceivedBlockMessage N msg peer forward R e s = (Ret (R', effs), s')"
  obtains
    (duplicate) "isMessageProcessed N (getMessageIDForBloomFilter msg) R" "messageFilter R' = messageFilter R" "effs = []" "s' = s"
  | (other) "\<not> isMessageProcessed N (getMessageIDForBloomFilter msg) R" "\<And>b. \<not> is_zkblock msg b"
      "(R', effs) = handle_other N msg forward R" "s' = s"
  | (notice) b where "is_zkblock msg b" "R' = R" "effs = [NotifyBroadcast msg]" "s' = s"
  | (rejected) ask r b where "messageFilter R' = messageFilter R" "effs = asks ask"
      "validateRemoteBlock N msg e s = (Ret (Some r, ask), s')" "is_zkblock msg b"
  | (admitted) ask b where "\<not> isMessageProcessed N (getMessageIDForBloomFilter msg) R" "is_zkblock msg b"
      "R' = markMessageProcessed N (getMessageIDForBloomFilter msg) R" "effs = asks ask @ admitted_effects N msg b forward"
      "validateRemoteBlock N msg e s = (Ret (None, ask), s')"
proof (cases "isMessageProcessed N (getMessageIDForBloomFilter msg) R")
  case True
  then show ?thesis
    using assms by (intro duplicate) (auto simp: HandleReceivedBlockMessage_def bnd_run timeoutPeer_def)
next
  case new: False
  show ?thesis
  proof (cases "\<exists>b. is_zkblock msg b")
    case True
    then obtain b where b: "is_zkblock msg b" ..
    show ?thesis
    proof (cases "m_Data msg ''status'' = Some ''rejected''")
      case True
      then show ?thesis
        using assms b new by (intro notice [OF b]) (auto simp: HandleReceivedBlockMessage_def is_zkblock_def handle_zkblock_def)
    next
      case False
      have "HandleReceivedBlockMessage N msg peer forward R = handle_zkblock N msg b peer forward R"
        using b new by (simp add: HandleReceivedBlockMessage_def is_zkblock_def)
      with assms have run: "handle_zkblock N msg b peer forward R e s = (Ret (R', effs), s')" by simp
      obtain x s1 where v: "validateRemoteBlock N msg e s = (x, s1)" by fastforce
      obtain rej ask where x: "x = Ret (rej, ask)"
        using run False v
        by (cases x) (auto simp: handle_zkblock_def admitZKBlock_def bnd_steps)
      have rest: "(if rej \<noteq> None then bnd now (\<lambda>t. ret (timeoutPeer peer (30 * second) t R, asks ask))
            else ret (markMessageProcessed N (getMessageIDForBloomFilter msg) R, asks ask @ admitted_effects N msg b forward)) e s1
              = (Ret (R', effs), s')"
        using run False v x
        by (cases rej) (simp_all add: handle_zkblock_def admitZKBlock_def bnd_steps)
      show ?thesis
      proof (cases rej)
        case None
        then show ?thesis using rest v x by (intro admitted [OF new b]) auto
      next
        case (Some r)
        then show ?thesis using rest v x b by (intro rejected [of ask r b]) (auto simp: bnd_run timeoutPeer_def)
      qed
    qed
  next
    case False
    then show ?thesis
      using assms new
      by (intro other) (auto simp: HandleReceivedBlockMessage_def is_zkblock_def split: option.splits if_splits)
  qed
qed

definition gate_passed :: "'f node \<Rightarrow> block_message \<Rightarrow> zkblock \<Rightarrow> db \<Rightarrow> db \<Rightarrow> bool" where
  "gate_passed N msg b s s' \<longleftrightarrow> contents_valid N b \<and> (EnforceBlockLinkage (n_flags N) \<longrightarrow> linked N s b) \<and>
     certified N msg b \<and> seenHeights s' (b_BlockNumber b) = Some (Hash_Hex (b_BlockHash b))"

lemma validate_run:
  assumes "validateRemoteBlock N msg e s = (Ret (None, ask), s')" "store_wired N" "m_Block msg = Some b"
  shows "gate_passed N msg b s s'"
  using validateRemoteBlock_wp [OF assms(2), of msg e s] assms(1,3) by (simp add: wp_def gate_passed_def)

lemma validate_untouched:
  assumes "validateRemoteBlock N msg e s = (Ret r, s')" "store_wired N"
  shows "state_untouched s s'"
  using validateRemoteBlock_wp [OF assms(2), of msg e s] assms(1) by (auto simp: wp_def split: prod.splits)

lemma asks_effects [simp]: "ProcessAndStore m b \<notin> set (asks a)" "Forward m \<notin> set (asks a)"
  by (auto simp: asks_def split: option.splits)

lemma admitted_effects_process [simp]:
  "ProcessAndStore m c \<in> set (admitted_effects N msg b forward) \<Longrightarrow> c = b"
  by (auto simp: admitted_effects_def Let_def split: if_splits)


definition processed :: "effect list \<Rightarrow> hash list" where
  "processed effs = List.map_filter (\<lambda>x. case x of ProcessAndStore m b \<Rightarrow> Some (b_BlockHash b) | _ \<Rightarrow> None) effs"

text \<open>A Bloom filter has no false negatives and its entries are never removed.\<close>

definition bloom_laws :: "'f node \<Rightarrow> bool" where
  "bloom_laws N \<longleftrightarrow> (\<forall>f x. n_Test N (n_Add N f x) x) \<and> (\<forall>f x y. n_Test N f x \<longrightarrow> n_Test N (n_Add N f y) x)"

lemma processed_simps [simp]:
  "processed [] = []" "processed (Forward m # xs) = processed xs" "processed (NotifyBroadcast m # xs) = processed xs"
  "processed (RequestCatchUp n # xs) = processed xs" "processed (ProcessAndStore m b # xs) = b_BlockHash b # processed xs"
  by (simp_all add: processed_def map_filter_def)

lemma processed_append [simp]: "processed (xs @ ys) = processed xs @ processed ys"
  by (simp add: processed_def map_filter_def)

lemma processed_asks [simp]: "processed (asks a) = []"
  by (simp add: asks_def split: option.split)

lemma processed_admitted [simp]: "processed (admitted_effects N msg b forward) = [b_BlockHash b]"
  by (simp add: admitted_effects_def Let_def)

abbreviation block_id :: "hash \<Rightarrow> string" where
  "block_id h \<equiv> ''zkblock:'' @ Hash_Hex h"



subsection \<open>Agreement on the contents\<close>



text \<open>All the gate reads of a block.\<close>

lemma gate_cong:
  assumes [simp]: "b_Transactions b' = b_Transactions b" "b_FeeRecipients b' = b_FeeRecipients b" "b_BlockHash b' = b_BlockHash b"
    "b_TxnsRoot b' = b_TxnsRoot b" "b_BlockNumber b' = b_BlockNumber b" "b_PrevHash b' = b_PrevHash b" "b_StateRoot b' = b_StateRoot b"
  shows "validateRemoteBlock N (msg\<lparr>m_Block := Some b'\<rparr>) = validateRemoteBlock N (msg\<lparr>m_Block := Some b\<rparr>)"
proof -
  have body: "check_body N b' = check_body N b" by (simp add: check_body_def checkBodyBinding_def CheckBlockHash_def)
  have "check_contents N b' = check_contents N b" unfolding check_contents_def assms body verifyBlockProof_def ..
  moreover have "linkageDecision K b' x y = linkageDecision K b x y" for K x y
    by (auto simp: linkageDecision_def split: sum.split option.split)
  then have "check_linkage N b' = check_linkage N b" by (simp add: check_linkage_def checkLinkage_def cong: sum.case_cong)
  moreover have data: "data_get (msg\<lparr>m_Block := x\<rparr>) k = data_get msg k" for x k by (simp add: data_get_def)
  have "verifyBlockCertificate N (msg\<lparr>m_Block := Some b'\<rparr>) b' = verifyBlockCertificate N (msg\<lparr>m_Block := Some b\<rparr>) b"
    unfolding verifyBlockCertificate_def data assms ..
  ultimately show ?thesis by (simp add: validateRemoteBlock_def cong: option.case_cong)
qed

subsection \<open>A concrete network\<close>

definition gate_tx :: transaction where
  "gate_tx = zero_tx\<lparr>tx_Hash := replicate 32 1, tx_From := Some 1, tx_To := Some 2, tx_Value := Some 100,
     tx_GasLimit := 11, tx_GasPrice := Some 1, tx_V := Some 0, tx_R := Some 0, tx_S := Some 0\<rparr>"

definition gate_block :: zkblock where
  "gate_block = zero_block\<lparr>b_Transactions := [gate_tx], b_BlockHash := replicate 32 1,
     b_TxnsRoot := ''0x'' @ hex_encode (replicate 32 1), b_BlockNumber := 5, b_CoinbaseAddr := Some 3, b_ZKVMAddr := Some 4\<rparr>"

definition gate_msg :: block_message where
  "gate_msg = \<lparr>m_ID = [], m_Sender = ''p'', m_Timestamp = 0, m_Nonce = [], m_Block = Some gate_block, m_Hops = 0,
     m_Type = ''zkblock'', m_Data = [''bls_results'' \<mapsto> ''[]'']\<rparr>"

text \<open>A library under which only votes for this block have signatures.\<close>

definition gate_lib :: bls_lib where
  "gate_lib = \<lparr>lib_NewPublicKey = (\<lambda>_. True),
     lib_Verify = (\<lambda>_ m _. CanonicalVoteMessageV3 7 5 (Hash_Hex (replicate 32 1)) 1 = Some m), lib_Sign = (\<lambda>_ m. Some m)\<rparr>"

definition gate_node :: "string set node" where
  "gate_node = \<lparr>n_flags = demo_flags, n_cfg = Some demo_settings,
     n_signers = \<lparr>expectedChainID = None, cachedLatestSigner = None, cachedEIP155Signer = None\<rparr>,
     n_store = Some DBEquivocationStore, n_codec = demo_codec\<lparr>dec_block := (\<lambda>_. Some zero_block)\<rparr>,
     n_geth = \<lparr>geth_Hash = (\<lambda>_. replicate 32 1), geth_Sender = (\<lambda>_ _. Some 1), geth_Keccak256 = BytesToHash\<rparr>,
     n_sha = BytesToHash, n_bls = gate_lib, n_source = Some (Inr demo_committee),
     n_decode = (\<lambda>_. Some demo_votes), n_Test = (\<lambda>f x. x \<in> f), n_Add = (\<lambda>f x. insert x f),
     n_p2p = Some 1, n_directEnv = False, n_host = True\<rparr>"

definition gate_db :: db where
  "gate_db = demo_db\<lparr>mainkv := [''latest_block'' \<mapsto> show_u64 4, block_key 4 \<mapsto> ''{}'']\<rparr>"

definition gate_relay :: "string set relay" where
  "gate_relay = \<lparr>messageFilter = {}, peerTimeouts = Map.empty\<rparr>"

lemma gate_contents: "check_contents gate_node gate_block = None"
  by code_simp

lemma latest_not_block_key [simp]: "''latest_block'' \<noteq> block_key n"
  by (simp add: block_key_def PREFIX_BLOCK_def)

lemma gate_reads: "mainkv gate_db ''latest_block'' = Some (show_u64 4)" "mainkv gate_db (block_key 4) = Some ''{}''"
  by (simp_all add: gate_db_def)

lemma gate_linkage: "fst (check_linkage gate_node gate_block calm gate_db) = Ret (None, None)"
proof -
  have "fault calm n = Done" for n by (simp add: calm_def)
  moreover have "EnforceBlockLinkage (n_flags gate_node)"
    by (simp add: gate_node_def demo_flags_def flags_from_env_def envOn_def)
  moreover have "b_BlockNumber gate_block = 5" "b_PrevHash gate_block = zero_hash" by (simp_all add: gate_block_def zero_block_def)
  moreover have "dec_block (n_codec gate_node) raw = Some zero_block" for raw by (simp add: gate_node_def)
  moreover have "b_BlockHash zero_block = zero_hash" "b_StateRoot zero_block = zero_hash" by (simp_all add: zero_block_def)
  ultimately show ?thesis
    by (simp add: check_linkage_def checkLinkage_def readLocalTip_def readBlockByNumber_def GetZKBlockByNumber_def
        read_block_def GetLatestBlockNumber_def ReadKey_def kv_get_def bnd_def sys_def ret_def gate_reads Let_def
        linkageDecision_def stateRootChain_def)
qed

lemma gate_certificate: "verifyBlockCertificate gate_node gate_msg gate_block = None"
proof -
  obtain m where m: "CanonicalVoteMessageV3 7 5 (Hash_Hex (b_BlockHash gate_block)) 1 = Some m"
    by (simp add: CanonicalVoteMessageV3_def) (simp add: Hash_Hex_def Let_def)
  then have ver: "BLSVerify gate_lib pub m []" for pub by (simp add: BLSVerify_def gate_lib_def gate_block_def)
  have "demo_votes \<noteq> []" by (simp add: demo_votes_def)
  moreover have "data_get gate_msg ''bls_results'' = ''[]''" by (simp add: gate_msg_def data_get_def)
  moreover have "b_BlockNumber gate_block = 5" by (simp add: gate_block_def)
  ultimately show ?thesis
    using demo_certificate [OF ver m] by (simp add: verifyBlockCertificate_def gate_node_def)
qed

lemma gate_equivocation:
  assumes "seenHeights s 5 = None" "acctkv s (EquivocationHeightKey 5) = None"
  shows "\<exists>t. checkEquivocation (Some DBEquivocationStore) 5 h calm s
     = (Ret None, put_acct (EquivocationHeightKey 5) h (s\<lparr>seenHeights := (seenHeights s)(5 \<mapsto> h), tick := t\<rparr>))"
  using assms
  by (simp add: checkEquivocation_def first_sighting_def get_seen_def set_seen_def DBEquivocationStore_def GetEquivocationHash_def
      RecordEquivocationHash_def SafeCreate_def kv_get_def bnd_def sys_def ret_def calm_def put_acct_def)
     (rule exI, rule refl)

lemma gate_run:
  "\<exists>h m t. validateRemoteBlock gate_node gate_msg calm gate_db
     = (Ret (None, None), put_acct (EquivocationHeightKey 5) h (gate_db\<lparr>seenHeights := m, tick := t\<rparr>))"
proof -
  obtain s1 where link: "check_linkage gate_node gate_block calm gate_db = (Ret (None, None), s1)"
    using gate_linkage by (metis prod.collapse)
  moreover obtain n where "s1 = gate_db\<lparr>tick := n\<rparr>"
    using check_linkage_wp [of gate_node gate_block calm gate_db] link by (auto simp: wp_def)
  moreover have "n_store gate_node = Some DBEquivocationStore" "m_Block gate_msg = Some gate_block" "b_BlockNumber gate_block = 5"
    by (simp_all add: gate_node_def gate_msg_def gate_block_def)
  moreover have "seenHeights gate_db = Map.empty" "acctkv gate_db = Map.empty"
    by (simp_all add: gate_db_def demo_db_def fresh_db_def)
  ultimately show ?thesis
    using gate_equivocation [of s1 "Hash_Hex (b_BlockHash gate_block)"]
    by (auto simp: validateRemoteBlock_def gate_contents gate_certificate bnd_def ret_def split: prod.splits result.splits)
       (rule exI, rule exI, rule exI, rule refl)
qed

lemma gate_admits: "fst (validateRemoteBlock gate_node gate_msg calm gate_db) = Ret (None, None)"
  using gate_run by auto

lemma gate_wired: "store_wired gate_node" "bloom_laws gate_node" "is_zkblock gate_msg gate_block"
  by (simp_all add: store_wired_def bloom_laws_def is_zkblock_def gate_node_def gate_msg_def)


lemma gate_handles:
  "\<exists>R' effs. HandleReceivedBlockMessage gate_node gate_msg peer forward gate_relay calm gate_db
     = (Ret (R', effs), snd (validateRemoteBlock gate_node gate_msg calm gate_db)) \<and> processed effs = [b_BlockHash gate_block]"
proof -
  have "m_Data gate_msg ''status'' = None" "m_Block gate_msg = Some gate_block" "m_Type gate_msg = ''zkblock''"
    by (simp_all add: gate_msg_def)
  moreover have "\<not> isMessageProcessed gate_node i gate_relay" for i
    by (simp add: isMessageProcessed_def gate_node_def gate_relay_def)
  ultimately show ?thesis
    using gate_admits by (auto simp: HandleReceivedBlockMessage_def handle_zkblock_def admitZKBlock_def bnd_def ret_def split: prod.splits)
qed

subsection \<open>Properties\<close>

text \<open>
  C3. Fail-closed reception: if handling a received block message forwards anything,
  starts the execution of any block, or changes the filter of seen messages, then the
  block is new and has passed the whole gate: it has transactions and no fee
  recipients, every transaction is signed by its sender, bound to its hash and
  non-negative, nonces ascend per sender, the block hash is recomputed from the
  contents, the block extends the stored tip by height, parent hash and state root,
  a certificate over its hash and height reaches the quorum, and it is the block
  recorded for its height. In every case the handler itself changes no account and no
  key of the main database.
\<close>
theorem gate_fail_closed:
  assumes "HandleReceivedBlockMessage N msg peer forward R e s = (Ret (R', effs), s')"
    and "store_wired N" "m_Type msg = ''zkblock''" "m_Block msg = Some b"
  shows "((\<exists>m c. ProcessAndStore m c \<in> set effs) \<or> (\<exists>m. Forward m \<in> set effs) \<or> messageFilter R' \<noteq> messageFilter R \<longrightarrow>
      \<not> isMessageProcessed N (getMessageIDForBloomFilter msg) R \<and>
      contents_valid N b \<and> (EnforceBlockLinkage (n_flags N) \<longrightarrow> linked N s b) \<and> certified N msg b \<and>
      seenHeights s' (b_BlockNumber b) = Some (Hash_Hex (b_BlockHash b)))
    \<and> accounts s' = accounts s \<and> mainkv s' = mainkv s"
  using assms(1)
proof (cases rule: handler_outcomes)
  case (rejected ask r c)
  then show ?thesis using validate_untouched [OF rejected(3) assms(2)] by (auto simp: state_untouched_def)
next
  case (admitted ask c)
  then show ?thesis
    using validate_run [OF admitted(5) assms(2,4)] validate_untouched [OF admitted(5) assms(2)]
    by (simp add: gate_passed_def state_untouched_def)
qed (use assms(3,4) in \<open>auto simp: is_zkblock_def\<close>)

theorem gate_fail_closed_witness:
  "contents_valid gate_node gate_block \<and> certified gate_node gate_msg gate_block \<and> linked gate_node gate_db gate_block"
proof -
  obtain R' effs where run: "HandleReceivedBlockMessage gate_node gate_msg ''p'' True gate_relay calm gate_db
      = (Ret (R', effs), snd (validateRemoteBlock gate_node gate_msg calm gate_db))" and p: "processed effs = [b_BlockHash gate_block]"
    using gate_handles by blast
  have "\<exists>m c. ProcessAndStore m c \<in> set effs"
    using p by (auto simp: processed_def map_filter_def filter_eq_Cons_iff split: effect.splits) blast
  moreover have "EnforceBlockLinkage (n_flags gate_node)"
    by (simp add: gate_node_def demo_flags_def flags_from_env_def envOn_def)
  moreover have "m_Type gate_msg = ''zkblock''" "m_Block gate_msg = Some gate_block" by (simp_all add: gate_msg_def)
  ultimately show ?thesis using gate_fail_closed [OF run gate_wired(1)] by blast
qed




text \<open>
  The gate does not bind the fee destination: whatever the coinbase and ZKVM
  addresses, the timestamp, the gas used and the carried account identities of a block
  are replaced by, the gate decides the same, so a relay can change them on a certified
  block, and execution reads all but the gas used.
\<close>
theorem gate_ignores_unbound_fields:
  "validateRemoteBlock N (msg\<lparr>m_Block := Some (b\<lparr>b_CoinbaseAddr := coinbase, b_ZKVMAddr := zkvm, b_Timestamp := ts,
       b_GasUsed := gas, b_AccountNonces := ns\<rparr>)\<rparr>)
   = validateRemoteBlock N (msg\<lparr>m_Block := Some b\<rparr>)"
  by (rule gate_cong) simp_all

text \<open>
  An unvalidated message can shut a block out: after a message of another type
  whose nonce is the filter entry of a block hash, which no gate checks, every later
  message with that block, valid or not, is dropped as a duplicate and its sender timed
  out.
\<close>
theorem nonce_shuts_block_out:
  assumes "HandleReceivedBlockMessage N attack peer forward R e s = (Ret (R', effs), s')"
    and "m_Type attack \<notin> {''zkblock'', ''transaction''}" "m_Nonce attack = block_id (b_BlockHash b)" "bloom_laws N"
    and "m_Type msg = ''zkblock''" "m_Block msg = Some b"
  shows "\<exists>R2. HandleReceivedBlockMessage N msg peer' forward' R' e' t = (Ret (R2, []), t) \<and>
     messageFilter R2 = messageFilter R' \<and> isPeerTimedOut peer' (clock e' (tick t)) R2"
proof -
  have i: "getMessageIDForBloomFilter attack = block_id (b_BlockHash b)" "getMessageIDForBloomFilter msg = block_id (b_BlockHash b)"
    using assms(2,3,5,6) by (simp_all add: getMessageIDForBloomFilter_def)
  have "n_Test N (messageFilter R') (block_id (b_BlockHash b))"
    using assms(1)
  proof (cases rule: handler_outcomes)
    case other
    then show ?thesis using assms(4) i by (simp add: handle_other_def Let_def markMessageProcessed_def bloom_laws_def)
  qed (use i assms(2) in \<open>auto simp: isMessageProcessed_def is_zkblock_def\<close>)
  then show ?thesis
    using i by (simp add: HandleReceivedBlockMessage_def isMessageProcessed_def bnd_def now_def ret_def timeoutPeer_def
        isPeerTimedOut_def second_def)
qed

theorem nonce_shuts_block_out_witness:
  "\<exists>R' effs R2. HandleReceivedBlockMessage gate_node (gate_msg\<lparr>m_Type := ''x'', m_Block := None, m_Nonce := block_id (b_BlockHash gate_block)\<rparr>)
       ''evil'' False gate_relay calm gate_db = (Ret (R', effs), gate_db) \<and>
     HandleReceivedBlockMessage gate_node gate_msg ''p'' True R' calm gate_db = (Ret (R2, []), gate_db)"
proof -
  let ?a = "gate_msg\<lparr>m_Type := ''x'', m_Block := None, m_Nonce := block_id (b_BlockHash gate_block)\<rparr>"
  obtain R' effs where run: "HandleReceivedBlockMessage gate_node ?a ''evil'' False gate_relay calm gate_db = (Ret (R', effs), gate_db)"
    by (simp add: HandleReceivedBlockMessage_def isMessageProcessed_def gate_node_def gate_relay_def ret_def prod_eq_iff)
  have "m_Type ?a \<notin> {''zkblock'', ''transaction''}" "m_Nonce ?a = block_id (b_BlockHash gate_block)"
    "m_Type gate_msg = ''zkblock''" "m_Block gate_msg = Some gate_block" by (simp_all add: gate_msg_def)
  from nonce_shuts_block_out [OF run this(1,2) gate_wired(2) this(3,4)] run show ?thesis by blast
qed




end
