(* ===== verification/AccountRecon.thy ===== *)
theory AccountRecon
  imports BlockStore "HOL-Library.AList"
begin

text \<open>
  Catch-up reconciliation: \<^verbatim>\<open>src/DB_OPs/account_recon.go\<close>. A node that missed a block
  recomputes the block's effects from the stored block, leaves out the transactions
  whose \<^verbatim>\<open>tx_processed\<close> marker is set, and commits the rest in groups, each with its
  markers in one atomic write.

  The Go map from lower-case hexadecimal addresses to deltas is an association list
  keyed by address; sorting the lower-case strings is sorting the addresses.
\<close>

subsection \<open>Deltas\<close>

record account_delta =
  d_Balance :: int
  d_TxNonce :: u64
  d_TxCountSent :: u64
  d_IsSender :: bool

type_synonym deltas = "(addr \<times> account_delta) list"

definition zero_delta :: account_delta where
  "zero_delta = \<lparr>d_Balance = 0, d_TxNonce = 0, d_TxCountSent = 0, d_IsSender = False\<rparr>"

definition delta_of :: "deltas \<Rightarrow> addr \<Rightarrow> account_delta" where
  "delta_of ds a = (case map_of ds a of None \<Rightarrow> zero_delta | Some d \<Rightarrow> d)"

definition upd_delta :: "addr \<Rightarrow> (account_delta \<Rightarrow> account_delta) \<Rightarrow> deltas \<Rightarrow> deltas" where
  "upd_delta a f ds = AList.update a (f (delta_of ds a)) ds"

definition add_balance :: "int \<Rightarrow> account_delta \<Rightarrow> account_delta" where
  "add_balance v d = d\<lparr>d_Balance := d_Balance d + v\<rparr>"

text \<open>The addresses a transaction may touch, with repetitions.\<close>

definition txTouchedAccounts :: "zkblock \<Rightarrow> transaction \<Rightarrow> addr list" where
  "txTouchedAccounts blk tx =
     (case tx_From tx of None \<Rightarrow> [] | Some a \<Rightarrow> [a]) @ (case tx_To tx of None \<Rightarrow> [] | Some a \<Rightarrow> [a]) @
     (case b_CoinbaseAddr blk of None \<Rightarrow> [] | Some a \<Rightarrow> [a]) @ map fr_Addr (b_FeeRecipients blk) @
     (case b_ZKVMAddr blk of None \<Rightarrow> [] | Some a \<Rightarrow> [a])"

definition positive_value :: "transaction \<Rightarrow> int" where
  "positive_value tx = (case tx_Value tx of None \<Rightarrow> 0 | Some v \<Rightarrow> if v > 0 then v else 0)"

definition sender_delta :: "transaction \<Rightarrow> int \<Rightarrow> account_delta \<Rightarrow> account_delta" where
  "sender_delta tx gasFee d =
     \<lparr>d_Balance = d_Balance d - gasFee - positive_value tx,
      d_TxNonce = (if \<not> d_IsSender d \<or> tx_Nonce tx + 1 > d_TxNonce d then tx_Nonce tx + 1 else d_TxNonce d),
      d_TxCountSent = d_TxCountSent d + 1, d_IsSender = True\<rparr>"

definition tx_deltas :: "zkblock \<Rightarrow> transaction \<Rightarrow> deltas \<Rightarrow> deltas" where
  "tx_deltas blk tx ds0 =
     (let coinbase = (case b_CoinbaseAddr blk of None \<Rightarrow> 0 | Some a \<Rightarrow> a);
          gasFee = GasFee (tx_Type tx) (tx_GasLimit tx) (tx_GasPrice tx) (tx_MaxFee tx) (tx_MaxPriorityFee tx);
          (zkvmShare, coinbaseCredits) = SplitFee (Some gasFee) coinbase (b_FeeRecipients blk);
          ds1 = (case tx_From tx of None \<Rightarrow> ds0 | Some a \<Rightarrow> upd_delta a (sender_delta tx gasFee) ds0);
          ds2 = (case tx_To tx of None \<Rightarrow> ds1
                 | Some a \<Rightarrow> if positive_value tx > 0 then upd_delta a (add_balance (positive_value tx)) ds1 else ds1);
          ds3 = (if b_CoinbaseAddr blk = None then ds2
                 else fold (\<lambda>c. upd_delta (fc_Addr c) (add_balance (fc_Amount c))) coinbaseCredits ds2)
      in case b_ZKVMAddr blk of None \<Rightarrow> ds3 | Some a \<Rightarrow> upd_delta a (add_balance zkvmShare) ds3)"

definition ComputeBlockDeltas :: "zkblock \<Rightarrow> (string \<Rightarrow> bool) \<Rightarrow> deltas" where
  "ComputeBlockDeltas blk skipTxs =
     fold (\<lambda>tx ds. if skipTxs (Hash_Hex (tx_Hash tx)) then ds else tx_deltas blk tx ds) (b_Transactions blk) []"

definition applyDeltaToAccount :: "account option \<Rightarrow> addr \<Rightarrow> account_delta \<Rightarrow> u64 \<Rightarrow> err + account" where
  "applyDeltaToAccount existing a d updatedAtNanos =
     (let doc = (case existing of Some acc \<Rightarrow> acc
                 | None \<Rightarrow> zero_account\<lparr>a_Address := a, a_Balance := ''0'', a_AccountType := ''user'', a_CreatedAt := updatedAtNanos\<rparr>)
      in case (if a_Balance doc = [] then Some 0 else big_SetString (a_Balance doc)) of
           None \<Rightarrow> Inl EBadBalance
         | Some base \<Rightarrow> Inr (doc\<lparr>a_Balance := big_String (base + d_Balance d),
             a_TxNonce := (if d_TxNonce d > a_TxNonce doc then d_TxNonce d else a_TxNonce doc),
             a_TxCountSent := a_TxCountSent doc + d_TxCountSent d, a_UpdatedAt := updatedAtNanos\<rparr>))"

subsection \<open>Groups\<close>

definition reconGroupOpBudget :: int where "reconGroupOpBudget = 1000"

text \<open>The inner loop: the group collected so far, and the transactions left when it is full.\<close>

fun fill_group ::
  "zkblock \<Rightarrow> (string \<Rightarrow> bool) \<Rightarrow> int \<Rightarrow> transaction list \<Rightarrow> addr list \<Rightarrow> string list \<Rightarrow> string list \<times> transaction list" where
  "fill_group blk pendingSet budget [] groupAccounts groupTxs = (groupTxs, [])"
| "fill_group blk pendingSet budget (tx # txs) groupAccounts groupTxs =
     (let h = Hash_Hex (tx_Hash tx);
          cand = txTouchedAccounts blk tx;
          newAccounts = length (filter (\<lambda>a. a \<notin> set groupAccounts) cand)
      in if \<not> pendingSet h then fill_group blk pendingSet budget txs groupAccounts groupTxs
         else if groupTxs \<noteq> [] \<and> int (length groupAccounts + newAccounts + length groupTxs + 1) > budget
         then (groupTxs, tx # txs)
         else fill_group blk pendingSet budget txs (fold List.insert cand groupAccounts) (groupTxs @ [h]))"

lemma fill_group_shrinks: "length (snd (fill_group blk p budget txs acc g)) \<le> length txs"
  by (induction txs arbitrary: acc g) (auto simp: Let_def intro: le_SucI)

lemma fill_group_progress: "length (snd (fill_group blk p budget (tx # txs) [] [])) < length (tx # txs)"
  using fill_group_shrinks [of blk p budget txs] by (auto simp: Let_def le_imp_less_Suc)

function recon_groups :: "zkblock \<Rightarrow> (string \<Rightarrow> bool) \<Rightarrow> int \<Rightarrow> transaction list \<Rightarrow> string list list" where
  "recon_groups blk pendingSet budget [] = []"
| "recon_groups blk pendingSet budget (tx # txs) =
     (let (groupTxs, rest) = fill_group blk pendingSet budget (tx # txs) [] []
      in (if groupTxs = [] then [] else [groupTxs]) @ recon_groups blk pendingSet budget rest)"
  by pat_completeness auto
termination
proof (relation "measure (\<lambda>(_, _, _, txs). length txs)", goal_cases)
  case (2 blk p budget tx txs z g rest)
  then show ?case using fill_group_progress [of blk p budget tx txs] by (metis in_measure case_prod_conv snd_conv)
qed simp

definition partitionReconGroups :: "zkblock \<Rightarrow> (string \<Rightarrow> bool) \<Rightarrow> int \<Rightarrow> string list list" where
  "partitionReconGroups blk pendingSet budget = recon_groups blk pendingSet budget (b_Transactions blk)"

subsection \<open>Committing\<close>

primrec recon_docs :: "ledger \<Rightarrow> deltas \<Rightarrow> u64 \<Rightarrow> addr list \<Rightarrow> err + account list" where
  "recon_docs existing ds updatedAt [] = Inr []"
| "recon_docs existing ds updatedAt (a # as) =
     (case applyDeltaToAccount (existing a) a (delta_of ds a) updatedAt of
        Inl e \<Rightarrow> Inl e
      | Inr doc \<Rightarrow> (case recon_docs existing ds updatedAt as of Inl e \<Rightarrow> Inl e | Inr docs \<Rightarrow> Inr (doc # docs)))"

text \<open>The prefetch of the stored documents: one \<^verbatim>\<open>GetAll\<close>, whose error is not taken for absence.\<close>

definition prefetch :: "addr list \<Rightarrow> (err + ledger) go" where
  "prefetch as = (if as = [] then ret (Inr Map.empty)
     else sys (\<lambda>oc s. (if oc = Done then Inr (\<lambda>a. if a \<in> set as then accounts s a else None) else Inl EDb, s)))"

definition commitReconGroup :: "deltas \<Rightarrow> string list \<Rightarrow> u64 \<Rightarrow> int \<Rightarrow> (err + unit) go" where
  "commitReconGroup ds groupTxs updatedAtNanos appliedAt =
     (let addrs = sort (map fst ds)
      in attempt (prefetch addrs) (\<lambda>e. ret (Inl e)) (\<lambda>existing.
         case recon_docs existing ds updatedAtNanos addrs of
           Inl e \<Rightarrow> ret (Inl e)
         | Inr docs \<Rightarrow>
             let ops = map put_account docs @ map (\<lambda>h. markerOp (TxProcessedKey h) appliedAt) groupTxs
             in if ops = [] then ret (Inr ())
                else if length ops > maxExecAllEntries then ret (Inl ETooManyEntries)
                else ExecAll ops))"

primrec commit_groups :: "zkblock \<Rightarrow> u64 \<Rightarrow> int \<Rightarrow> string list list \<Rightarrow> (err + bool) go" where
  "commit_groups blk updatedAt appliedAt [] = ret (Inr True)"
| "commit_groups blk updatedAt appliedAt (groupTxs # groups) =
     attempt (commitReconGroup (ComputeBlockDeltas blk (\<lambda>h. h \<notin> set groupTxs)) groupTxs updatedAt appliedAt)
       (\<lambda>e. ret (Inl e)) (\<lambda>_. commit_groups blk updatedAt appliedAt groups)"

text \<open>The critical section: marker filter, base reads and commits under the state-apply lock.\<close>

definition recon_locked :: "zkblock \<Rightarrow> (err + bool) go" where
  "recon_locked blk =
     (let hashes = map (\<lambda>tx. Hash_Hex (tx_Hash tx)) (b_Transactions blk)
      in attempt (FilterProcessedTxMarkers hashes) (\<lambda>e. ret (Inl e)) (\<lambda>applied.
         let pendingTx = filter (\<lambda>h. \<not> applied h) hashes
         in if pendingTx = [] then ret (Inr True)
            else attempt acquire (\<lambda>e. ret (Inl e)) (\<lambda>_.
                 bnd now (\<lambda>appliedAt.
                 commit_groups blk (nanos (b_Timestamp blk)) appliedAt
                   (partitionReconGroups blk (\<lambda>h. h \<in> set pendingTx) reconGroupOpBudget)))))"

definition ApplyBlockRecon :: "codec \<Rightarrow> u64 \<Rightarrow> string \<Rightarrow> (err + bool) go" where
  "ApplyBlockRecon C blockNumber expectHash =
     attempt acquire (\<lambda>e. ret (Inl e)) (\<lambda>_.
     attempt (GetZKBlockByNumber C blockNumber) (\<lambda>e. ret (Inl e)) (\<lambda>blk.
       if expectHash \<noteq> [] \<and> ToLower (Hash_Hex (b_BlockHash blk)) \<noteq> ToLower expectHash then ret (Inl EBadRecord)
       else if b_Transactions blk = [] then ret (Inr True)
       else bnd LockStateApply (\<lambda>_. deferring (recon_locked blk) unlock_state)))"

end
