(* ===== verification/ReconExecution.thy ===== *)
theory ReconExecution
  imports AccountRecon
begin

text \<open>
  What reconciliation computes and commits: the deltas of a set of transactions are
  the sum of their effects, groups partition the outstanding transactions, a committed
  group moves balances and markers together, and live execution has the same effects.
\<close>

subsection \<open>The effect of one transaction\<close>

definition coinbase_of :: "zkblock \<Rightarrow> addr" where
  "coinbase_of blk = tx_party (b_CoinbaseAddr blk)"

definition tx_effect :: "zkblock \<Rightarrow> transaction \<Rightarrow> addr \<Rightarrow> int" where
  "tx_effect blk tx a =
     (if tx_From tx = Some a then - tx_fee tx - positive_value tx else 0) +
     (if tx_To tx = Some a then positive_value tx else 0) +
     (if b_CoinbaseAddr blk = None then 0
      else credited a (snd (SplitFee (Some (tx_fee tx)) (coinbase_of blk) (b_FeeRecipients blk)))) +
     (if b_ZKVMAddr blk = Some a then fst (SplitFee (Some (tx_fee tx)) (coinbase_of blk) (b_FeeRecipients blk)) else 0)"

definition sends :: "transaction \<Rightarrow> addr \<Rightarrow> bool" where
  "sends tx a \<longleftrightarrow> tx_From tx = Some a"

lemma delta_of_upd: "delta_of (upd_delta a f ds) x = (if x = a then f (delta_of ds a) else delta_of ds x)"
  by (simp add: upd_delta_def delta_of_def update_conv')

lemma positive_value_nonneg [simp]: "0 \<le> positive_value tx"
  by (simp add: positive_value_def split: option.split)

lemma credits_balance:
  "d_Balance (delta_of (fold (\<lambda>c. upd_delta (fc_Addr c) (add_balance (fc_Amount c))) cs ds) a)
     = d_Balance (delta_of ds a) + credited a cs"
  by (induction cs arbitrary: ds) (auto simp: delta_of_upd add_balance_def)

lemma credits_sender:
  "d_TxNonce (delta_of (fold (\<lambda>c. upd_delta (fc_Addr c) (add_balance (fc_Amount c))) cs ds) a) = d_TxNonce (delta_of ds a)"
  "d_TxCountSent (delta_of (fold (\<lambda>c. upd_delta (fc_Addr c) (add_balance (fc_Amount c))) cs ds) a) = d_TxCountSent (delta_of ds a)"
  "d_IsSender (delta_of (fold (\<lambda>c. upd_delta (fc_Addr c) (add_balance (fc_Amount c))) cs ds) a) = d_IsSender (delta_of ds a)"
  by (induction cs arbitrary: ds) (auto simp: delta_of_upd add_balance_def)

text \<open>One lemma per field of the delta; the nonce is a running maximum.\<close>

definition nonce_fresh :: "account_delta \<Rightarrow> bool" where
  "nonce_fresh d \<longleftrightarrow> d_IsSender d \<or> d_TxNonce d = 0"

lemma tx_deltas_fields:
  "d_Balance (delta_of (tx_deltas blk tx ds) a) = d_Balance (delta_of ds a) + tx_effect blk tx a"
  "d_TxCountSent (delta_of (tx_deltas blk tx ds) a) = d_TxCountSent (delta_of ds a) + (if sends tx a then 1 else 0)"
  "nonce_fresh (delta_of ds a) \<Longrightarrow> d_TxNonce (delta_of (tx_deltas blk tx ds) a)
     = (if sends tx a then max (d_TxNonce (delta_of ds a)) (tx_Nonce tx + 1) else d_TxNonce (delta_of ds a))"
  "nonce_fresh (delta_of ds a) \<Longrightarrow> nonce_fresh (delta_of (tx_deltas blk tx ds) a)"
proof -
  obtain z cs where split: "SplitFee (Some (tx_fee tx)) (coinbase_of blk) (b_FeeRecipients blk) = (z, cs)" by fastforce
  define ds1 where "ds1 = (case tx_From tx of None \<Rightarrow> ds | Some a \<Rightarrow> upd_delta a (sender_delta tx (tx_fee tx)) ds)"
  define ds2 where "ds2 = (case tx_To tx of None \<Rightarrow> ds1
      | Some a \<Rightarrow> if positive_value tx > 0 then upd_delta a (add_balance (positive_value tx)) ds1 else ds1)"
  define ds3 where "ds3 = (if b_CoinbaseAddr blk = None then ds2
      else fold (\<lambda>c. upd_delta (fc_Addr c) (add_balance (fc_Amount c))) cs ds2)"
  have all: "tx_deltas blk tx ds = (case b_ZKVMAddr blk of None \<Rightarrow> ds3 | Some a \<Rightarrow> upd_delta a (add_balance z) ds3)"
    unfolding tx_deltas_def Let_def split [unfolded tx_fee_def coinbase_of_def tx_party_def] prod.case
      ds3_def ds2_def ds1_def tx_fee_def ..
  have b1: "d_Balance (delta_of ds1 a) = d_Balance (delta_of ds a) + (if sends tx a then - tx_fee tx - positive_value tx else 0)"
    by (auto simp: ds1_def delta_of_upd sender_delta_def sends_def split: option.split)
  have b2: "d_Balance (delta_of ds2 a) = d_Balance (delta_of ds1 a) + (if tx_To tx = Some a then positive_value tx else 0)"
    using positive_value_nonneg [of tx] by (auto simp: ds2_def delta_of_upd add_balance_def order.order_iff_strict split: option.split)
  have b3: "d_Balance (delta_of ds3 a) = d_Balance (delta_of ds2 a) + (if b_CoinbaseAddr blk = None then 0 else credited a cs)"
    by (simp add: ds3_def credits_balance)
  show "d_Balance (delta_of (tx_deltas blk tx ds) a) = d_Balance (delta_of ds a) + tx_effect blk tx a"
    unfolding all by (auto simp: delta_of_upd add_balance_def b1 b2 b3 tx_effect_def split sends_def split: option.split)
  have same: "d_TxNonce (delta_of (tx_deltas blk tx ds) a) = d_TxNonce (delta_of ds1 a)"
    "d_TxCountSent (delta_of (tx_deltas blk tx ds) a) = d_TxCountSent (delta_of ds1 a)"
    "d_IsSender (delta_of (tx_deltas blk tx ds) a) = d_IsSender (delta_of ds1 a)"
    unfolding all by (auto simp: ds3_def ds2_def credits_sender delta_of_upd add_balance_def split: option.split)
  show "d_TxCountSent (delta_of (tx_deltas blk tx ds) a) = d_TxCountSent (delta_of ds a) + (if sends tx a then 1 else 0)"
    "nonce_fresh (delta_of ds a) \<Longrightarrow> d_TxNonce (delta_of (tx_deltas blk tx ds) a)
       = (if sends tx a then max (d_TxNonce (delta_of ds a)) (tx_Nonce tx + 1) else d_TxNonce (delta_of ds a))"
    "nonce_fresh (delta_of ds a) \<Longrightarrow> nonce_fresh (delta_of (tx_deltas blk tx ds) a)"
    by (auto simp: nonce_fresh_def same ds1_def delta_of_upd sender_delta_def sends_def max_def not_less split: option.split)
qed

subsection \<open>The effect of a set of transactions\<close>

abbreviation hex :: "transaction \<Rightarrow> string" where
  "hex tx \<equiv> Hash_Hex (tx_Hash tx)"

definition txs_in :: "transaction list \<Rightarrow> string set \<Rightarrow> transaction list" where
  "txs_in txs H = filter (\<lambda>tx. hex tx \<in> H) txs"

definition effect_in :: "zkblock \<Rightarrow> string set \<Rightarrow> addr \<Rightarrow> int" where
  "effect_in blk H a = (\<Sum>tx \<leftarrow> txs_in (b_Transactions blk) H. tx_effect blk tx a)"

definition sent_in :: "zkblock \<Rightarrow> string set \<Rightarrow> addr \<Rightarrow> u64" where
  "sent_in blk H a = (\<Sum>tx \<leftarrow> txs_in (b_Transactions blk) H. if sends tx a then 1 else 0)"

definition nonce_in :: "zkblock \<Rightarrow> string set \<Rightarrow> addr \<Rightarrow> u64" where
  "nonce_in blk H a = fold (\<lambda>tx m. if sends tx a then max m (tx_Nonce tx + 1) else m) (txs_in (b_Transactions blk) H) 0"

lemma fold_max:
  fixes f :: "'a \<Rightarrow> u64"
  shows "fold (\<lambda>x m. if P x then max m (f x) else m) xs (max m n) = max m (fold (\<lambda>x m. if P x then max m (f x) else m) xs n)"
  by (induction xs arbitrary: n) (auto simp: max.assoc)

lemma u64_max0 [simp]: "max (0 :: u64) x = x" "max x (0 :: u64) = x"
  by (simp_all add: max_def word_le_0_iff)

lemma txs_in_disjoint_sum:
  "set G \<inter> H = {} \<Longrightarrow> (\<Sum>tx \<leftarrow> txs_in txs (set G \<union> H). (f tx :: 'b :: comm_monoid_add)) = (\<Sum>tx \<leftarrow> txs_in txs (set G). f tx) + (\<Sum>tx \<leftarrow> txs_in txs H. f tx)"
  by (induction txs) (auto simp: txs_in_def algebra_simps)

lemma effect_in_union: "set G \<inter> H = {} \<Longrightarrow> effect_in blk (set G \<union> H) a = effect_in blk (set G) a + effect_in blk H a"
  unfolding effect_in_def by (rule txs_in_disjoint_sum)

lemma sent_in_union: "set G \<inter> H = {} \<Longrightarrow> sent_in blk (set G \<union> H) a = sent_in blk (set G) a + sent_in blk H a"
  unfolding sent_in_def by (rule txs_in_disjoint_sum)

lemma nonce_in_union: "nonce_in blk (G \<union> H) a = max (nonce_in blk G a) (nonce_in blk H a)"
proof -
  let ?f = "\<lambda>tx m. if sends tx a then max m (tx_Nonce tx + 1) else m"
  have "fold ?f (txs_in txs (G \<union> H)) (max m n) = max (fold ?f (txs_in txs G) m) (fold ?f (txs_in txs H) n)" for txs m n
  proof (induction txs arbitrary: m n)
    case (Cons tx txs)
    let ?k = "tx_Nonce tx + 1"
    have "max (max m n) ?k = max (max m ?k) (max n ?k)" "max (max m n) ?k = max (max m ?k) n" "max (max m n) ?k = max m (max n ?k)"
      by (simp_all add: max.assoc max.left_commute max.commute)
    then show ?case using Cons.IH by (auto simp: txs_in_def) metis+
  qed (simp add: txs_in_def)
  from this [of "b_Transactions blk" 0 0] show ?thesis by (simp add: nonce_in_def)
qed

lemma in_empty [simp]: "effect_in blk {} a = 0" "sent_in blk {} a = 0" "nonce_in blk {} a = 0"
  by (simp_all add: effect_in_def sent_in_def nonce_in_def txs_in_def)

lemma ComputeBlockDeltas_fields:
  "d_Balance (delta_of (ComputeBlockDeltas blk (\<lambda>h. h \<notin> H)) a) = effect_in blk H a"
  "d_TxCountSent (delta_of (ComputeBlockDeltas blk (\<lambda>h. h \<notin> H)) a) = sent_in blk H a"
  "d_TxNonce (delta_of (ComputeBlockDeltas blk (\<lambda>h. h \<notin> H)) a) = nonce_in blk H a"
proof -
  let ?f = "\<lambda>tx ds. if hex tx \<notin> H then ds else tx_deltas blk tx ds"
  let ?n = "\<lambda>tx m. if sends tx a then max m (tx_Nonce tx + 1) else m"
  have bal: "d_Balance (delta_of (fold ?f txs ds) a) = d_Balance (delta_of ds a) + (\<Sum>tx \<leftarrow> txs_in txs H. tx_effect blk tx a)" for txs ds
    by (induction txs arbitrary: ds) (auto simp: txs_in_def tx_deltas_fields)
  have sent: "d_TxCountSent (delta_of (fold ?f txs ds) a) = d_TxCountSent (delta_of ds a) + (\<Sum>tx \<leftarrow> txs_in txs H. if sends tx a then 1 else 0)" for txs ds
    by (induction txs arbitrary: ds) (auto simp: txs_in_def tx_deltas_fields)
  have nonce: "nonce_fresh (delta_of ds a) \<Longrightarrow> d_TxNonce (delta_of (fold ?f txs ds) a) = fold ?n (txs_in txs H) (d_TxNonce (delta_of ds a))" for txs ds
    by (induction txs arbitrary: ds) (auto simp: txs_in_def tx_deltas_fields)
  have "delta_of [] a = zero_delta" by (simp add: delta_of_def)
  then show "d_Balance (delta_of (ComputeBlockDeltas blk (\<lambda>h. h \<notin> H)) a) = effect_in blk H a"
    "d_TxCountSent (delta_of (ComputeBlockDeltas blk (\<lambda>h. h \<notin> H)) a) = sent_in blk H a"
    "d_TxNonce (delta_of (ComputeBlockDeltas blk (\<lambda>h. h \<notin> H)) a) = nonce_in blk H a"
    using bal [of "b_Transactions blk" "[]"] sent [of "b_Transactions blk" "[]"] nonce [of "[]" "b_Transactions blk"]
    by (simp_all add: ComputeBlockDeltas_def effect_in_def sent_in_def nonce_in_def zero_delta_def nonce_fresh_def)
qed

lemma distinct_deltas: "distinct (map fst (ComputeBlockDeltas blk skip))"
proof -
  have upd: "distinct (map fst ds) \<Longrightarrow> distinct (map fst (upd_delta a f ds))" for a f ds
    by (simp add: upd_delta_def distinct_update)
  have creds: "distinct (map fst ds) \<Longrightarrow>
      distinct (map fst (fold (\<lambda>c. upd_delta (fc_Addr c) (add_balance (fc_Amount c))) cs ds))" for cs ds
    by (induction cs arbitrary: ds) (auto intro: upd)
  have tx: "distinct (map fst ds) \<Longrightarrow> distinct (map fst (tx_deltas blk tx ds))" for tx ds
    by (auto simp: tx_deltas_def Let_def intro!: upd creds split: option.split prod.split)
  have "distinct (map fst ds) \<Longrightarrow> distinct (map fst (fold (\<lambda>tx ds. if skip (hex tx) then ds else tx_deltas blk tx ds) txs ds))" for txs ds
    by (induction txs arbitrary: ds) (auto intro: tx)
  then show ?thesis by (simp add: ComputeBlockDeltas_def)
qed

subsection \<open>Groups\<close>

lemma fill_group_splits:
  "fill_group blk p budget txs acc g = (g', rest) \<Longrightarrow>
     \<exists>done1. txs = done1 @ rest \<and> g' = g @ filter p (map hex done1)"
proof (induction txs arbitrary: acc g)
  case (Cons tx txs)
  let ?new = "length (filter (\<lambda>a. a \<notin> set acc) (txTouchedAccounts blk tx))"
  show ?case
  proof (cases "p (hex tx) \<and> g \<noteq> [] \<and> int (length acc + ?new + length g + 1) > budget")
    case True
    with Cons.prems show ?thesis by (intro exI [of _ "[]"]) (auto simp: Let_def)
  next
    case False
    with Cons.prems obtain acc1 where
      "fill_group blk p budget txs acc1 (g @ (if p (hex tx) then [hex tx] else [])) = (g', rest)"
      by (auto simp: Let_def split: if_splits)
    from Cons.IH [OF this] obtain d where "txs = d @ rest" "g' = (g @ (if p (hex tx) then [hex tx] else [])) @ filter p (map hex d)"
      by blast
    then show ?thesis by (intro exI [of _ "tx # d"]) auto
  qed
qed simp

lemma recon_groups_concat: "concat (recon_groups blk p budget txs) = filter p (map hex txs)"
proof (induction blk p budget txs rule: recon_groups.induct)
  case (2 blk p budget tx txs)
  obtain g rest where f: "fill_group blk p budget (tx # txs) [] [] = (g, rest)" by fastforce
  from fill_group_splits [OF this] obtain d where "tx # txs = d @ rest" "g = filter p (map hex d)" by auto
  moreover have "map hex (tx # txs) = map hex d @ map hex rest" by (metis calculation(1) map_append)
  moreover have "concat (recon_groups blk p budget (tx # txs)) = g @ concat (recon_groups blk p budget rest)"
    using f by simp
  moreover have "concat (recon_groups blk p budget rest) = filter p (map hex rest)"
    using "2.IH" [OF refl] f by simp
  ultimately show ?case by (metis filter_append)
qed simp

definition group_fits :: "zkblock \<Rightarrow> int \<Rightarrow> string list \<Rightarrow> bool" where
  "group_fits blk budget g \<longleftrightarrow>
     (\<exists>txs accs. map hex txs = g \<and> set txs \<subseteq> set (b_Transactions blk) \<and>
        (\<Union>tx \<in> set txs. set (txTouchedAccounts blk tx)) \<subseteq> set accs \<and> int (length accs + length g) \<le> budget)"

lemma length_fold_insert:
  "length (fold List.insert cand acc) \<le> length acc + length (filter (\<lambda>a. a \<notin> set acc) cand)"
proof (induction cand arbitrary: acc)
  case (Cons a cand)
  have "filter (\<lambda>x. x \<notin> set (List.insert a acc)) cand = filter (\<lambda>x. x \<noteq> a) (filter (\<lambda>x. x \<notin> set acc) cand)"
    by (auto intro: filter_cong)
  then have "length (filter (\<lambda>x. x \<notin> set (List.insert a acc)) cand) \<le> length (filter (\<lambda>x. x \<notin> set acc) cand)"
    by (metis length_filter_le)
  with Cons.IH [of "List.insert a acc"] show ?case by (auto simp: List.insert_def)
qed simp

lemma set_fold_insert: "set (fold List.insert cand acc) = set cand \<union> set acc"
  by (induction cand arbitrary: acc) auto

lemma fill_group_fits:
  assumes "fill_group blk p budget txs acc g = (g', rest)" "set txs \<subseteq> set (b_Transactions blk)"
    and "\<exists>ts. map hex ts = g \<and> set ts \<subseteq> set (b_Transactions blk) \<and> (\<Union>tx \<in> set ts. set (txTouchedAccounts blk tx)) \<subseteq> set acc"
    and "length g \<le> 1 \<or> int (length acc + length g) \<le> budget"
  shows "length g' \<le> 1 \<or> group_fits blk budget g'"
  using assms
proof (induction txs arbitrary: acc g)
  case (Cons tx txs)
  let ?new = "length (filter (\<lambda>a. a \<notin> set acc) (txTouchedAccounts blk tx))"
  let ?acc = "fold List.insert (txTouchedAccounts blk tx) acc"
  consider (skip) "\<not> p (hex tx)" | (full) "p (hex tx)" "g \<noteq> []" "int (length acc + ?new + length g + 1) > budget"
    | (take) "p (hex tx)" "g = [] \<or> int (length acc + ?new + length g + 1) \<le> budget" by linarith
  then show ?case
  proof cases
    case skip
    with Cons.prems Cons.IH [of acc g] show ?thesis by (auto simp: Let_def)
  next
    case full
    with Cons.prems(1) have "g' = g" by (auto simp: Let_def)
    with Cons.prems(3,4) show ?thesis unfolding group_fits_def by blast
  next
    case take
    obtain ts where ts: "map hex ts = g" "set ts \<subseteq> set (b_Transactions blk)"
      "(\<Union>tx \<in> set ts. set (txTouchedAccounts blk tx)) \<subseteq> set acc" using Cons.prems(3) by blast
    show ?thesis
    proof (rule Cons.IH [of ?acc "g @ [hex tx]"])
      show "fill_group blk p budget txs ?acc (g @ [hex tx]) = (g', rest)"
        using Cons.prems(1) take by (auto simp: Let_def split: if_splits)
      show "\<exists>ts. map hex ts = g @ [hex tx] \<and> set ts \<subseteq> set (b_Transactions blk) \<and> (\<Union>tx \<in> set ts. set (txTouchedAccounts blk tx)) \<subseteq> set ?acc"
        using ts Cons.prems(2) by (intro exI [of _ "ts @ [tx]"]) (auto simp: set_fold_insert)
      show "length (g @ [hex tx]) \<le> 1 \<or> int (length ?acc + length (g @ [hex tx])) \<le> budget"
        using take(2) length_fold_insert [of "txTouchedAccounts blk tx" acc] by auto
    qed (use Cons.prems(2) in auto)
  qed
qed (auto simp: group_fits_def)

lemma recon_groups_fit:
  "set txs \<subseteq> set (b_Transactions blk) \<Longrightarrow> g \<in> set (recon_groups blk p budget txs) \<Longrightarrow> g \<noteq> [] \<and> (length g = 1 \<or> group_fits blk budget g)"
proof (induction blk p budget txs rule: recon_groups.induct)
  case (2 blk p budget tx txs)
  obtain g1 rest where f: "fill_group blk p budget (tx # txs) [] [] = (g1, rest)" by fastforce
  from fill_group_splits [OF this] obtain d where "tx # txs = d @ rest" by auto
  then have rest: "set rest \<subseteq> set (b_Transactions blk)" using "2.prems"(1) by (metis Un_subset_iff set_append)
  have "length g1 \<le> 1 \<or> group_fits blk budget g1"
    by (rule fill_group_fits [OF f "2.prems"(1)]) (auto intro: exI [of _ "[]"])
  moreover have "g = g1 \<and> g1 \<noteq> [] \<or> g \<in> set (recon_groups blk p budget rest)" using "2.prems"(2) f by (auto split: if_splits)
  ultimately show ?case using "2.IH" [OF refl] f rest by (auto simp: le_Suc_eq)
qed simp

subsection \<open>Committing a group\<close>

lemma applyDelta_effect:
  assumes "applyDeltaToAccount ex a d ts = Inr doc"
  shows "bal doc = (case ex of None \<Rightarrow> 0 | Some acc \<Rightarrow> bal acc) + d_Balance d"
    and "a_TxNonce doc = max (case ex of None \<Rightarrow> 0 | Some acc \<Rightarrow> a_TxNonce acc) (d_TxNonce d)"
    and "a_TxCountSent doc = (case ex of None \<Rightarrow> 0 | Some acc \<Rightarrow> a_TxCountSent acc) + d_TxCountSent d"
    and "a_Address doc = (case ex of None \<Rightarrow> a | Some acc \<Rightarrow> a_Address acc)"
proof -
  have "big_SetString [] = None" by code_simp
  then show "bal doc = (case ex of None \<Rightarrow> 0 | Some acc \<Rightarrow> bal acc) + d_Balance d"
    "a_TxNonce doc = max (case ex of None \<Rightarrow> 0 | Some acc \<Rightarrow> a_TxNonce acc) (d_TxNonce d)"
    "a_TxCountSent doc = (case ex of None \<Rightarrow> 0 | Some acc \<Rightarrow> a_TxCountSent acc) + d_TxCountSent d"
    "a_Address doc = (case ex of None \<Rightarrow> a | Some acc \<Rightarrow> a_Address acc)"
    using assms
    by (auto simp: applyDeltaToAccount_def Let_def bal_def big_zero zero_account_def max_def word_gt_0 split: option.splits if_splits)
qed

lemma recon_docs_put:
  assumes "recon_docs ex ds ts as = Inr docs" "keyed ex" "distinct as"
  shows "\<exists>L. fold (\<lambda>f. f) (map put_account docs) s = s\<lparr>accounts := L\<rparr> \<and>
     (\<forall>a. if a \<in> set as then \<exists>doc. applyDeltaToAccount (ex a) a (delta_of ds a) ts = Inr doc \<and> L a = Some doc
          else L a = accounts s a)"
  using assms
proof (induction as arbitrary: docs s)
  case (Cons a as)
  from Cons.prems(1) obtain doc docs' where doc: "applyDeltaToAccount (ex a) a (delta_of ds a) ts = Inr doc"
    and docs': "recon_docs ex ds ts as = Inr docs'" "docs = doc # docs'" by (auto split: sum.splits)
  have addr: "a_Address doc = a"
    using applyDelta_effect(4) [OF doc] Cons.prems(2) by (auto simp: keyed_def split: option.splits)
  from Cons.IH [OF docs'(1) Cons.prems(2), of "put_account doc s"] Cons.prems(3)
  obtain L where L: "fold (\<lambda>f. f) (map put_account docs') (put_account doc s) = (put_account doc s)\<lparr>accounts := L\<rparr>"
    "\<forall>x. if x \<in> set as then \<exists>doc. applyDeltaToAccount (ex x) x (delta_of ds x) ts = Inr doc \<and> L x = Some doc
         else L x = accounts (put_account doc s) x" by auto
  have put: "(put_account doc s)\<lparr>accounts := L\<rparr> = s\<lparr>accounts := L\<rparr>" "accounts (put_account doc s) x = (if x = a then Some doc else accounts s x)" for x
    using addr by (simp_all add: put_account_def)
  show ?case
    using L doc docs'(2) Cons.prems(3) by (intro exI [of _ L]) (auto simp: put)
next
  case Nil
  then show ?case by (intro exI [of _ "accounts s"]) auto
qed

lemma fold_markers:
  "\<exists>K. fold (\<lambda>f. f) (map (\<lambda>h. markerOp (TxProcessedKey h) t) g) s = s\<lparr>acctkv := K\<rparr> \<and>
     (\<forall>h. K (TxProcessedKey h) = (if h \<in> set g then Some (big_String t) else acctkv s (TxProcessedKey h)))"
proof (induction g arbitrary: s)
  case (Cons h g)
  from Cons.IH [of "markerOp (TxProcessedKey h) t s"] obtain K where
    K: "fold (\<lambda>f. f) (map (\<lambda>h. markerOp (TxProcessedKey h) t) g) (markerOp (TxProcessedKey h) t s)
        = (markerOp (TxProcessedKey h) t s)\<lparr>acctkv := K\<rparr>"
    "\<forall>x. K (TxProcessedKey x) = (if x \<in> set g then Some (big_String t) else acctkv (markerOp (TxProcessedKey h) t s) (TxProcessedKey x))"
    by blast
  moreover have "(markerOp (TxProcessedKey h) t s)\<lparr>acctkv := K\<rparr> = s\<lparr>acctkv := K\<rparr>"
    "acctkv (markerOp (TxProcessedKey h) t s) (TxProcessedKey x) = (if x = h then Some (big_String t) else acctkv s (TxProcessedKey x))" for x
    by (auto simp: markerOp_def put_acct_def TxProcessedKey_def)
  ultimately show ?case by (intro exI [of _ K]) auto
next
  case Nil
  show ?case by (rule exI [of _ "acctkv s"]) auto
qed

definition recon_done :: "zkblock \<Rightarrow> string set \<Rightarrow> db \<Rightarrow> db \<Rightarrow> bool" where
  "recon_done blk H s s' \<longleftrightarrow>
     (\<forall>a. balance_at (accounts s') a = balance_at (accounts s) a + effect_in blk H a \<and>
          nonce_at (accounts s') a = max (nonce_at (accounts s) a) (nonce_in blk H a) \<and>
          sent_at (accounts s') a = sent_at (accounts s) a + sent_in blk H a) \<and>
     (\<forall>h. marker_applied s' (TxProcessedKey h) \<longleftrightarrow> h \<in> H \<or> marker_applied s (TxProcessedKey h)) \<and>
     keyed (accounts s') \<and> state_lock s' = state_lock s"

lemma recon_done_none: "keyed (accounts s) \<Longrightarrow> ticked s s' \<Longrightarrow> recon_done blk {} s s'"
  by (simp add: recon_done_def ticked_fields marker_applied_def cong: option.case_cong)

lemma recon_done_trans:
  assumes "recon_done blk (set G) s s1" "recon_done blk H s1 s2" "set G \<inter> H = {}"
  shows "recon_done blk (set G \<union> H) s s2"
  using assms by (auto simp: recon_done_def effect_in_union sent_in_union nonce_in_union max.assoc)

lemma exec_group:
  assumes "recon_docs ex ds ts as = Inr docs" "ds = ComputeBlockDeltas blk (\<lambda>h. h \<notin> set g)" "as = sort (map fst ds)"
    and "ex = (\<lambda>a. if a \<in> set as then accounts s a else None)" "keyed (accounts s)" "t \<noteq> -1" "0 \<le> t" "t < 2 ^ 63"
  shows "recon_done blk (set g) s
    (fold (\<lambda>f. f) (map put_account docs @ map (\<lambda>h. markerOp (TxProcessedKey h) t) g) (s\<lparr>tick := n\<rparr>))"
proof -
  have kex: "keyed ex" "distinct as" using assms(2,3,4,5) distinct_deltas by (auto simp: keyed_def)
  from recon_docs_put [OF assms(1) this, of "s\<lparr>tick := n\<rparr>"] obtain L where
    L: "fold (\<lambda>f. f) (map put_account docs) (s\<lparr>tick := n\<rparr>) = s\<lparr>tick := n, accounts := L\<rparr>"
    "\<forall>a. if a \<in> set as then \<exists>doc. applyDeltaToAccount (ex a) a (delta_of ds a) ts = Inr doc \<and> L a = Some doc else L a = accounts s a"
    by auto
  from fold_markers [of t g "s\<lparr>tick := n, accounts := L\<rparr>"] obtain K where
    K: "fold (\<lambda>f. f) (map (\<lambda>h. markerOp (TxProcessedKey h) t) g) (s\<lparr>tick := n, accounts := L\<rparr>) = s\<lparr>tick := n, accounts := L, acctkv := K\<rparr>"
    "\<forall>h. K (TxProcessedKey h) = (if h \<in> set g then Some (big_String t) else acctkv s (TxProcessedKey h))" by auto
  have out: "delta_of ds a = zero_delta" if "a \<notin> set as" for a
    using that assms(3) by (simp add: delta_of_def map_of_eq_None_iff [THEN iffD2])
  note f = ComputeBlockDeltas_fields [of blk "set g", folded assms(2)]
  have acc: "balance_at L a = balance_at (accounts s) a + d_Balance (delta_of ds a) \<and>
      nonce_at L a = max (nonce_at (accounts s) a) (d_TxNonce (delta_of ds a)) \<and>
      sent_at L a = sent_at (accounts s) a + d_TxCountSent (delta_of ds a) \<and> (\<forall>d. L a = Some d \<longrightarrow> a_Address d = a)" for a
  proof (cases "a \<in> set as")
    case True
    then obtain doc where doc: "applyDeltaToAccount (accounts s a) a (delta_of ds a) ts = Inr doc" "L a = Some doc"
      using L(2) [rule_format, of a] assms(4) by auto
    show ?thesis
      using applyDelta_effect [OF doc(1)] doc(2) assms(5)
      by (auto simp: balance_at_def nonce_at_def sent_at_def keyed_def split: option.splits)
  next
    case False
    then show ?thesis
      using L(2) [rule_format, of a] out assms(5) by (auto simp: balance_at_def nonce_at_def sent_at_def zero_delta_def keyed_def)
  qed
  have "markerValueApplied (big_String t)" using assms(6-8) by (simp add: markerValueApplied_String)
  then show ?thesis
    using acc K(2) f by (simp add: L(1) K(1) recon_done_def keyed_def marker_applied_def cong: option.case_cong)
qed

lemma prefetch_wp:
  assumes "\<And>s'. ticked s s' \<Longrightarrow> Q (Inr (\<lambda>a. if a \<in> set as then accounts s a else None)) s'"
    and "\<And>s'. ticked s s' \<Longrightarrow> Q (Inl EDb) s'"
  shows "wp (prefetch as) e Q P s"
  using assms(1) [of s] assms(1) [of "s\<lparr>tick := Suc (tick s)\<rparr>"] assms(2) [of "s\<lparr>tick := Suc (tick s)\<rparr>"]
  by (auto simp: prefetch_def wp_rules cong: if_cong)

lemma commitReconGroup_wp:
  assumes "keyed (accounts s)" "0 \<le> t" "t < 2 ^ 63"
  shows "wp (commitReconGroup (ComputeBlockDeltas blk (\<lambda>h. h \<notin> set g)) g ts t) e
     (\<lambda>r s'. recon_done blk (set g) s s' \<or> isl r \<and> ticked s s') (\<lambda>_. False) s"
proof -
  let ?ds = "ComputeBlockDeltas blk (\<lambda>h. h \<notin> set g)"
  let ?as = "sort (map fst ?ds)"
  let ?Q = "\<lambda>r s'. recon_done blk (set g) s s' \<or> isl r \<and> ticked s s'"
  have body: "wp (case recon_docs ex ?ds ts ?as of Inl e \<Rightarrow> ret (Inl e)
      | Inr docs \<Rightarrow> let ops = map put_account docs @ map (\<lambda>h. markerOp (TxProcessedKey h) t) g
          in if ops = [] then ret (Inr ())
             else if length ops > maxExecAllEntries then ret (Inl ETooManyEntries) else ExecAll ops) e ?Q (\<lambda>_. False) s1"
    if s1: "ticked s s1" and ex: "ex = (\<lambda>a. if a \<in> set ?as then accounts s1 a else None)" for ex s1
  proof (cases "recon_docs ex ?ds ts ?as")
    case (Inr docs)
    have "keyed (accounts s1)" using assms(1) s1 by (simp add: ticked_fields)
    then have run: "recon_done blk (set g) s1
        (fold (\<lambda>f. f) (map put_account docs @ map (\<lambda>h. markerOp (TxProcessedKey h) t) g) (s1\<lparr>tick := n\<rparr>))" for n
      using exec_group [OF Inr refl refl ex] assms(2,3) by simp
    have done1: "recon_done blk (set g) s
        (fold (\<lambda>f. f) (map put_account docs @ map (\<lambda>h. markerOp (TxProcessedKey h) t) g) (s1\<lparr>tick := n\<rparr>))" for n
      using run [of n] recon_done_trans [of blk "[]" s s1 "set g"] recon_done_none [OF assms(1) s1] by simp
    have empty: "recon_done blk {} s s1" by (rule recon_done_none [OF assms(1) s1])
    have tick: "ticked s (s1\<lparr>tick := n\<rparr>)" for n using s1 ticked_tick by (rule ticked_trans)
    show ?thesis
      unfolding Inr sum.case Let_def
      by (cases "fault e (tick s1)") (auto simp: wp_if wp_ret wp_ExecAll done1 empty s1 tick simp del: fold_append map_append)
  qed (simp add: wp_ret s1)
  show ?thesis
    unfolding commitReconGroup_def Let_def wp_attempt
  proof (rule prefetch_wp)
    fix s1 assume s1: "ticked s s1"
    then have "(\<lambda>a. if a \<in> set ?as then accounts s a else None) = (\<lambda>a. if a \<in> set ?as then accounts s1 a else None)"
      by (simp only: ticked_fields)
    from body [OF s1 this, unfolded Let_def]
    show "(case Inr (\<lambda>a. if a \<in> set ?as then accounts s a else None) of Inl x \<Rightarrow> wp (ret (Inl x)) e ?Q (\<lambda>_. False)
       | Inr a \<Rightarrow> wp (case recon_docs a ?ds ts ?as of Inl e \<Rightarrow> ret (Inl e)
         | Inr docs \<Rightarrow> if map put_account docs @ map (\<lambda>h. markerOp (TxProcessedKey h) t) g = [] then ret (Inr ())
             else if length (map put_account docs @ map (\<lambda>h. markerOp (TxProcessedKey h) t) g) > maxExecAllEntries
             then ret (Inl ETooManyEntries) else ExecAll (map put_account docs @ map (\<lambda>h. markerOp (TxProcessedKey h) t) g)) e ?Q (\<lambda>_. False)) s1"
      unfolding sum.case .
  qed (simp add: wp_ret)
qed

lemma commit_groups_wp:
  assumes "keyed (accounts s)" "0 \<le> t" "t < 2 ^ 63" "distinct (concat groups)"
  shows "wp (commit_groups blk ts t groups) e
     (\<lambda>r s'. \<exists>G. set G \<subseteq> set (concat groups) \<and> recon_done blk (set G) s s' \<and> (\<not> isl r \<longrightarrow> set G = set (concat groups) \<and> r = Inr True))
     (\<lambda>_. False) s"
  using assms(1,4)
proof (induction groups arbitrary: s)
  case Nil
  then show ?case by (auto simp: wp_ret intro: recon_done_none)
next
  case (Cons g groups)
  let ?Q = "\<lambda>r s'. \<exists>G. set G \<subseteq> set (concat (g # groups)) \<and> recon_done blk (set G) s s' \<and>
      (\<not> isl r \<longrightarrow> set G = set (concat (g # groups)) \<and> r = Inr True)"
  show ?case
    unfolding commit_groups.simps wp_attempt
  proof (rule wp_mono [OF commitReconGroup_wp [OF Cons.prems(1) assms(2,3)]])
    fix r s1 assume r: "recon_done blk (set g) s s1 \<or> isl r \<and> ticked s s1"
    have stop: "?Q (Inl x) s1" for x
      using r recon_done_none [OF Cons.prems(1), of s1 blk] by (auto intro: exI [of _ g] exI [of _ "[]"])
    show "(case r of Inl x \<Rightarrow> wp (ret (Inl x)) e ?Q (\<lambda>_. False) | Inr a \<Rightarrow> wp (commit_groups blk ts t groups) e ?Q (\<lambda>_. False)) s1"
    proof (cases r)
      case (Inl x)
      with stop show ?thesis by (simp add: wp_ret)
    next
      case (Inr u)
      with r have s1: "recon_done blk (set g) s s1" by simp
      have "keyed (accounts s1)" "distinct (concat groups)" using s1 Cons.prems(2) by (auto simp: recon_done_def)
      from Cons.IH [OF this] have "wp (commit_groups blk ts t groups) e ?Q (\<lambda>_. False) s1"
      proof (rule wp_mono)
        fix r s' assume "\<exists>G. set G \<subseteq> set (concat groups) \<and> recon_done blk (set G) s1 s' \<and> (\<not> isl r \<longrightarrow> set G = set (concat groups) \<and> r = Inr True)"
        then obtain G where G: "set G \<subseteq> set (concat groups)" "recon_done blk (set G) s1 s'"
          "\<not> isl r \<longrightarrow> set G = set (concat groups) \<and> r = Inr True" by blast
        have "recon_done blk (set g \<union> set G) s s'"
          by (rule recon_done_trans [OF s1 G(2)]) (use G(1) Cons.prems(2) in auto)
        then show "?Q r s'" using G by (intro exI [of _ "g @ G"]) auto
      qed simp
      with Inr show ?thesis by simp
    qed
  qed simp
qed

abbreviation marked_tx :: "db \<Rightarrow> transaction \<Rightarrow> bool" where
  "marked_tx s tx \<equiv> marker_applied s (TxProcessedKey (hex tx))"

definition recon_result :: "zkblock \<Rightarrow> db \<Rightarrow> err + bool \<Rightarrow> db \<Rightarrow> bool" where
  "recon_result blk s r s' \<longleftrightarrow> (\<exists>H. H \<subseteq> {h \<in> hex ` set (b_Transactions blk). \<not> marker_applied s (TxProcessedKey h)} \<and>
     recon_done blk H s s' \<and> (\<not> isl r \<longrightarrow> r = Inr True \<and> (\<forall>tx \<in> set (b_Transactions blk). marked_tx s' tx)))"

lemma recon_resultI:
  assumes "recon_done blk H s s'" "H \<subseteq> {h \<in> hex ` set (b_Transactions blk). \<not> marker_applied s (TxProcessedKey h)}"
    and "\<not> isl r \<Longrightarrow> r = Inr True \<and> (\<forall>tx \<in> set (b_Transactions blk). hex tx \<in> H \<or> marked_tx s tx)"
  shows "recon_result blk s r s'"
proof -
  have "marked_tx s' tx \<longleftrightarrow> hex tx \<in> H \<or> marked_tx s tx" for tx using assms(1) by (simp add: recon_done_def)
  then show ?thesis using assms unfolding recon_result_def by blast
qed

lemma recon_locked_wp:
  assumes "keyed (accounts s)" "sane_clock e" "distinct (map tx_Hash (b_Transactions blk))"
  shows "wp (recon_locked blk) e (recon_result blk s) (\<lambda>_. False) s"
  unfolding recon_locked_def Let_def wp_attempt [of "FilterProcessedTxMarkers _"]
proof (rule FilterProcessedTxMarkers_wp, goal_cases)
  case (1 live s1)
  let ?hs = "map hex (b_Transactions blk)"
  let ?pend = "filter (\<lambda>h. \<not> live h) ?hs"
  let ?groups = "partitionReconGroups blk (\<lambda>h. h \<in> set ?pend) reconGroupOpBudget"
  have k1: "keyed (accounts s1)" using assms(1) 1(1) by (simp add: ticked_fields)
  have m1: "marker_applied s1 (TxProcessedKey h) = marker_applied s (TxProcessedKey h)" for h
    using 1(1) by (simp add: marker_applied_def ticked_fields cong: option.case_cong)
  have "distinct (map Hash_Hex (map tx_Hash (b_Transactions blk)))"
    using assms(3) by (subst distinct_map) (auto simp: inj_on_def)
  then have "distinct ?hs" by (simp add: comp_def)
  moreover have groups: "concat ?groups = ?pend"
    unfolding partitionReconGroups_def recon_groups_concat by (auto intro: filter_cong)
  ultimately have d: "distinct (concat ?groups)" by (simp only: groups) simp
  have "recon_done blk {} s s2" if "ticked s s2" for s2 by (rule recon_done_none [OF assms(1) that])
  then have quiet: "recon_result blk s r s2" if "ticked s s2" "isl r" for s2 r
    using that by (intro recon_resultI [where H = "{}"]) auto
  show ?case
  proof (cases "?pend = []")
    case True
    then have "\<forall>tx \<in> set (b_Transactions blk). marked_tx s tx" using 1(2) by (auto simp: filter_empty_conv)
    with True show ?thesis
      using recon_done_none [OF assms(1) 1(1)] by (simp add: wp_ret) (intro recon_resultI [where H = "{}"], auto)
  next
    case False
    have fin: "recon_result blk s r s2"
      if s3: "ticked s s3" and G: "\<exists>G. set G \<subseteq> set (concat ?groups) \<and> recon_done blk (set G) s3 s2 \<and>
        (\<not> isl r \<longrightarrow> set G = set (concat ?groups) \<and> r = Inr True)" for r s2 s3
    proof -
      from G obtain G where G: "set G \<subseteq> set ?pend" "recon_done blk (set G) s3 s2" "\<not> isl r \<longrightarrow> set G = set ?pend \<and> r = Inr True"
        unfolding groups by blast
      have "recon_done blk (set [] \<union> set G) s s2"
        by (rule recon_done_trans [OF _ G(2)]) (use recon_done_none [OF assms(1) s3] in auto)
      then have "recon_done blk (set G) s s2" by simp
      then show ?thesis by (rule recon_resultI) (use G(1,3) 1(2) in auto)
    qed
    have t: "0 \<le> clock e n" "clock e n < 2 ^ 63" for n using assms(2) by (simp_all add: sane_clock_def)
    have "wp (commit_groups blk ts (clock e n) ?groups) e (recon_result blk s) (\<lambda>_. False) (s1\<lparr>tick := n\<rparr>)" for ts n
      by (rule wp_mono [OF commit_groups_wp [OF _ t d]]) (use k1 1(1) fin ticked_trans [OF 1(1) ticked_tick] in auto)
    then show ?thesis
      unfolding if_not_P [OF False] sum.case
      by (cases "fault e (tick s1)") (simp_all add: wp_rules quiet ticked_trans [OF 1(1) ticked_tick])
  qed
next
  case (2 s1)
  then show ?case by (simp add: wp_ret) (rule recon_resultI [where H = "{}"], auto intro: recon_done_none [OF assms(1)])
qed

lemma recon_result_quiet: "keyed (accounts s) \<Longrightarrow> ticked s s' \<Longrightarrow> isl r \<or> r = Inr True \<and> b_Transactions blk = [] \<Longrightarrow> recon_result blk s r s'"
  by (rule recon_resultI [where H = "{}"]) (auto intro: recon_done_none)

lemma recon_result_unlock:
  assumes "recon_result blk (s\<lparr>tick := n, state_lock := True\<rparr>) r s'" "\<not> state_lock s"
  shows "recon_result blk s r (unlock_state s')"
proof -
  have m: "marker_applied (s\<lparr>tick := n, state_lock := True\<rparr>) k = marker_applied s k" "marker_applied (unlock_state s') k = marker_applied s' k" for k
    by (simp_all add: marker_applied_def unlock_state_def cong: option.case_cong)
  have "accounts (unlock_state s') = accounts s'" "\<not> state_lock (unlock_state s')" by (simp_all add: unlock_state_def)
  with assms show ?thesis by (auto simp: recon_result_def recon_done_def m)
qed

lemma ApplyBlockRecon_wp:
  assumes "mainkv s (block_key n) = Some raw" "dec_block C raw = Some blk" "keyed (accounts s)" "\<not> state_lock s" "sane_clock e"
    and "distinct (map tx_Hash (b_Transactions blk))"
  shows "wp (ApplyBlockRecon C n expect) e (recon_result blk s) (\<lambda>_. False) s"
proof -
  have locked: "wp (recon_locked blk) e (\<lambda>r s'. recon_result blk s r (unlock_state s')) (\<lambda>_. False) (s\<lparr>tick := m, state_lock := True\<rparr>)" for m
    by (rule wp_mono [OF recon_locked_wp [OF _ assms(5,6)]]) (use assms(3,4) recon_result_unlock in auto)
  have quiet: "recon_result blk s (Inl x) (s\<lparr>tick := m\<rparr>)" for x m by (rule recon_result_quiet [OF assms(3)]) auto
  have empty: "b_Transactions blk = [] \<Longrightarrow> recon_result blk s (Inr True) (s\<lparr>tick := m\<rparr>)" for m by (rule recon_result_quiet [OF assms(3)]) auto
  show ?thesis
    using assms(1,2) locked
    by (cases "fault e (tick s)"; cases "fault e (Suc (tick s))")
       (auto simp: ApplyBlockRecon_def wp_rules quiet empty)
qed

subsection \<open>Live execution has the same effects\<close>

lemma u64_below_next: "(m :: u64) \<le> n \<Longrightarrow> n \<noteq> -1 \<Longrightarrow> m < n + 1"
proof -
  assume le: "m \<le> n" and "n \<noteq> -1"
  then have "1 + n \<noteq> 0" by (metis add_eq_0_iff add.commute)
  from unatSuc [OF this] le show ?thesis by (simp add: word_le_nat_alt word_less_nat_alt add.commute)
qed

lemma ledger_block_effect:
  assumes "ledger_block (block_apply hexa blk c z) live txs seen L = Inr L'" "distinct (map hex txs)" "hex ` set txs \<inter> set seen = {}"
    and "b_CoinbaseAddr blk = Some c" "b_ZKVMAddr blk = Some z"
    and "\<forall>tx \<in> set txs. tx_From tx \<noteq> None \<and> tx_To tx \<noteq> None \<and> tx_Nonce tx \<noteq> -1"
  shows "balance_at L' a = balance_at L a + (\<Sum>tx \<leftarrow> filter (\<lambda>tx. \<not> live (hex tx)) txs. tx_effect blk tx a) \<and>
     sent_at L' a = sent_at L a + (\<Sum>tx \<leftarrow> filter (\<lambda>tx. \<not> live (hex tx)) txs. if sends tx a then 1 else 0) \<and>
     nonce_at L' a = fold (\<lambda>tx m. if sends tx a then max m (tx_Nonce tx + 1) else m) (filter (\<lambda>tx. \<not> live (hex tx)) txs) (nonce_at L a)"
  using assms(1,2,3,6)
proof (induction txs arbitrary: seen L)
  case (Cons tx txs)
  have seen: "hex tx \<notin> set seen" "hex ` set txs \<inter> set (hex tx # seen) = {}" using Cons.prems(2,3) by auto
  show ?case
  proof (cases "live (hex tx)")
    case True
    with seen(1) Cons.prems(1) have "ledger_block (block_apply hexa blk c z) live txs (hex tx # seen) L = Inr L'" by (simp add: Let_def)
    from Cons.IH [OF this _ seen(2)] Cons.prems(2,4) True show ?thesis by simp
  next
    case False
    with seen(1) Cons.prems(1) obtain L1 where L1: "block_apply hexa blk c z tx L = Inr L1"
      and rest: "ledger_block (block_apply hexa blk c z) live txs (hex tx # seen) L1 = Inr L'" by (auto simp: Let_def and_then_Inr)
    obtain f t where ft: "tx_From tx = Some f" "tx_To tx = Some t" using Cons.prems(4) by auto
    note eff = ledger_transfer_effect [OF ledger_apply_transfer [OF L1 [unfolded block_apply_def ft tx_party_def option.case]]]
    have "positive_value tx = tx_amount tx" using eff(6) by (auto simp: positive_value_def tx_amount_def split: option.splits)
    then have b: "balance_at L1 a = balance_at L a + tx_effect blk tx a"
      unfolding eff(1) tx_effect_def by (simp add: ft assms(4,5) coinbase_of_def tx_party_def)
    have "nonce_at L f < tx_Nonce tx + 1"
      using eff(8) Cons.prems(4) by (simp add: u64_below_next)
    then have "nonce_at L1 a = (if sends tx a then max (nonce_at L a) (tx_Nonce tx + 1) else nonce_at L a)"
      using ft by (auto simp: eff(2) sends_def max_def)
    moreover have "sent_at L1 a = sent_at L a + (if sends tx a then 1 else 0)" using ft by (auto simp: eff(3) sends_def)
    ultimately show ?thesis
      using Cons.IH [OF rest _ seen(2)] Cons.prems(2,4) False b by simp
  qed
qed simp

end
