(* ===== verification/ReconProps.thy ===== *)
theory ReconProps
  imports ReconExecution
begin

text \<open>
  Properties of reconciliation: it applies each outstanding transaction exactly once
  under every database fault, agrees with live execution, and completes when the
  database answers.
\<close>

subsection \<open>Completion\<close>

lemma upd_delta_keys [simp]: "fst ` set (upd_delta a f ds) = insert a (fst ` set ds)"
  by (simp add: upd_delta_def dom_update)

lemma credit_keys:
  "fst ` set (fold (\<lambda>c. upd_delta (fc_Addr c) (add_balance (fc_Amount c))) cs ds) = fc_Addr ` set cs \<union> fst ` set ds"
  by (induction cs arbitrary: ds) auto

lemma tx_delta_keys: "fst ` set (tx_deltas blk tx ds) \<subseteq> set (txTouchedAccounts blk tx) \<union> fst ` set ds"
proof -
  let ?cb = "case b_CoinbaseAddr blk of None \<Rightarrow> 0 | Some a \<Rightarrow> a"
  let ?fee = "GasFee (tx_Type tx) (tx_GasLimit tx) (tx_GasPrice tx) (tx_MaxFee tx) (tx_MaxPriorityFee tx)"
  obtain z cs where split: "SplitFee (Some ?fee) ?cb (b_FeeRecipients blk) = (z, cs)" by fastforce
  have "fc_Addr ` set cs \<subseteq> insert ?cb (fr_Addr ` set (b_FeeRecipients blk))"
    using split_addresses [of "Some ?fee" ?cb "b_FeeRecipients blk"] split by simp
  then show ?thesis
    unfolding tx_deltas_def Let_def split prod.case
    by (auto simp: credit_keys txTouchedAccounts_def split: option.splits if_splits)
qed

lemma ComputeBlockDeltas_keys:
  "fst ` set (ComputeBlockDeltas blk (\<lambda>h. h \<notin> H)) \<subseteq> (\<Union>tx \<in> set (txs_in (b_Transactions blk) H). set (txTouchedAccounts blk tx))"
proof -
  let ?f = "\<lambda>tx ds. if hex tx \<notin> H then ds else tx_deltas blk tx ds"
  have "fst ` set (fold ?f txs ds) \<subseteq> (\<Union>tx \<in> set (txs_in txs H). set (txTouchedAccounts blk tx)) \<union> fst ` set ds" for txs ds
  proof (induction txs arbitrary: ds)
    case (Cons tx txs)
    show ?case
    proof (cases "hex tx \<in> H")
      case True
      then have "fst ` set (fold ?f (tx # txs) ds) \<subseteq> (\<Union>tx \<in> set (txs_in txs H). set (txTouchedAccounts blk tx)) \<union> fst ` set (tx_deltas blk tx ds)"
        using Cons.IH [of "tx_deltas blk tx ds"] by simp
      also have "\<dots> \<subseteq> (\<Union>tx \<in> set (txs_in (tx # txs) H). set (txTouchedAccounts blk tx)) \<union> fst ` set ds"
        using tx_delta_keys [of blk tx ds] True by (auto simp: txs_in_def simp del: image_subset_iff)
      finally show ?thesis .
    qed (use Cons.IH [of ds] in \<open>simp add: txs_in_def\<close>)
  qed (simp add: txs_in_def)
  from this [of "b_Transactions blk" "[]"] show ?thesis by (simp add: ComputeBlockDeltas_def)
qed

text \<open>A group's entries fit one atomic write when the fee recipients do.\<close>

lemma group_ops_bound:
  assumes "distinct (map tx_Hash (b_Transactions blk))" "length (b_FeeRecipients blk) \<le> 1019"
    and "set g \<subseteq> hex ` set (b_Transactions blk)" "distinct g" "length g = 1 \<or> group_fits blk 1000 g"
  shows "length (ComputeBlockDeltas blk (\<lambda>h. h \<notin> set g)) + length g \<le> maxExecAllEntries"
proof -
  let ?ds = "ComputeBlockDeltas blk (\<lambda>h. h \<notin> set g)"
  have inj: "inj_on tx_Hash (set (b_Transactions blk))" using assms(1) by (simp add: distinct_map)
  have len: "length ?ds = card (fst ` set ?ds)" using distinct_card [OF distinct_deltas, of blk "\<lambda>h. h \<notin> set g"] by simp
  show ?thesis
    using assms(5)
  proof
    assume "length g = 1"
    then obtain h where g: "g = [h]" by (cases g) auto
    then obtain tx where tx: "tx \<in> set (b_Transactions blk)" "h = hex tx" using assms(3) by auto
    then have "set (txs_in (b_Transactions blk) (set g)) = {tx}" using inj by (auto simp: txs_in_def g dest: inj_onD)
    then have "fst ` set ?ds \<subseteq> set (txTouchedAccounts blk tx)" using ComputeBlockDeltas_keys [of blk "set g"] by simp
    then have "card (fst ` set ?ds) \<le> length (txTouchedAccounts blk tx)" by (meson List.finite_set card_length card_mono le_trans)
    also have "\<dots> \<le> 4 + length (b_FeeRecipients blk)" by (simp add: txTouchedAccounts_def split: option.split)
    finally show ?thesis using assms(2) g len by (simp add: maxExecAllEntries_def)
  next
    assume "group_fits blk 1000 g"
    then obtain txs accs where f: "map hex txs = g" "set txs \<subseteq> set (b_Transactions blk)"
      "(\<Union>tx \<in> set txs. set (txTouchedAccounts blk tx)) \<subseteq> set accs" "int (length accs + length g) \<le> 1000" by (auto simp: group_fits_def)
    have "set (txs_in (b_Transactions blk) (set g)) \<subseteq> set txs"
      using f(1,2) inj by (auto simp: txs_in_def) (metis inj_onD subsetD)
    then have "fst ` set ?ds \<subseteq> set accs" using ComputeBlockDeltas_keys [of blk "set g"] f(3) by blast
    then have "card (fst ` set ?ds) \<le> length accs" by (meson List.finite_set card_length card_mono le_trans)
    then show ?thesis using f(4) len by (simp add: maxExecAllEntries_def)
  qed
qed

definition parsable :: "ledger \<Rightarrow> bool" where
  "parsable L \<longleftrightarrow> (\<forall>a d. L a = Some d \<longrightarrow> a_Balance d = [] \<or> big_SetString (a_Balance d) \<noteq> None)"

lemma applyDelta_total: "parsable ex \<Longrightarrow> \<exists>doc. applyDeltaToAccount (ex a) a d ts = Inr doc"
  by (cases "ex a") (fastforce simp: parsable_def applyDeltaToAccount_def Let_def big_zero)+

lemma recon_docs_total: "parsable ex \<Longrightarrow> \<exists>docs. recon_docs ex ds ts as = Inr docs \<and> length docs = length as"
proof (induction as)
  case (Cons a as)
  from applyDelta_total [OF Cons.prems, of a "delta_of ds a" ts] Cons show ?case by auto
qed simp

lemma parsable_group:
  assumes "recon_docs ex ds ts as = Inr docs" "keyed ex" "distinct as" "parsable (accounts s)"
  shows "parsable (accounts (fold (\<lambda>f. f) (map put_account docs @ map (\<lambda>h. markerOp (TxProcessedKey h) t) g) s))"
proof -
  from recon_docs_put [OF assms(1-3), of s] obtain L where
    L: "fold (\<lambda>f. f) (map put_account docs) s = s\<lparr>accounts := L\<rparr>"
    "\<forall>a. if a \<in> set as then \<exists>doc. applyDeltaToAccount (ex a) a (delta_of ds a) ts = Inr doc \<and> L a = Some doc else L a = accounts s a" by auto
  have "parsable L"
    unfolding parsable_def
  proof (intro allI impI)
    fix a d assume d: "L a = Some d"
    show "a_Balance d = [] \<or> big_SetString (a_Balance d) \<noteq> None"
    proof (cases "a \<in> set as")
      case True
      with L(2) [rule_format, of a] d have "applyDeltaToAccount (ex a) a (delta_of ds a) ts = Inr d" by auto
      then show ?thesis by (auto simp: applyDeltaToAccount_def Let_def split: option.splits if_splits)
    next
      case False
      with L(2) [rule_format, of a] d assms(4) show ?thesis by (auto simp: parsable_def)
    qed
  qed
  moreover obtain K where "fold (\<lambda>f. f) (map (\<lambda>h. markerOp (TxProcessedKey h) t) g) (s\<lparr>accounts := L\<rparr>) = s\<lparr>accounts := L, acctkv := K\<rparr>"
    using fold_markers [of t g "s\<lparr>accounts := L\<rparr>"] by auto
  ultimately show ?thesis by (simp add: L(1))
qed

lemma prefetch_done:
  assumes "faultless e" "\<And>s'. ticked s s' \<Longrightarrow> Q (Inr (\<lambda>a. if a \<in> set as then accounts s a else None)) s'"
  shows "wp (prefetch as) e Q P s"
  using assms(2) [of s] assms(2) [of "s\<lparr>tick := Suc (tick s)\<rparr>"] assms(1)
  by (auto simp: prefetch_def wp_rules cong: if_cong)

lemma commit_completes:
  assumes "faultless e" "parsable (accounts s)" "keyed (accounts s)"
    and "length (ComputeBlockDeltas blk (\<lambda>h. h \<notin> set g)) + length g \<le> maxExecAllEntries"
  shows "wp (commitReconGroup (ComputeBlockDeltas blk (\<lambda>h. h \<notin> set g)) g ts t) e
     (\<lambda>r s'. r = Inr () \<and> parsable (accounts s') \<and> keyed (accounts s')) (\<lambda>_. False) s"
proof -
  let ?ds = "ComputeBlockDeltas blk (\<lambda>h. h \<notin> set g)"
  let ?as = "sort (map fst ?ds)"
  let ?ex = "\<lambda>a. if a \<in> set ?as then accounts s a else None"
  let ?Q = "\<lambda>r s'. r = Inr () \<and> parsable (accounts s') \<and> keyed (accounts s')"
  have e: "fault e n = Done" for n using assms(1) by (simp add: faultless_def)
  have ex: "parsable ?ex" "keyed ?ex" "distinct ?as" using assms(2,3) distinct_deltas by (auto simp: parsable_def keyed_def)
  from recon_docs_total [OF ex(1)] obtain docs where docs: "recon_docs ?ex ?ds ts ?as = Inr docs" "length docs = length ?as" by blast
  let ?run = "\<lambda>s1. fold (\<lambda>f. f) (map put_account docs @ map (\<lambda>h. markerOp (TxProcessedKey h) t) g) s1"
  have fits: "\<not> length (map put_account docs @ map (\<lambda>h. markerOp (TxProcessedKey h) t) g) > maxExecAllEntries"
    using assms(4) docs(2) by simp
  have par: "parsable (accounts (?run s1))" if "parsable (accounts s1)" for s1
    by (rule parsable_group [OF docs(1) ex(2,3) that])
  have key: "keyed (accounts (?run s1))" if "keyed (accounts s1)" for s1
  proof -
    from recon_docs_put [OF docs(1) ex(2,3), of s1] obtain L where
      L: "fold (\<lambda>f. f) (map put_account docs) s1 = s1\<lparr>accounts := L\<rparr>"
      "\<forall>a. if a \<in> set ?as then \<exists>doc. applyDeltaToAccount (?ex a) a (delta_of ?ds a) ts = Inr doc \<and> L a = Some doc else L a = accounts s1 a" by auto
    have "a_Address d = a" if "L a = Some d" for a d
    proof (cases "a \<in> set ?as")
      case True
      with L(2) [rule_format, of a] that have "applyDeltaToAccount (accounts s a) a (delta_of ?ds a) ts = Inr d" by auto
      from applyDelta_effect(4) [OF this] assms(3) show ?thesis by (auto simp: keyed_def split: option.splits)
    next
      case False
      with L(2) [rule_format, of a] that \<open>keyed (accounts s1)\<close> show ?thesis by (auto simp: keyed_def)
    qed
    moreover obtain K where "fold (\<lambda>f. f) (map (\<lambda>h. markerOp (TxProcessedKey h) t) g) (s1\<lparr>accounts := L\<rparr>) = s1\<lparr>accounts := L, acctkv := K\<rparr>"
      using fold_markers [of t g "s1\<lparr>accounts := L\<rparr>"] by auto
    ultimately show ?thesis by (simp add: L(1) keyed_def)
  qed
  show ?thesis
    unfolding commitReconGroup_def Let_def wp_attempt
  proof (rule prefetch_done [OF assms(1)])
    fix s1 assume "ticked s s1"
    then have "accounts s1 = accounts s" by (simp add: ticked_fields)
    then show "(case Inr ?ex of Inl x \<Rightarrow> wp (ret (Inl x)) e ?Q (\<lambda>_. False)
       | Inr a \<Rightarrow> wp (case recon_docs a ?ds ts ?as of Inl e \<Rightarrow> ret (Inl e)
         | Inr docs \<Rightarrow> if map put_account docs @ map (\<lambda>h. markerOp (TxProcessedKey h) t) g = [] then ret (Inr ())
             else if length (map put_account docs @ map (\<lambda>h. markerOp (TxProcessedKey h) t) g) > maxExecAllEntries
             then ret (Inl ETooManyEntries) else ExecAll (map put_account docs @ map (\<lambda>h. markerOp (TxProcessedKey h) t) g)) e ?Q (\<lambda>_. False)) s1"
      unfolding sum.case docs(1) wp_if wp_ExecAll wp_ret using fits
      by (simp add: e par key assms(2,3) del: fold_append map_append)
  qed
qed

lemma commit_groups_complete:
  assumes "faultless e" "parsable (accounts s)" "keyed (accounts s)"
    and "\<forall>g \<in> set groups. length (ComputeBlockDeltas blk (\<lambda>h. h \<notin> set g)) + length g \<le> maxExecAllEntries"
  shows "wp (commit_groups blk ts t groups) e (\<lambda>r _. r = Inr True) (\<lambda>_. False) s"
  using assms(2-4)
proof (induction groups arbitrary: s)
  case (Cons g groups)
  have fits: "length (ComputeBlockDeltas blk (\<lambda>h. h \<notin> set g)) + length g \<le> maxExecAllEntries" using Cons.prems(3) by simp
  show ?case
    unfolding commit_groups.simps wp_attempt
    by (rule wp_mono [OF commit_completes [OF assms(1) Cons.prems(1,2) fits]]) (use Cons in auto)
qed (simp add: wp_ret)

lemma recon_locked_completes:
  assumes "faultless e" "parsable (accounts s)" "keyed (accounts s)"
    and "distinct (map tx_Hash (b_Transactions blk))" "length (b_FeeRecipients blk) \<le> 1019"
  shows "wp (recon_locked blk) e (\<lambda>r _. r = Inr True) (\<lambda>_. False) s"
  unfolding recon_locked_def Let_def wp_attempt [of "FilterProcessedTxMarkers _"]
proof (rule FilterProcessedTxMarkers_wp, goal_cases)
  case (1 live s1)
  let ?hs = "map hex (b_Transactions blk)"
  let ?pend = "filter (\<lambda>h. \<not> live h) ?hs"
  let ?groups = "partitionReconGroups blk (\<lambda>h. h \<in> set ?pend) reconGroupOpBudget"
  have "distinct (map Hash_Hex (map tx_Hash (b_Transactions blk)))" using assms(4) by (subst distinct_map) (auto simp: inj_on_def)
  then have dist: "distinct ?hs" by (simp add: comp_def)
  have groups: "concat ?groups = ?pend"
    unfolding partitionReconGroups_def recon_groups_concat by (auto intro: filter_cong)
  have d: "distinct (concat ?groups)" unfolding groups using dist by (rule distinct_filter)
  have fits: "\<forall>g \<in> set ?groups. length (ComputeBlockDeltas blk (\<lambda>h. h \<notin> set g)) + length g \<le> maxExecAllEntries"
  proof
    fix g assume g: "g \<in> set ?groups"
    then have "set g \<subseteq> set (concat ?groups)" by auto
    then have "set g \<subseteq> set ?pend" unfolding groups .
    moreover have "distinct g" using d g by (simp add: distinct_concat_iff)
    moreover have "length g = 1 \<or> group_fits blk 1000 g"
      using g recon_groups_fit unfolding partitionReconGroups_def reconGroupOpBudget_def by blast
    ultimately show "length (ComputeBlockDeltas blk (\<lambda>h. h \<notin> set g)) + length g \<le> maxExecAllEntries"
      by (intro group_ops_bound [OF assms(4,5)]) auto
  qed
  have "wp (commit_groups blk ts t ?groups) e (\<lambda>r _. r = Inr True) (\<lambda>_. False) (s1\<lparr>tick := n\<rparr>)" for ts t n
    by (rule commit_groups_complete [OF assms(1) _ _ fits]) (use assms(2,3) 1(1) in \<open>simp_all add: ticked_fields\<close>)
  with assms(1) show ?case by (simp add: wp_rules)
qed (use assms(1) in simp)

lemma ApplyBlockRecon_completes:
  assumes "mainkv s (block_key n) = Some raw" "dec_block C raw = Some blk"
    and "expect = [] \<or> ToLower (Hash_Hex (b_BlockHash blk)) = ToLower expect"
    and "faultless e" "parsable (accounts s)" "keyed (accounts s)" "\<not> state_lock s"
    and "distinct (map tx_Hash (b_Transactions blk))" "length (b_FeeRecipients blk) \<le> 1019"
  shows "wp (ApplyBlockRecon C n expect) e (\<lambda>r _. r = Inr True) (\<lambda>_. False) s"
proof -
  have locked: "wp (recon_locked blk) e (\<lambda>r _. r = Inr True) (\<lambda>_. False) (s\<lparr>tick := m, state_lock := True\<rparr>)" for m
    by (rule recon_locked_completes [OF assms(4) _ _ assms(8,9)]) (use assms(5,6) in auto)
  show ?thesis
    using assms(1-4,7) locked by (auto simp: ApplyBlockRecon_def wp_rules)
qed

subsection \<open>Properties\<close>

definition recon_codec :: codec where
  "recon_codec = demo_codec\<lparr>dec_block := (\<lambda>_. Some (demo_block [demo_tx]))\<rparr>"

definition recon_db :: db where
  "recon_db = demo_db\<lparr>mainkv := [block_key 1 \<mapsto> ''{}'']\<rparr>"

definition recon_run :: "(err + bool) result \<times> db" where
  "recon_run = ApplyBlockRecon recon_codec 1 [] calm recon_db"

lemma recon_db_facts:
  "mainkv recon_db (block_key 1) = Some ''{}''" "dec_block recon_codec ''{}'' = Some (demo_block [demo_tx])"
  "keyed (accounts recon_db)" "\<not> state_lock recon_db" "distinct (map tx_Hash (b_Transactions (demo_block [demo_tx])))"
  "parsable (accounts recon_db)" "length (b_FeeRecipients (demo_block [demo_tx])) \<le> 1019" "faultless calm"
proof -
  have "big_SetString ''1000'' \<noteq> None" "big_SetString ''0'' \<noteq> None" by code_simp+
  then show "parsable (accounts recon_db)"
    by (simp add: recon_db_def demo_db_def demo_ledger_def parsable_def demo_account_def)
qed (auto simp: recon_db_def demo_db_def recon_codec_def demo_ledger_def keyed_def demo_block_def zero_block_def
      fresh_db_def demo_account_def faultless_def calm_def)

lemma recon_db_unmarked:
  "\<not> marker_applied recon_db (TxProcessedKey h)" "\<not> marker_applied recon_db (BlockProcessedKey h)"
  by (simp_all add: recon_db_def demo_db_def fresh_db_def marker_applied_def TxProcessedKey_def BlockProcessedKey_def block_key_def PREFIX_BLOCK_def)

lemma recon_run_ok: "recon_run = (Ret (Inr True), snd recon_run)"
  using ApplyBlockRecon_completes [OF recon_db_facts(1,2) disjI1 [OF refl] recon_db_facts(8,6,3,4,5,7)]
  unfolding recon_run_def by (cases "ApplyBlockRecon recon_codec 1 [] calm recon_db") (auto simp: wp_def split: result.splits)

lemma recon_live_ok: "fst (ProcessBlockTransactions (\<lambda>_. ''0x'') same_order (demo_block [demo_tx]) calm recon_db) = Ret (Inr ())"
proof -
  obtain r' where r: "fst (ProcessBlockTransactions (\<lambda>_. ''0x'') same_order (demo_block [demo_tx]) calm recon_db) = Ret r'"
    "block_result (\<lambda>_. ''0x'') (demo_block [demo_tx]) recon_db r'
       (snd (ProcessBlockTransactions (\<lambda>_. ''0x'') same_order (demo_block [demo_tx]) calm recon_db))"
    by (rule block_run [OF surjective_pairing recon_db_facts(8) demo_block_ok(1,3) recon_db_facts(3,4) recon_db_unmarked(2)])
  have "(\<lambda>h. marker_applied recon_db (TxProcessedKey h)) = (\<lambda>_. False)" using recon_db_unmarked by auto
  moreover have "accounts recon_db = demo_ledger" by (simp add: recon_db_def demo_db_def)
  ultimately show ?thesis using r demo_block_succeeds by (auto simp: block_result_def split: sum.splits)
qed

text \<open>
  C11. Reconciliation applies every outstanding transaction exactly once, under every
  database fault and lost acknowledgement: the balance of each address changes by the
  effects of exactly the transactions whose marker the run has set, no marker is
  removed, the state-apply lock is released, and a run that reports success leaves every
  transaction of the block marked.
\<close>
theorem recon_exactly_once:
  assumes "ApplyBlockRecon C n expect e s = (r, s')" "mainkv s (block_key n) = Some raw" "dec_block C raw = Some blk"
    and "keyed (accounts s)" "\<not> state_lock s" "sane_clock e" "distinct (map tx_Hash (b_Transactions blk))"
  shows "balance_at (accounts s') a = balance_at (accounts s) a +
      (\<Sum>tx \<leftarrow> filter (\<lambda>tx. marked_tx s' tx \<and> \<not> marked_tx s tx) (b_Transactions blk). tx_effect blk tx a)
    \<and> (marker_applied s (TxProcessedKey h) \<longrightarrow> marker_applied s' (TxProcessedKey h)) \<and> \<not> state_lock s'
    \<and> (\<forall>b. r = Ret (Inr b) \<longrightarrow> b \<and> (\<forall>tx \<in> set (b_Transactions blk). marked_tx s' tx))"
proof -
  obtain r' where r: "r = Ret r'" "recon_result blk s r' s'"
    using ApplyBlockRecon_wp [OF assms(2-7), of expect] assms(1) by (auto simp: wp_def split: result.splits)
  then obtain H where H: "H \<subseteq> {h \<in> hex ` set (b_Transactions blk). \<not> marker_applied s (TxProcessedKey h)}"
    "recon_done blk H s s'" "\<not> isl r' \<longrightarrow> r' = Inr True \<and> (\<forall>tx \<in> set (b_Transactions blk). marked_tx s' tx)"
    by (auto simp: recon_result_def)
  have "marked_tx s' tx \<and> \<not> marked_tx s tx \<longleftrightarrow> hex tx \<in> H" for tx using H(1,2) by (auto simp: recon_done_def)
  then show ?thesis
    using H(2,3) r(1) assms(5) by (auto simp: recon_done_def effect_in_def txs_in_def)
qed

theorem recon_exactly_once_witness:
  "balance_at (accounts (snd recon_run)) 2 = balance_at (accounts recon_db) 2 +
      (\<Sum>tx \<leftarrow> filter (\<lambda>tx. marked_tx (snd recon_run) tx \<and> \<not> marked_tx recon_db tx) [demo_tx]. tx_effect (demo_block [demo_tx]) tx 2)
   \<and> marked_tx (snd recon_run) demo_tx"
proof -
  have txs: "b_Transactions (demo_block [demo_tx]) = [demo_tx]" by (simp add: demo_block_def)
  show ?thesis
    using recon_exactly_once [OF recon_run_ok [unfolded recon_run_def] recon_db_facts(1-4) calm_clock recon_db_facts(5), of 2]
    unfolding txs recon_run_def [symmetric] by auto
qed

text \<open>
  C12. Catch-up agrees with live execution: from one state, a node that executes a stored
  block live and a node that reconciles it reach the same balance, transaction nonce and
  transaction count at every address, whichever transactions were applied before, if
  both runs succeed and no transaction has the last nonce.
\<close>
theorem catchup_equals_live:
  assumes live: "ProcessBlockTransactions hexa ord blk e s = (Ret (Inr ()), s1)" "faultless e" "block_ok blk" "map_order ord"
    and recon: "ApplyBlockRecon C n expect e' s = (Ret (Inr True), s2)" "mainkv s (block_key n) = Some raw" "dec_block C raw = Some blk"
    and "sane_clock e'" "keyed (accounts s)" "\<not> state_lock s"
    and "\<not> marker_applied s (BlockProcessedKey (Hash_Hex (b_BlockHash blk)))"
    and "distinct (map tx_Hash (b_Transactions blk))" "\<forall>tx \<in> set (b_Transactions blk). tx_Nonce tx \<noteq> -1"
  shows "balance_at (accounts s1) a = balance_at (accounts s2) a \<and> nonce_at (accounts s1) a = nonce_at (accounts s2) a \<and>
     sent_at (accounts s1) a = sent_at (accounts s2) a"
proof -
  let ?pend = "\<lambda>tx. \<not> marked_tx s tx"
  let ?n = "\<lambda>tx m. if sends tx a then max m (tx_Nonce tx + 1) else m"
  obtain c z where cz: "b_CoinbaseAddr blk = Some c" "b_ZKVMAddr blk = Some z" using live(3) by (auto simp: block_ok_def)
  obtain r' where "Ret (Inr ()) = Ret r'" "block_result hexa blk s r' s1" by (rule block_run [OF live assms(9-11)])
  then have L: "ledger_block (block_apply hexa blk c z) (\<lambda>h. marker_applied s (TxProcessedKey h)) (b_Transactions blk) [] (accounts s) = Inr (accounts s1)"
    by (auto simp: block_result_def ledger_of_block_def cz tx_party_def split: sum.splits)
  have parties: "tx_From tx \<noteq> None \<and> tx_To tx \<noteq> None" if "tx \<in> set (b_Transactions blk)" for tx
  proof -
    have "tx_accounts txs \<noteq> None \<Longrightarrow> \<forall>tx \<in> set txs. tx_From tx \<noteq> None \<and> tx_To tx \<noteq> None" for txs
      by (induction txs) (auto split: option.splits)
    then show ?thesis using live(3) that by (auto simp: block_ok_def)
  qed
  have dist: "distinct (map hex (b_Transactions blk))"
    using assms(12) distinct_map [of Hash_Hex "map tx_Hash (b_Transactions blk)"] by (simp add: comp_def inj_on_def)
  note l = ledger_block_effect [OF L dist _ cz, of a]
  obtain H where H: "H \<subseteq> {h \<in> hex ` set (b_Transactions blk). \<not> marker_applied s (TxProcessedKey h)}"
    "recon_done blk H s s2" "\<forall>tx \<in> set (b_Transactions blk). marked_tx s2 tx"
    using ApplyBlockRecon_wp [OF recon(2,3) assms(9,10,8,12), of expect] recon(1) by (auto simp: wp_def recon_result_def)
  have "hex tx \<in> H \<longleftrightarrow> ?pend tx" if "tx \<in> set (b_Transactions blk)" for tx using H that by (auto simp: recon_done_def)
  then have txs: "txs_in (b_Transactions blk) H = filter ?pend (b_Transactions blk)" by (auto simp: txs_in_def intro: filter_cong)
  have "fold ?n (filter ?pend (b_Transactions blk)) (nonce_at (accounts s) a)
      = max (nonce_at (accounts s) a) (fold ?n (filter ?pend (b_Transactions blk)) 0)"
    using fold_max [of "\<lambda>tx. sends tx a" "\<lambda>tx. tx_Nonce tx + 1" "filter ?pend (b_Transactions blk)" "nonce_at (accounts s) a" 0] by simp
  with l H(2) parties assms(13) show ?thesis
    by (simp add: recon_done_def effect_in_def sent_in_def nonce_in_def txs)
qed

theorem catchup_equals_live_witness:
  "balance_at (accounts (snd (ProcessBlockTransactions (\<lambda>_. ''0x'') same_order (demo_block [demo_tx]) calm recon_db))) 2
     = balance_at (accounts (snd recon_run)) 2"
  using catchup_equals_live [OF run_eq [OF recon_live_ok] recon_db_facts(8) demo_block_ok(1,3) recon_run_ok [unfolded recon_run_def]
      recon_db_facts(1,2) calm_clock recon_db_facts(3,4) recon_db_unmarked(2) recon_db_facts(5), of 2]
  by (simp add: recon_run_def demo_block_def zero_block_def demo_tx_def zero_tx_def)

text \<open>
  Partition of a block: the groups are never empty and, read one after the other,
  are exactly the outstanding transactions in block order; a group has one transaction or
  its markers and the accounts its transactions touch fit the budget. The loops end for
  every block and every budget.
\<close>
theorem groups_partition:
  "concat (partitionReconGroups blk pending budget) = filter pending (map (\<lambda>tx. Hash_Hex (tx_Hash tx)) (b_Transactions blk))
   \<and> (g \<in> set (partitionReconGroups blk pending budget) \<longrightarrow> g \<noteq> [] \<and> (length g = 1 \<or> group_fits blk budget g))"
  unfolding partitionReconGroups_def using recon_groups_concat recon_groups_fit by blast

theorem groups_partition_witness:
  "concat (partitionReconGroups (demo_block [demo_tx, demo_tx2]) (\<lambda>_. True) 5) = map (\<lambda>tx. Hash_Hex (tx_Hash tx)) [demo_tx, demo_tx2]
   \<and> [Hash_Hex (tx_Hash demo_tx)] \<noteq> []"
proof -
  have "[Hash_Hex (tx_Hash demo_tx)] \<in> set (partitionReconGroups (demo_block [demo_tx, demo_tx2]) (\<lambda>_. True) 5)" by code_simp
  with groups_partition [of "demo_block [demo_tx, demo_tx2]" "\<lambda>_. True" 5 "[Hash_Hex (tx_Hash demo_tx)]"]
  show ?thesis by (simp add: demo_block_def zero_block_def)
qed

text \<open>
  C31. Reconciliation completes: when the database answers, the stored block decodes and is
  the expected one, every stored balance is a number, the transaction hashes are distinct
  and at most 1019 addresses share the fees, the run takes the lock, fits every group into
  one atomic write and reports success with every transaction of the block marked.
\<close>
theorem recon_completes:
  assumes "mainkv s (block_key n) = Some raw" "dec_block C raw = Some blk"
    and "expect = [] \<or> ToLower (Hash_Hex (b_BlockHash blk)) = ToLower expect"
    and "faultless e" "sane_clock e" "parsable (accounts s)" "keyed (accounts s)" "\<not> state_lock s"
    and "distinct (map tx_Hash (b_Transactions blk))" "length (b_FeeRecipients blk) \<le> 1019"
  shows "\<exists>s'. ApplyBlockRecon C n expect e s = (Ret (Inr True), s') \<and> (\<forall>tx \<in> set (b_Transactions blk). marked_tx s' tx)"
  using ApplyBlockRecon_completes [OF assms(1-4,6-10)] ApplyBlockRecon_wp [OF assms(1,2,7,8,5,9), of expect]
  by (cases "ApplyBlockRecon C n expect e s") (auto simp: wp_def recon_result_def split: result.splits)

theorem recon_completes_witness:
  "fst recon_run = Ret (Inr True) \<and> marked_tx (snd recon_run) demo_tx"
  using recon_completes [OF recon_db_facts(1,2) disjI1 [OF refl] recon_db_facts(8) calm_clock recon_db_facts(6,3,4,5,7)]
  by (auto simp: recon_run_def demo_block_def zero_block_def)

end
