(* ===== verification/BFTEngine.thy ===== *)
theory BFTEngine
  imports Prelude Quorum
begin

text \<open>
  The two-phase vote of \<^verbatim>\<open>src/AVC/BFT/bft\<close>: the message digests
  (\<^verbatim>\<open>security_helpers.go\<close>), the detector of conflicting prepares
  (\<^verbatim>\<open>byzantine.go\<close>), the engine with its PREPARE and COMMIT phases
  (\<^verbatim>\<open>engine.go\<close>) and \<^verbatim>\<open>RunConsensus\<close> (\<^verbatim>\<open>bft.go\<close>).

  SHA-256 and the two operations of Ed25519 are arguments; that
  \<^verbatim>\<open>ed25519.Verify\<close> and \<^verbatim>\<open>ed25519.Sign\<close> panic on keys of the wrong length is
  written out. A phase reads a list of events: the messages its receiver takes from
  the channel, the ticks of its 50 ms timer and the end of its context, each with the
  time in nanoseconds at which the code reads the clock. An order of a list stands for one
  interleaving of the receiver goroutine and the waiting loop. Go maps are association
  lists in insertion order, and the order in which a proof is collected is an argument.
\<close>

subsection \<open>Data\<close>

definition Accept :: string where "Accept = ''ACCEPT''"
definition Reject :: string where "Reject = ''REJECT''"

definition PrepareVersionV1 :: string where "PrepareVersionV1 = ''PREPARE_V1''"
definition CommitVersionV1 :: string where "CommitVersionV1 = ''COMMIT_V1''"

record buddy_input =
  bi_ID :: string
  bi_Decision :: string
  bi_PublicKey :: "byte list"
  bi_PrivateKey :: "byte list"

record prepare_message =
  p_Version :: string
  p_Seq :: u64
  p_Round :: u64
  p_BlockHash :: string
  p_BuddyID :: string
  p_Decision :: string
  p_Timestamp :: u64
  p_Signature :: "byte list"

record commit_message =
  c_Version :: string
  c_Seq :: u64
  c_Round :: u64
  c_BlockHash :: string
  c_BuddyID :: string
  c_Decision :: string
  c_PrepareProof :: "prepare_message list"
  c_Timestamp :: u64
  c_Signature :: "byte list"

record bft_config =
  cf_MinBuddies :: int
  cf_RequireSignatures :: bool
  cf_MaxProofSize :: int

definition DefaultConfig :: bft_config where
  "DefaultConfig = \<lparr>cf_MinBuddies = 13, cf_RequireSignatures = True, cf_MaxProofSize = 256\<rparr>"

datatype bft_err = EUnknownBuddy | EWrongRound | EStale | ESeq | EMissingSig | EBadSig | EProofTooLarge
  | EDuplicateInProof | EUnknownInProof | EStaleProof | EMissingProofSig | EBadProofSig | EInsufficientVotes
  | ENoSigner | ESign | EInsufficientProof | EBroadcast | EPrepareTimeout | ECommitTimeout
  | EEmptyID | EFewBuddies | EEmptyBuddyID | EDuplicateBuddy | EBadDecision | ENoPublicKey | ENoPrivateKey
  | ENotFound | EKeyPanic

record crypto =
  sha256 :: "byte list \<Rightarrow> byte list"
  ed_verify :: "byte list \<Rightarrow> byte list \<Rightarrow> byte list \<Rightarrow> bool"
  ed_sign :: "byte list \<Rightarrow> byte list \<Rightarrow> byte list"

type_synonym signer = "byte list \<Rightarrow> bft_err + byte list"

definition NewLocalSigner :: "crypto \<Rightarrow> byte list \<Rightarrow> signer" where
  "NewLocalSigner C privateKey payload =
     (if privateKey = [] then Inl ESign
      else if length privateKey \<noteq> 64 then Inl EKeyPanic
      else Inr (ed_sign C privateKey payload))"

subsection \<open>Digests\<close>

definition be64 :: "u64 \<Rightarrow> byte list" where
  "be64 w = map (\<lambda>i. ucast (drop_bit (8 * (7 - i)) w)) [0..<8]"

definition vote_bytes :: "string \<Rightarrow> u64 \<Rightarrow> u64 \<Rightarrow> string \<Rightarrow> string \<Rightarrow> string \<Rightarrow> u64 \<Rightarrow> byte list" where
  "vote_bytes version seq rnd blockHash buddyID decision ts =
     str_bytes version @ be64 seq @ be64 rnd @ str_bytes blockHash @ str_bytes buddyID @ str_bytes decision @ be64 ts"

definition prepare_bytes :: "prepare_message \<Rightarrow> byte list" where
  "prepare_bytes m = vote_bytes (p_Version m) (p_Seq m) (p_Round m) (p_BlockHash m) (p_BuddyID m) (p_Decision m) (p_Timestamp m)"

definition commit_bytes :: "commit_message \<Rightarrow> byte list" where
  "commit_bytes m = vote_bytes (c_Version m) (c_Seq m) (c_Round m) (c_BlockHash m) (c_BuddyID m) (c_Decision m) (c_Timestamp m)"

definition DigestPrepare :: "crypto \<Rightarrow> prepare_message \<Rightarrow> byte list" where
  "DigestPrepare C m = sha256 C (prepare_bytes m)"

definition DigestCommit :: "crypto \<Rightarrow> commit_message \<Rightarrow> byte list" where
  "DigestCommit C m = sha256 C (commit_bytes m)"

subsection \<open>The engine\<close>

record ban =
  bannedAt :: int
  ban_ttl :: int

record engine =
  en_config :: bft_config
  en_myBuddyID :: string
  en_myDecision :: string
  en_buddies :: "string \<rightharpoonup> buddy_input"
  en_threshold :: int
  en_round :: u64
  en_blockHash :: string
  en_signer :: "signer option"
  en_byzantine :: "string \<rightharpoonup> ban"
  en_prepareMsgs :: "(string \<times> prepare_message) list"
  en_commitMsgs :: "(string \<times> commit_message) list"
  en_lastSeqSeen :: "string \<Rightarrow> u64"

definition unix :: "int \<Rightarrow> u64" where
  "unix t = word_of_int (t div 10 ^ 9)"

definition AllowedTimestampSkew :: int where "AllowedTimestampSkew = 30"

definition isTimestampFresh :: "u64 \<Rightarrow> u64 \<Rightarrow> bool" where
  "isTimestampFresh now ts =
     (if ts = 0 then False
      else let diff = now - ts; diff = (if sint diff < 0 then - diff else diff)
           in sint diff \<le> AllowedTimestampSkew)"

definition checkAndMarkSeq :: "string \<Rightarrow> u64 \<Rightarrow> engine \<Rightarrow> bool \<times> engine" where
  "checkAndMarkSeq buddyID seq e =
     (if seq \<le> en_lastSeqSeen e buddyID then (False, e)
      else (True, e\<lparr>en_lastSeqSeen := (en_lastSeqSeen e)(buddyID := seq)\<rparr>))"

definition ensureSeqForSelf :: "engine \<Rightarrow> u64 \<times> engine" where
  "ensureSeqForSelf e =
     (let last = en_lastSeqSeen e (en_myBuddyID e) + 1
      in (last, e\<lparr>en_lastSeqSeen := (en_lastSeqSeen e)(en_myBuddyID e := last)\<rparr>))"

definition ed_check :: "crypto \<Rightarrow> byte list \<Rightarrow> byte list \<Rightarrow> byte list \<Rightarrow> bft_err \<Rightarrow> bft_err option" where
  "ed_check C pk digest sig err =
     (if length pk \<noteq> 32 then Some EKeyPanic else if ed_verify C pk digest sig then None else Some err)"

definition addPrepareMsg :: "prepare_message \<Rightarrow> engine \<Rightarrow> engine" where
  "addPrepareMsg m e =
     (if map_of (en_prepareMsgs e) (p_BuddyID m) = None
      then e\<lparr>en_prepareMsgs := en_prepareMsgs e @ [(p_BuddyID m, m)]\<rparr> else e)"

definition addCommitMsg :: "commit_message \<Rightarrow> engine \<Rightarrow> engine" where
  "addCommitMsg m e =
     (if map_of (en_commitMsgs e) (c_BuddyID m) = None
      then e\<lparr>en_commitMsgs := en_commitMsgs e @ [(c_BuddyID m, m)]\<rparr> else e)"

definition getPrepareVoteCounts :: "engine \<Rightarrow> int \<times> int" where
  "getPrepareVoteCounts e =
     (int (length (filter (\<lambda>(_, m). p_Decision m = Accept) (en_prepareMsgs e))),
      int (length (filter (\<lambda>(_, m). p_Decision m \<noteq> Accept) (en_prepareMsgs e))))"

definition isByzantine :: "int \<Rightarrow> engine \<Rightarrow> string \<Rightarrow> bool" where
  "isByzantine now e buddyID =
     (case en_byzantine e buddyID of None \<Rightarrow> False | Some entry \<Rightarrow> now - bannedAt entry \<le> ban_ttl entry)"

definition getCommitVoteCountsClean :: "int \<Rightarrow> engine \<Rightarrow> int \<times> int" where
  "getCommitVoteCountsClean now e =
     (let clean = filter (\<lambda>(b, _). \<not> isByzantine now e b) (en_commitMsgs e)
      in (int (length (filter (\<lambda>(_, m). c_Decision m = Accept) clean)),
          int (length (filter (\<lambda>(_, m). c_Decision m \<noteq> Accept) clean))))"

definition defaultTTL :: int where "defaultTTL = 5 * 60 * 10 ^ 9"

definition mark_ban :: "int \<Rightarrow> string \<Rightarrow> engine \<Rightarrow> engine" where
  "mark_ban now buddyID e = e\<lparr>en_byzantine := (en_byzantine e)(buddyID \<mapsto> \<lparr>bannedAt = now, ban_ttl = defaultTTL\<rparr>)\<rparr>"

definition cleaner :: "int \<Rightarrow> engine \<Rightarrow> engine" where
  "cleaner now e = e\<lparr>en_byzantine := (\<lambda>b. case en_byzantine e b of None \<Rightarrow> None
     | Some entry \<Rightarrow> if now - bannedAt entry > ban_ttl entry then None else Some entry)\<rparr>"

definition detectConflicts :: "commit_message \<Rightarrow> (string \<times> prepare_message) list \<Rightarrow> string list" where
  "detectConflicts commit ourPrepares =
     map p_BuddyID (filter (\<lambda>proof. case map_of ourPrepares (p_BuddyID proof) of None \<Rightarrow> False
       | Some our \<Rightarrow> p_Decision our \<noteq> p_Decision proof \<or> p_Round our \<noteq> p_Round proof
           \<or> p_BlockHash our \<noteq> p_BlockHash proof) (c_PrepareProof commit))"

subsection \<open>Validation of received messages\<close>

definition validatePrepare :: "crypto \<Rightarrow> int \<Rightarrow> prepare_message \<Rightarrow> engine \<Rightarrow> bft_err option \<times> engine" where
  "validatePrepare C now m e =
     (case en_buddies e (p_BuddyID m) of
        None \<Rightarrow> (Some EUnknownBuddy, e)
      | Some buddy \<Rightarrow>
          if p_Round m \<noteq> en_round e \<or> p_BlockHash m \<noteq> en_blockHash e then (Some EWrongRound, e)
          else if \<not> isTimestampFresh (unix now) (p_Timestamp m) then (Some EStale, e)
          else case checkAndMarkSeq (p_BuddyID m) (p_Seq m) e of
              (False, e) \<Rightarrow> (Some ESeq, e)
            | (True, e) \<Rightarrow>
                if cf_RequireSignatures (en_config e)
                then if p_Signature m = [] then (Some EMissingSig, e)
                     else (ed_check C (bi_PublicKey buddy) (DigestPrepare C m) (p_Signature m) EBadSig, e)
                else (None, e))"

fun check_proof :: "crypto \<Rightarrow> int \<Rightarrow> engine \<Rightarrow> string \<Rightarrow> string list \<Rightarrow> int \<Rightarrow> prepare_message list \<Rightarrow> bft_err + int" where
  "check_proof C now e decision seen supportingCount [] = Inr supportingCount"
| "check_proof C now e decision seen supportingCount (prepare # rest) =
     (if p_BuddyID prepare \<in> set seen then Inl EDuplicateInProof
      else case en_buddies e (p_BuddyID prepare) of
          None \<Rightarrow> Inl EUnknownInProof
        | Some proofBuddy \<Rightarrow>
            if \<not> isTimestampFresh (unix now) (p_Timestamp prepare) then Inl EStaleProof
            else case (if cf_RequireSignatures (en_config e)
                       then if p_Signature prepare = [] then Some EMissingProofSig
                            else ed_check C (bi_PublicKey proofBuddy) (DigestPrepare C prepare) (p_Signature prepare) EBadProofSig
                       else None) of
                Some x \<Rightarrow> Inl x
              | None \<Rightarrow> check_proof C now e decision (p_BuddyID prepare # seen)
                  (if p_Decision prepare = decision then supportingCount + 1 else supportingCount) rest)"

definition validateCommit :: "crypto \<Rightarrow> int \<Rightarrow> commit_message \<Rightarrow> engine \<Rightarrow> bft_err option \<times> engine" where
  "validateCommit C now m e =
     (case en_buddies e (c_BuddyID m) of
        None \<Rightarrow> (Some EUnknownBuddy, e)
      | Some buddy \<Rightarrow>
          if c_Round m \<noteq> en_round e \<or> c_BlockHash m \<noteq> en_blockHash e then (Some EWrongRound, e)
          else if int (length (c_PrepareProof m)) > cf_MaxProofSize (en_config e) then (Some EProofTooLarge, e)
          else if \<not> isTimestampFresh (unix now) (c_Timestamp m) then (Some EStale, e)
          else case checkAndMarkSeq (c_BuddyID m) (c_Seq m) e of
              (False, e) \<Rightarrow> (Some ESeq, e)
            | (True, e) \<Rightarrow>
                (case (if cf_RequireSignatures (en_config e)
                       then if c_Signature m = [] then Some EMissingSig
                            else ed_check C (bi_PublicKey buddy) (DigestCommit C m) (c_Signature m) EBadSig
                       else None) of
                   Some x \<Rightarrow> (Some x, e)
                 | None \<Rightarrow>
                     (case check_proof C now e (c_Decision m) [] 0 (c_PrepareProof m) of
                        Inl x \<Rightarrow> (Some x, e)
                      | Inr supportingCount \<Rightarrow>
                          (if supportingCount < en_threshold e then Some EInsufficientVotes else None, e))))"

subsection \<open>Own messages\<close>

definition sign_with :: "engine \<Rightarrow> byte list \<Rightarrow> bft_err + byte list" where
  "sign_with e digest =
     (case en_signer e of
        None \<Rightarrow> if cf_RequireSignatures (en_config e) then Inl ENoSigner else Inr []
      | Some sg \<Rightarrow> sg digest)"

definition signPrepare :: "crypto \<Rightarrow> engine \<Rightarrow> prepare_message \<Rightarrow> bft_err + prepare_message" where
  "signPrepare C e p =
     (case sign_with e (DigestPrepare C p) of Inl x \<Rightarrow> Inl x | Inr sig \<Rightarrow> Inr (p\<lparr>p_Signature := sig\<rparr>))"

definition signCommit :: "crypto \<Rightarrow> engine \<Rightarrow> commit_message \<Rightarrow> bft_err + commit_message" where
  "signCommit C e c =
     (case sign_with e (DigestCommit C c) of Inl x \<Rightarrow> Inl x | Inr sig \<Rightarrow> Inr (c\<lparr>c_Signature := sig\<rparr>))"

type_synonym proof_order = "(string \<times> prepare_message) list \<Rightarrow> (string \<times> prepare_message) list"

text \<open>The loop stops once the proof has threshold entries; a threshold of zero or less stops it after the first.\<close>

definition collectPrepareProof :: "proof_order \<Rightarrow> string \<Rightarrow> engine \<Rightarrow> prepare_message list" where
  "collectPrepareProof ord decision e =
     take (nat (max 1 (en_threshold e))) (filter (\<lambda>m. p_Decision m = decision) (map snd (ord (en_prepareMsgs e))))"

definition createPrepare :: "crypto \<Rightarrow> int \<Rightarrow> engine \<Rightarrow> (bft_err + prepare_message) \<times> engine" where
  "createPrepare C now e =
     (case ensureSeqForSelf e of
        (seq, e) \<Rightarrow>
          (signPrepare C e \<lparr>p_Version = PrepareVersionV1, p_Seq = seq, p_Round = en_round e, p_BlockHash = en_blockHash e,
             p_BuddyID = en_myBuddyID e, p_Decision = en_myDecision e, p_Timestamp = unix now, p_Signature = []\<rparr>, e))"

definition createCommit :: "crypto \<Rightarrow> proof_order \<Rightarrow> int \<Rightarrow> string \<Rightarrow> engine \<Rightarrow> (bft_err + commit_message) \<times> engine" where
  "createCommit C ord now decision e =
     (let proof = collectPrepareProof ord decision e
      in if int (length proof) < en_threshold e then (Inl EInsufficientProof, e)
         else if int (length proof) > cf_MaxProofSize (en_config e) then (Inl EProofTooLarge, e)
         else case ensureSeqForSelf e of
            (seq, e) \<Rightarrow>
              (signCommit C e \<lparr>c_Version = CommitVersionV1, c_Seq = seq, c_Round = en_round e, c_BlockHash = en_blockHash e,
                 c_BuddyID = en_myBuddyID e, c_Decision = decision, c_PrepareProof = proof, c_Timestamp = unix now,
                 c_Signature = []\<rparr>, e))"

subsection \<open>The phases\<close>

datatype event = RecvPrepare int prepare_message | RecvCommit int commit_message | Tick int | Expire | Clean int

definition handle_prepare :: "crypto \<Rightarrow> int \<Rightarrow> prepare_message \<Rightarrow> engine \<Rightarrow> bft_err option \<times> engine" where
  "handle_prepare C now m e =
     (case validatePrepare C now m e of
        (None, e) \<Rightarrow> (None, addPrepareMsg m e)
      | (Some x, e) \<Rightarrow> (Some x, e))"

definition handle_commit :: "crypto \<Rightarrow> int \<Rightarrow> commit_message \<Rightarrow> engine \<Rightarrow> bft_err option \<times> engine" where
  "handle_commit C now m e =
     (case validateCommit C now m e of
        (Some x, e) \<Rightarrow> (Some x, e)
      | (None, e) \<Rightarrow>
          let byz = detectConflicts m (en_prepareMsgs e)
          in if byz \<noteq> [] then (None, fold (mark_ban now) byz e) else (None, addCommitMsg m e))"

definition decide :: "int \<Rightarrow> int \<times> int \<Rightarrow> string option" where
  "decide threshold counts =
     (if fst counts \<ge> threshold then Some Accept else if snd counts \<ge> threshold then Some Reject else None)"

text \<open>
  The waiting loops. The result \<^term>\<open>None\<close> is a phase that is still waiting when the listed
  events are used up; a panic of a receiver goroutine ends the process.
\<close>

fun waitForPrepareThreshold :: "crypto \<Rightarrow> event list \<Rightarrow> engine \<Rightarrow> (bft_err + string) option \<times> engine" where
  "waitForPrepareThreshold C [] e = (None, e)"
| "waitForPrepareThreshold C (RecvPrepare now m # evs) e =
     (case handle_prepare C now m e of (x, e) \<Rightarrow>
        if x = Some EKeyPanic then (Some (Inl EKeyPanic), e) else waitForPrepareThreshold C evs e)"
| "waitForPrepareThreshold C (Tick now # evs) e =
     (case decide (en_threshold e) (getPrepareVoteCounts e) of
        Some d \<Rightarrow> (Some (Inr d), e)
      | None \<Rightarrow> waitForPrepareThreshold C evs e)"
| "waitForPrepareThreshold C (Expire # evs) e = (Some (Inl EPrepareTimeout), e)"
| "waitForPrepareThreshold C (Clean now # evs) e = waitForPrepareThreshold C evs (cleaner now e)"
| "waitForPrepareThreshold C (RecvCommit now m # evs) e = waitForPrepareThreshold C evs e"

text \<open>A PREPARE that the first receiver takes after its context ended is still handled while COMMITs are awaited.\<close>

fun waitForCommitThreshold :: "crypto \<Rightarrow> event list \<Rightarrow> engine \<Rightarrow> (bft_err + string) option \<times> engine" where
  "waitForCommitThreshold C [] e = (None, e)"
| "waitForCommitThreshold C (RecvCommit now m # evs) e =
     (case handle_commit C now m e of (x, e) \<Rightarrow>
        if x = Some EKeyPanic then (Some (Inl EKeyPanic), e) else waitForCommitThreshold C evs e)"
| "waitForCommitThreshold C (RecvPrepare now m # evs) e =
     (case handle_prepare C now m e of (x, e) \<Rightarrow>
        if x = Some EKeyPanic then (Some (Inl EKeyPanic), e) else waitForCommitThreshold C evs e)"
| "waitForCommitThreshold C (Tick now # evs) e =
     (case decide (en_threshold e) (getCommitVoteCountsClean now e) of
        Some d \<Rightarrow> (Some (Inr d), e)
      | None \<Rightarrow> waitForCommitThreshold C evs e)"
| "waitForCommitThreshold C (Expire # evs) e = (Some (Inl ECommitTimeout), e)"
| "waitForCommitThreshold C (Clean now # evs) e = waitForCommitThreshold C evs (cleaner now e)"

text \<open>What a run reads from its surroundings.\<close>

record bft_env =
  ev_prepare_time :: int
  ev_prepare_sent :: bool
  ev_prepare_events :: "event list"
  ev_order :: proof_order
  ev_commit_time :: int
  ev_commit_sent :: bool
  ev_commit_events :: "event list"

definition runPrepare :: "crypto \<Rightarrow> bft_env \<Rightarrow> engine \<Rightarrow> (bft_err + string) option \<times> engine" where
  "runPrepare C env e =
     (case createPrepare C (ev_prepare_time env) e of
        (Inl x, e) \<Rightarrow> (Some (Inl x), e)
      | (Inr myPrepare, e) \<Rightarrow>
          let e = addPrepareMsg myPrepare e
          in if \<not> ev_prepare_sent env then (Some (Inl EBroadcast), e)
             else waitForPrepareThreshold C (ev_prepare_events env) e)"

definition runCommit :: "crypto \<Rightarrow> bft_env \<Rightarrow> string \<Rightarrow> engine \<Rightarrow> (bft_err + string) option \<times> engine" where
  "runCommit C env prepareDecision e =
     (case createCommit C (ev_order env) (ev_commit_time env) prepareDecision e of
        (Inl x, e) \<Rightarrow> (Some (Inl x), e)
      | (Inr myCommit, e) \<Rightarrow>
          let e = addCommitMsg myCommit e
          in if \<not> ev_commit_sent env then (Some (Inl EBroadcast), e)
             else waitForCommitThreshold C (ev_commit_events env) e)"

subsection \<open>RunConsensus\<close>

fun check_buddies :: "string \<Rightarrow> string list \<Rightarrow> buddy_input list \<Rightarrow> bft_err option" where
  "check_buddies myBuddyID seen [] = None"
| "check_buddies myBuddyID seen (buddy # rest) =
     (if bi_ID buddy = [] then Some EEmptyBuddyID
      else if bi_ID buddy \<in> set seen then Some EDuplicateBuddy
      else if bi_Decision buddy \<noteq> Accept \<and> bi_Decision buddy \<noteq> Reject then Some EBadDecision
      else if bi_PublicKey buddy = [] then Some ENoPublicKey
      else if bi_ID buddy = myBuddyID \<and> bi_PrivateKey buddy = [] then Some ENoPrivateKey
      else check_buddies myBuddyID (bi_ID buddy # seen) rest)"

definition validateInputs :: "bft_config \<Rightarrow> string \<Rightarrow> buddy_input list \<Rightarrow> bft_err option" where
  "validateInputs cfg myBuddyID buddies =
     (if myBuddyID = [] then Some EEmptyID
      else if int (length buddies) < cf_MinBuddies cfg then Some EFewBuddies
      else check_buddies myBuddyID [] buddies)"

definition buddy_map :: "buddy_input list \<Rightarrow> string \<rightharpoonup> buddy_input" where
  "buddy_map buddies = map_of (map (\<lambda>b. (bi_ID b, b)) (rev buddies))"

definition resolve_signer :: "crypto \<Rightarrow> signer option \<Rightarrow> buddy_input \<Rightarrow> signer option" where
  "resolve_signer C sg myBuddy =
     (case sg of Some s \<Rightarrow> Some s
      | None \<Rightarrow> if bi_PrivateKey myBuddy \<noteq> [] then Some (NewLocalSigner C (bi_PrivateKey myBuddy)) else None)"

definition new_engine :: "bft_config \<Rightarrow> u64 \<Rightarrow> string \<Rightarrow> buddy_input \<Rightarrow> buddy_input list \<Rightarrow> signer option \<Rightarrow> engine" where
  "new_engine cfg rnd blockHash myBuddy buddies sg =
     \<lparr>en_config = cfg, en_myBuddyID = bi_ID myBuddy, en_myDecision = bi_Decision myBuddy, en_buddies = buddy_map buddies,
      en_threshold = BFTThreshold (int (length buddies)), en_round = rnd, en_blockHash = blockHash, en_signer = sg,
      en_byzantine = Map.empty, en_prepareMsgs = [], en_commitMsgs = [], en_lastSeqSeen = (\<lambda>_. 0)\<rparr>"

record bft_result =
  r_Success :: bool
  r_BlockAccepted :: bool
  r_Decision :: string
  r_PrepareCount :: nat
  r_CommitCount :: nat

text \<open>\<^verbatim>\<open>RunConsensus\<close>: the result, if the run ended within the listed events, and the engine.\<close>

definition RunConsensus ::
  "crypto \<Rightarrow> bft_config \<Rightarrow> u64 \<Rightarrow> string \<Rightarrow> string \<Rightarrow> buddy_input list \<Rightarrow> signer option \<Rightarrow> bft_env \<Rightarrow> (bft_err + bft_result) option" where
  "RunConsensus C cfg rnd blockHash myBuddyID allBuddies sg env =
     (case validateInputs cfg myBuddyID allBuddies of
        Some x \<Rightarrow> Some (Inl x)
      | None \<Rightarrow>
     (case buddy_map allBuddies myBuddyID of
        None \<Rightarrow> Some (Inl ENotFound)
      | Some myBuddy \<Rightarrow>
          let sg = resolve_signer C sg myBuddy
          in if sg = None \<and> cf_RequireSignatures cfg then Some (Inl ENoSigner)
             else case runPrepare C env (new_engine cfg rnd blockHash myBuddy allBuddies sg) of
                (None, _) \<Rightarrow> None
              | (Some (Inl x), _) \<Rightarrow> Some (Inl x)
              | (Some (Inr d), e) \<Rightarrow>
                  (case runCommit C env d e of
                     (None, _) \<Rightarrow> None
                   | (Some (Inl x), _) \<Rightarrow> Some (Inl x)
                   | (Some (Inr d), e) \<Rightarrow>
                       Some (Inr \<lparr>r_Success = True, r_BlockAccepted = (d = Accept), r_Decision = d,
                          r_PrepareCount = length (en_prepareMsgs e), r_CommitCount = length (en_commitMsgs e)\<rparr>))))"

end
