(* ===== verification/BFTVotes.thy ===== *)
theory BFTVotes
  imports BFTEngine
begin

text \<open>
  What the engine keeps true: which fields of a signed vote its digest binds, and
  what is known of every message the two phases have stored, whatever is received.
\<close>

subsection \<open>What a digest binds\<close>

lemma length_be64 [simp]: "length (be64 w) = 8"
  by (simp add: be64_def)

lemma be64_inj [simp]: "be64 v = be64 w \<longleftrightarrow> v = w"
proof
  assume eq: "be64 v = be64 w"
  show "v = w"
  proof (rule bit_word_eqI)
    fix n assume "n < LENGTH(64)"
    then have n: "n div 8 < 8" "n = 8 * (n div 8) + n mod 8" by (simp_all add: less_mult_imp_div_less)
    let ?i = "7 - n div 8"
    from eq have "be64 v ! ?i = be64 w ! ?i" by simp
    then have "(ucast (drop_bit (8 * (7 - ?i)) v) :: byte) = ucast (drop_bit (8 * (7 - ?i)) w)"
      unfolding be64_def by (subst (asm) (1 2) nth_map) (simp_all del: upt_Suc)
    then have "bit (ucast (drop_bit (8 * (n div 8)) v) :: byte) (n mod 8) = bit (ucast (drop_bit (8 * (n div 8)) w) :: byte) (n mod 8)"
      using n(1) by (simp add: algebra_simps)
    then show "bit v n = bit w n" using n by (simp add: bit_simps)
  qed
qed simp

text \<open>Buddy ids whose digits do not repeat with a period of ten or less, as base58 peer ids do not.\<close>

definition id_ok :: "string \<Rightarrow> bool" where
  "id_ok I \<longleftrightarrow> 10 < length I \<and> (\<forall>k \<in> {1..10}. drop k I \<noteq> take (length I - k) I)"

lemma no_shift:
  assumes "X @ I @ w = Y @ I" "w \<noteq> []" "length w < length I"
  shows "drop (length w) I = take (length I - length w) I"
proof -
  have len: "length Y = length X + length w" using assms(1) by (metis add_right_cancel append_assoc length_append add.commute)
  then obtain u where u: "Y = X @ u" "length u = length w"
    using assms(1) by (metis append_eq_append_conv_if append_take_drop_id length_append add_diff_cancel_left' le_add1 length_drop)
  with assms(1) have "I @ w = u @ I" by simp
  then have "drop (length w) (I @ w) = I" using u(2) by (metis append_eq_conv_conj)
  with assms(3) have "drop (length w) I @ w = I" by simp
  then show ?thesis by (metis append_eq_conv_conj length_drop)
qed

lemma split_tail:
  assumes "X @ I @ d = Y @ I @ d'" "length d < length d'"
  obtains w where "d' = w @ d" "w \<noteq> []" "X @ I = Y @ I @ w" "length w = length d' - length d"
proof
  let ?w = "take (length d' - length d) d'"
  have len: "length (X @ I) = length (Y @ I) + (length d' - length d)" using arg_cong [OF assms(1), of length] assms(2) by simp
  have "drop (length (X @ I)) ((X @ I) @ d) = drop (length (Y @ I) + (length d' - length d)) ((Y @ I) @ d')"
    unfolding len using assms(1) by simp
  then have "d = drop (length d' - length d) d'" by simp
  then show "d' = ?w @ d" by (metis append_take_drop_id)
  with assms(1) have "(X @ I) @ d = (Y @ I @ ?w) @ d" by simp
  then show "X @ I = Y @ I @ ?w" by (rule append_same_eq [THEN iffD1])
  show "?w \<noteq> []" "length ?w = length d' - length d" using assms(2) by auto
qed

lemma vote_bytes_binds:
  assumes eq: "vote_bytes v s r B I d t = vote_bytes v' s' r' B' I d' t'"
    and len: "length B = length B'" "length v' \<le> 10" "length d' \<le> 10" and I: "id_ok I"
  shows "r = r' \<and> B = B' \<and> d = d'"
proof -
  let ?h = "\<lambda>v s r B. str_bytes v @ be64 s @ be64 r @ str_bytes B"
  have "(?h v s r B @ str_bytes I @ str_bytes d) @ be64 t = (?h v' s' r' B' @ str_bytes I @ str_bytes d') @ be64 t'"
    using eq unfolding vote_bytes_def append_assoc .
  then have eq': "?h v s r B @ str_bytes I @ str_bytes d = ?h v' s' r' B' @ str_bytes I @ str_bytes d'"
    by (subst (asm) append_eq_append_conv) (simp_all only: length_be64 HOL.simp_thms)
  have sum: "length v + length d = length v' + length d'" using arg_cong [OF eq', of length] len(1) by simp
  have shift: False if "X @ str_bytes I @ w = Y @ str_bytes I" "w \<noteq> []" "length w \<le> 10" for X Y w
  proof -
    have "length w < length (str_bytes I)" using that(3) I by (simp add: id_ok_def)
    from no_shift [OF that(1,2) this] have "str_bytes (drop (length w) I) = str_bytes (take (length I - length w) I)"
      by (simp add: str_bytes_def drop_map take_map)
    with I that(2,3) show False by (auto simp: id_ok_def Suc_le_eq)
  qed
  have "length d = length d'"
  proof (rule ccontr)
    assume "length d \<noteq> length d'"
    then consider "length d < length d'" | "length d' < length d" by linarith
    then show False
    proof cases
      case 1
      then obtain w where w: "?h v s r B @ str_bytes I = ?h v' s' r' B' @ str_bytes I @ w" "w \<noteq> []" "length w = length d' - length d"
        by (rule split_tail [OF eq', unfolded length_str_bytes])
      from shift [OF w(1) [symmetric] w(2)] w(3) len(3) show False by linarith
    next
      case 2
      then obtain w where w: "?h v' s' r' B' @ str_bytes I = ?h v s r B @ str_bytes I @ w" "w \<noteq> []" "length w = length d - length d'"
        by (rule split_tail [OF eq' [symmetric], unfolded length_str_bytes])
      from shift [OF w(1) [symmetric] w(2)] w(3) len(2) sum show False by linarith
    qed
  qed
  with eq' len(1) sum show ?thesis by simp
qed

subsection \<open>Stored messages\<close>

definition static :: "engine \<Rightarrow> bft_config \<times> string \<times> (string \<rightharpoonup> buddy_input) \<times> int \<times> u64 \<times> string" where
  "static e = (en_config e, en_myBuddyID e, en_buddies e, en_threshold e, en_round e, en_blockHash e)"

definition verified_prepare :: "crypto \<Rightarrow> engine \<Rightarrow> prepare_message \<Rightarrow> bool" where
  "verified_prepare C e m \<longleftrightarrow> (\<exists>b. en_buddies e (p_BuddyID m) = Some b \<and> p_Round m = en_round e \<and> p_BlockHash m = en_blockHash e
     \<and> ed_verify C (bi_PublicKey b) (DigestPrepare C m) (p_Signature m))"

definition verified_commit :: "crypto \<Rightarrow> engine \<Rightarrow> commit_message \<Rightarrow> bool" where
  "verified_commit C e m \<longleftrightarrow> (\<exists>b. en_buddies e (c_BuddyID m) = Some b \<and> c_Round m = en_round e \<and> c_BlockHash m = en_blockHash e
     \<and> ed_verify C (bi_PublicKey b) (DigestCommit C m) (c_Signature m))"

text \<open>
  The invariant of an engine that requires signatures: one message per buddy, filed under
  its sender, and each is the node's own or carries a valid signature of a member for this
  round and block. Prepares that were received come from the list \<open>M\<close>.
\<close>

definition prepares_ok :: "crypto \<Rightarrow> prepare_message option \<Rightarrow> prepare_message set \<Rightarrow> engine \<Rightarrow> bool" where
  "prepares_ok C own M e \<longleftrightarrow> distinct (map fst (en_prepareMsgs e)) \<and>
     (\<forall>(b, m) \<in> set (en_prepareMsgs e). b = p_BuddyID m \<and> (own = Some m \<or> verified_prepare C e m \<and> m \<in> M))"

definition commits_ok :: "crypto \<Rightarrow> commit_message option \<Rightarrow> engine \<Rightarrow> bool" where
  "commits_ok C own e \<longleftrightarrow> distinct (map fst (en_commitMsgs e)) \<and>
     (\<forall>(b, m) \<in> set (en_commitMsgs e). b = c_BuddyID m \<and> (own = Some m \<or> verified_commit C e m))"

lemma static_fields:
  assumes "static e' = static e"
  shows "en_config e' = en_config e" "en_myBuddyID e' = en_myBuddyID e" "en_buddies e' = en_buddies e"
    "en_threshold e' = en_threshold e" "en_round e' = en_round e" "en_blockHash e' = en_blockHash e"
    "verified_prepare C e' = verified_prepare C e" "verified_commit C e' = verified_commit C e"
  using assms by (auto simp: static_def verified_prepare_def verified_commit_def fun_eq_iff)

lemma static_updates [simp]:
  "static (e\<lparr>en_lastSeqSeen := q\<rparr>) = static e" "static (e\<lparr>en_prepareMsgs := ps\<rparr>) = static e"
  "static (e\<lparr>en_commitMsgs := cs\<rparr>) = static e" "static (e\<lparr>en_byzantine := z\<rparr>) = static e"
  by (simp_all add: static_def)

lemma static_ops [simp]:
  "static (addPrepareMsg m e) = static e" "static (addCommitMsg c e) = static e" "static (cleaner t e) = static e"
  "static (mark_ban t b e) = static e"
  by (simp_all add: addPrepareMsg_def addCommitMsg_def cleaner_def mark_ban_def)

lemma fold_mark_ban:
  "static (fold (mark_ban t) bs e) = static e" "en_prepareMsgs (fold (mark_ban t) bs e) = en_prepareMsgs e"
  "en_commitMsgs (fold (mark_ban t) bs e) = en_commitMsgs e"
  by (induction bs arbitrary: e) (auto simp: mark_ban_def)

lemma checkAndMarkSeq_frame:
  assumes "checkAndMarkSeq b q e = (ok, e')"
  shows "static e' = static e" "en_prepareMsgs e' = en_prepareMsgs e" "en_commitMsgs e' = en_commitMsgs e"
  using assms by (auto simp: checkAndMarkSeq_def split: if_splits)

lemma validatePrepare_frame:
  assumes "validatePrepare C t m e = (x, e')"
  shows "static e' = static e" "en_prepareMsgs e' = en_prepareMsgs e" "en_commitMsgs e' = en_commitMsgs e"
  using assms by (auto simp: validatePrepare_def dest: checkAndMarkSeq_frame split: option.splits if_splits prod.splits bool.splits)

lemma validatePrepare_verified:
  assumes "validatePrepare C t m e = (None, e')" "cf_RequireSignatures (en_config e)"
  shows "verified_prepare C e m"
proof -
  obtain ok e1 where seq: "checkAndMarkSeq (p_BuddyID m) (p_Seq m) e = (ok, e1)" by fastforce
  have "en_config e1 = en_config e" by (rule static_fields(1) [OF checkAndMarkSeq_frame(1) [OF seq]])
  with assms seq show ?thesis
    by (auto simp: validatePrepare_def verified_prepare_def ed_check_def split: option.splits if_splits bool.splits)
qed

lemma validateCommit_frame:
  assumes "validateCommit C t m e = (x, e')"
  shows "static e' = static e" "en_prepareMsgs e' = en_prepareMsgs e" "en_commitMsgs e' = en_commitMsgs e"
  using assms by (auto simp: validateCommit_def dest: checkAndMarkSeq_frame split: option.splits if_splits prod.splits bool.splits sum.splits)

lemma validateCommit_verified:
  assumes "validateCommit C t m e = (None, e')" "cf_RequireSignatures (en_config e)"
  shows "verified_commit C e m"
proof -
  obtain ok e1 where seq: "checkAndMarkSeq (c_BuddyID m) (c_Seq m) e = (ok, e1)" by fastforce
  have "en_config e1 = en_config e" by (rule static_fields(1) [OF checkAndMarkSeq_frame(1) [OF seq]])
  with assms seq show ?thesis
    by (auto simp: validateCommit_def verified_commit_def ed_check_def split: option.splits if_splits bool.splits sum.splits)
qed

lemma prepares_ok_static:
  assumes "static e' = static e" "en_prepareMsgs e' = en_prepareMsgs e"
  shows "prepares_ok C own M e' = prepares_ok C own M e"
  using assms(2) by (simp add: prepares_ok_def static_fields [OF assms(1)])

lemma commits_ok_static:
  assumes "static e' = static e" "en_commitMsgs e' = en_commitMsgs e"
  shows "commits_ok C own e' = commits_ok C own e"
  using assms(2) by (simp add: commits_ok_def static_fields [OF assms(1)])

lemma addPrepareMsg_ok:
  assumes "prepares_ok C own M e" "own = Some m \<or> verified_prepare C e m \<and> m \<in> M"
  shows "prepares_ok C own M (addPrepareMsg m e)"
proof -
  have "verified_prepare C (addPrepareMsg m e) = verified_prepare C e" by (rule static_fields) simp
  with assms show ?thesis
    by (auto simp: prepares_ok_def addPrepareMsg_def map_of_eq_None_iff)
qed

lemma addCommitMsg_ok:
  assumes "commits_ok C own e" "own = Some m \<or> verified_commit C e m"
  shows "commits_ok C own (addCommitMsg m e)"
proof -
  have "verified_commit C (addCommitMsg m e) = verified_commit C e" by (rule static_fields) simp
  with assms show ?thesis
    by (auto simp: commits_ok_def addCommitMsg_def map_of_eq_None_iff)
qed

lemma handle_prepare_ok:
  assumes "handle_prepare C t m e = (x, e')" "cf_RequireSignatures (en_config e)"
  shows "static e' = static e" "en_commitMsgs e' = en_commitMsgs e"
    "prepares_ok C own M e \<Longrightarrow> m \<in> M \<Longrightarrow> prepares_ok C own M e'"
proof -
  obtain y e1 where v: "validatePrepare C t m e = (y, e1)" by fastforce
  note f = validatePrepare_frame [OF v]
  show "static e' = static e" "en_commitMsgs e' = en_commitMsgs e"
    using assms(1) v f by (auto simp: handle_prepare_def addPrepareMsg_def split: option.splits)
  assume inv: "prepares_ok C own M e" "m \<in> M"
  show "prepares_ok C own M e'"
  proof (cases y)
    case None
    then have "verified_prepare C e m" using validatePrepare_verified v assms(2) by blast
    then have "prepares_ok C own M (addPrepareMsg m e1)"
      using inv prepares_ok_static [OF f(1,2)] by (intro addPrepareMsg_ok) (auto simp: static_fields(7) [OF f(1)])
    with assms(1) v None show ?thesis by (simp add: handle_prepare_def)
  next
    case (Some z)
    with assms(1) v inv prepares_ok_static [OF f(1,2)] show ?thesis by (auto simp: handle_prepare_def)
  qed
qed

lemma handle_commit_ok:
  assumes "handle_commit C t m e = (x, e')" "cf_RequireSignatures (en_config e)"
  shows "static e' = static e" "en_prepareMsgs e' = en_prepareMsgs e"
    "commits_ok C own e \<Longrightarrow> commits_ok C own e'"
proof -
  obtain y e1 where v: "validateCommit C t m e = (y, e1)" by fastforce
  note f = validateCommit_frame [OF v]
  show "static e' = static e" "en_prepareMsgs e' = en_prepareMsgs e"
    using assms(1) v f by (auto simp: handle_commit_def addCommitMsg_def fold_mark_ban Let_def split: option.splits if_splits)
  assume inv: "commits_ok C own e"
  then have inv1: "commits_ok C own e1" using commits_ok_static [OF f(1,3)] by simp
  show "commits_ok C own e'"
  proof (cases y)
    case None
    then have "verified_commit C e1 m" using validateCommit_verified v assms(2) by (simp add: static_fields(8) [OF f(1)])
    then have "commits_ok C own (addCommitMsg m e1)" using inv1 by (intro addCommitMsg_ok) auto
    moreover have "commits_ok C own (fold (mark_ban t) bs e1)" for bs
      using inv1 commits_ok_static [OF fold_mark_ban(1,3)] by blast
    ultimately show ?thesis using assms(1) v None by (auto simp: handle_commit_def Let_def split: if_splits)
  next
    case (Some z)
    with assms(1) v inv1 show ?thesis by (auto simp: handle_commit_def)
  qed
qed

definition received :: "event list \<Rightarrow> prepare_message set" where
  "received evs = {m. \<exists>t. RecvPrepare t m \<in> set evs}"

lemma waitForPrepareThreshold_ok:
  assumes "waitForPrepareThreshold C evs e = (r, e')" "cf_RequireSignatures (en_config e)" "received evs \<subseteq> M"
  shows "static e' = static e \<and> en_commitMsgs e' = en_commitMsgs e
    \<and> (prepares_ok C own M e \<longrightarrow> prepares_ok C own M e')
    \<and> (\<forall>d. r = Some (Inr d) \<longrightarrow> decide (en_threshold e') (getPrepareVoteCounts e') = Some d)"
  using assms
proof (induction evs arbitrary: e)
  case (Cons ev evs)
  have rest: "received evs \<subseteq> M" using Cons.prems(3) by (auto simp: received_def)
  show ?case
  proof (cases ev)
    case (RecvPrepare t m)
    obtain x e1 where h: "handle_prepare C t m e = (x, e1)" by fastforce
    note ok = handle_prepare_ok [OF h Cons.prems(2)]
    have m: "m \<in> M" using Cons.prems(3) RecvPrepare by (auto simp: received_def)
    have "cf_RequireSignatures (en_config e1)" using Cons.prems(2) by (simp add: static_fields [OF ok(1)])
    note IH = Cons.IH [OF _ this rest]
    from Cons.prems(1) RecvPrepare h have "waitForPrepareThreshold C evs e1 = (r, e') \<or> r = Some (Inl EKeyPanic) \<and> e' = e1"
      by (auto split: if_splits)
    with IH ok m show ?thesis by auto
  next
    case (Tick t)
    with Cons rest show ?thesis by (auto split: option.splits)
  next
    case (Clean t)
    have "en_commitMsgs (cleaner t e) = en_commitMsgs e" "en_prepareMsgs (cleaner t e) = en_prepareMsgs e" by (simp_all add: cleaner_def)
    moreover have "cf_RequireSignatures (en_config (cleaner t e))" using Cons.prems(2) by (simp add: cleaner_def)
    ultimately show ?thesis
      using Cons.IH [of "cleaner t e"] Cons.prems(1) Clean rest prepares_ok_static [of "cleaner t e" e] by auto
  qed (use Cons rest in auto)
qed auto

lemma waitForCommitThreshold_ok:
  assumes "waitForCommitThreshold C evs e = (r, e')" "cf_RequireSignatures (en_config e)"
  shows "static e' = static e \<and> (commits_ok C own e \<longrightarrow> commits_ok C own e')
    \<and> (\<forall>d. r = Some (Inr d) \<longrightarrow> (\<exists>t. decide (en_threshold e') (getCommitVoteCountsClean t e') = Some d))"
  using assms
proof (induction evs arbitrary: e)
  case (Cons ev evs)
  show ?case
  proof (cases ev)
    case (RecvPrepare t m)
    obtain x e1 where h: "handle_prepare C t m e = (x, e1)" by fastforce
    note ok = handle_prepare_ok [OF h Cons.prems(2)]
    have "cf_RequireSignatures (en_config e1)" using Cons.prems(2) by (simp add: static_fields [OF ok(1)])
    note IH = Cons.IH [OF _ this]
    from Cons.prems(1) RecvPrepare h have "waitForCommitThreshold C evs e1 = (r, e') \<or> r = Some (Inl EKeyPanic) \<and> e' = e1"
      by (auto split: if_splits)
    with IH ok commits_ok_static [OF ok(1,2)] show ?thesis by auto
  next
    case (RecvCommit t m)
    obtain x e1 where h: "handle_commit C t m e = (x, e1)" by fastforce
    note ok = handle_commit_ok [OF h Cons.prems(2)]
    have "cf_RequireSignatures (en_config e1)" using Cons.prems(2) by (simp add: static_fields [OF ok(1)])
    note IH = Cons.IH [OF _ this]
    from Cons.prems(1) RecvCommit h have "waitForCommitThreshold C evs e1 = (r, e') \<or> r = Some (Inl EKeyPanic) \<and> e' = e1"
      by (auto split: if_splits)
    with IH ok show ?thesis by auto
  next
    case (Tick t)
    with Cons show ?thesis by (auto split: option.splits)
  next
    case (Clean t)
    have "en_commitMsgs (cleaner t e) = en_commitMsgs e" by (simp add: cleaner_def)
    moreover have "cf_RequireSignatures (en_config (cleaner t e))" using Cons.prems(2) by (simp add: cleaner_def)
    ultimately show ?thesis
      using Cons.IH [of "cleaner t e"] Cons.prems(1) Clean commits_ok_static [of "cleaner t e" e] by auto
  qed (use Cons in auto)
qed auto

end
