(* ===== verification/BFTCommittee.thy ===== *)
theory BFTCommittee
  imports BFTVotes
begin

text \<open>
  Agreement and validity of the two-phase vote: committees of nodes that run
  \<^verbatim>\<open>RunConsensus\<close>, any network between them and up to a tolerated number of
  members that do as they like.
\<close>

subsection \<open>Quorums behind a decision\<close>

lemma length_filter_card:
  assumes "distinct (map fst xs)"
  shows "length (filter P xs) = card {b. \<exists>m. (b, m) \<in> set xs \<and> P (b, m)}"
proof -
  have "distinct (map fst (filter P xs))" using assms by (rule distinct_map_filter)
  then have "length (filter P xs) = card (fst ` set (filter P xs))" using distinct_card [of "map fst (filter P xs)"] by simp
  also have "fst ` set (filter P xs) = {b. \<exists>m. (b, m) \<in> set xs \<and> P (b, m)}" by force
  finally show ?thesis .
qed

lemma commit_quorum:
  assumes "commits_ok C own e" "decide (en_threshold e) (getCommitVoteCountsClean t e) = Some d"
  obtains Q where "en_threshold e \<le> int (card Q)" "d = Accept \<or> d = Reject"
    "\<forall>b \<in> Q. \<exists>m. (b, m) \<in> set (en_commitMsgs e) \<and> (c_Decision m = Accept \<longleftrightarrow> d = Accept)"
proof -
  let ?cs = "filter (\<lambda>(b, _). \<not> isByzantine t e b) (en_commitMsgs e)"
  let ?Q = "{b. \<exists>m. (b, m) \<in> set ?cs \<and> (c_Decision m = Accept \<longleftrightarrow> d = Accept)}"
  have dist: "distinct (map fst ?cs)" using assms(1) by (intro distinct_map_filter) (simp add: commits_ok_def)
  have d: "d = Accept \<or> d = Reject" "Accept \<noteq> Reject"
    using assms(2) by (auto simp: decide_def Accept_def Reject_def split: if_splits)
  have "en_threshold e \<le> int (card ?Q)"
    using assms(2) d length_filter_card [OF dist, of "\<lambda>(_, m). c_Decision m = Accept"]
      length_filter_card [OF dist, of "\<lambda>(_, m). c_Decision m \<noteq> Accept"]
    by (auto simp: decide_def getCommitVoteCountsClean_def Let_def split: if_splits)
  then show ?thesis using d(1) by (rule that) auto
qed

definition permuting :: "proof_order \<Rightarrow> bool" where
  "permuting ord \<longleftrightarrow> (\<forall>xs. mset (ord xs) = mset xs)"

lemma proof_quorum:
  assumes "prepares_ok C own M e" "permuting ord" "en_threshold e \<le> int (length (collectPrepareProof ord d e))" "1 \<le> en_threshold e"
  obtains Q where "en_threshold e \<le> int (card Q)" "\<forall>b \<in> Q. \<exists>m. (b, m) \<in> set (en_prepareMsgs e) \<and> p_Decision m = d"
proof -
  let ?P = "\<lambda>bm. p_Decision (snd bm) = d"
  have "length (filter (\<lambda>m. p_Decision m = d) (map snd (ord (en_prepareMsgs e)))) = length (filter ?P (ord (en_prepareMsgs e)))"
    by (simp add: filter_map comp_def)
  also have "\<dots> = size (filter_mset ?P (mset (ord (en_prepareMsgs e))))" by (simp flip: mset_filter)
  also have "\<dots> = length (filter ?P (en_prepareMsgs e))" using assms(2) by (simp add: permuting_def flip: mset_filter)
  also have "\<dots> = card {b. \<exists>m. (b, m) \<in> set (en_prepareMsgs e) \<and> p_Decision m = d}"
    using length_filter_card [of "en_prepareMsgs e" ?P] assms(1) by (simp add: prepares_ok_def)
  finally have "en_threshold e \<le> int (card {b. \<exists>m. (b, m) \<in> set (en_prepareMsgs e) \<and> p_Decision m = d})"
    using assms(3) by (simp add: collectPrepareProof_def)
  then show ?thesis by (rule that) auto
qed

subsection \<open>A node's own votes\<close>

record bft_node =
  nd_config :: bft_config
  nd_buddies :: "buddy_input list"
  nd_signer :: "signer option"
  nd_env :: bft_env

definition node_engine :: "crypto \<Rightarrow> u64 \<Rightarrow> string \<Rightarrow> string \<Rightarrow> bft_node \<Rightarrow> engine option" where
  "node_engine C rnd B me N =
     (if validateInputs (nd_config N) me (nd_buddies N) \<noteq> None then None
      else case buddy_map (nd_buddies N) me of None \<Rightarrow> None
        | Some b \<Rightarrow> let sg = resolve_signer C (nd_signer N) b
            in if sg = None \<and> cf_RequireSignatures (nd_config N) then None
               else Some (new_engine (nd_config N) rnd B b (nd_buddies N) sg))"

definition own_prepare :: "crypto \<Rightarrow> u64 \<Rightarrow> string \<Rightarrow> string \<Rightarrow> bft_node \<Rightarrow> prepare_message option" where
  "own_prepare C rnd B me N =
     (case node_engine C rnd B me N of None \<Rightarrow> None
      | Some e \<Rightarrow> (case fst (createPrepare C (ev_prepare_time (nd_env N)) e) of Inl _ \<Rightarrow> None | Inr p \<Rightarrow> Some p))"

definition own_commit :: "crypto \<Rightarrow> u64 \<Rightarrow> string \<Rightarrow> string \<Rightarrow> bft_node \<Rightarrow> commit_message option" where
  "own_commit C rnd B me N =
     (case node_engine C rnd B me N of None \<Rightarrow> None
      | Some e \<Rightarrow> (case runPrepare C (nd_env N) e of
          (Some (Inr d), e1) \<Rightarrow> (case fst (createCommit C (ev_order (nd_env N)) (ev_commit_time (nd_env N)) d e1) of
              Inl _ \<Rightarrow> None | Inr c \<Rightarrow> Some c)
        | _ \<Rightarrow> None))"

lemma check_buddies_decision:
  "check_buddies me seen bs = None \<Longrightarrow> b \<in> set bs \<Longrightarrow> bi_Decision b = Accept \<or> bi_Decision b = Reject"
  by (induction bs arbitrary: seen) (auto split: if_splits)

lemma buddy_map_Some: "buddy_map bs me = Some b \<Longrightarrow> b \<in> set bs \<and> bi_ID b = me"
  unfolding buddy_map_def by (auto dest: map_of_SomeD)

lemma node_engine_cases:
  assumes "node_engine C rnd B me N = Some e"
  obtains b where "b \<in> set (nd_buddies N)" "bi_ID b = me" "bi_Decision b = Accept \<or> bi_Decision b = Reject"
    "e = new_engine (nd_config N) rnd B b (nd_buddies N) (resolve_signer C (nd_signer N) b)"
proof -
  obtain b where b: "buddy_map (nd_buddies N) me = Some b" "check_buddies me [] (nd_buddies N) = None"
    "e = new_engine (nd_config N) rnd B b (nd_buddies N) (resolve_signer C (nd_signer N) b)"
    using assms by (auto simp: node_engine_def validateInputs_def Let_def split: if_splits option.splits)
  have "b \<in> set (nd_buddies N)" "bi_ID b = me" using buddy_map_Some [OF b(1)] by auto
  moreover from this have "bi_Decision b = Accept \<or> bi_Decision b = Reject" using check_buddies_decision [OF b(2)] by blast
  ultimately show ?thesis using b(3) by (rule that)
qed

lemma own_prepare_fields:
  assumes "own_prepare C rnd B me N = Some p"
  shows "p_BuddyID p = me" "p_Decision p = Accept \<or> p_Decision p = Reject" "p_Round p = rnd" "p_BlockHash p = B"
    "p_Version p = PrepareVersionV1"
proof -
  obtain e where e: "node_engine C rnd B me N = Some e" using assms by (auto simp: own_prepare_def split: option.splits)
  obtain b where b: "bi_ID b = me" "bi_Decision b = Accept \<or> bi_Decision b = Reject"
    "e = new_engine (nd_config N) rnd B b (nd_buddies N) (resolve_signer C (nd_signer N) b)" by (rule node_engine_cases [OF e])
  show "p_BuddyID p = me" "p_Decision p = Accept \<or> p_Decision p = Reject" "p_Round p = rnd" "p_BlockHash p = B"
    "p_Version p = PrepareVersionV1"
    using assms e b by (auto simp: own_prepare_def createPrepare_def ensureSeqForSelf_def Let_def new_engine_def signPrepare_def
        split: sum.splits)
qed

definition other_vote :: "u64 \<Rightarrow> string \<Rightarrow> string \<Rightarrow> byte list \<Rightarrow> bool" where
  "other_vote rnd B me x \<longleftrightarrow> (\<exists>v s r B' d t. x = vote_bytes v s r B' me d t \<and> length v \<le> 10 \<and> length d \<le> 10 \<and> length B' = length B
     \<and> (r \<noteq> rnd \<or> B' \<noteq> B))"

definition own_signed :: "crypto \<Rightarrow> u64 \<Rightarrow> string \<Rightarrow> string \<Rightarrow> bft_node \<Rightarrow> byte list \<Rightarrow> bool" where
  "own_signed C rnd B me N x \<longleftrightarrow> (\<exists>p. own_prepare C rnd B me N = Some p \<and> x = prepare_bytes p)
     \<or> (\<exists>c. own_commit C rnd B me N = Some c \<and> x = commit_bytes c) \<or> other_vote rnd B me x"

lemma runPrepare_ok:
  assumes "runPrepare C env e = (Some (Inr d), e')" "cf_RequireSignatures (en_config e)" "en_prepareMsgs e = []"
  obtains p where "fst (createPrepare C (ev_prepare_time env) e) = Inr p" "static e' = static e" "en_commitMsgs e' = en_commitMsgs e"
    "prepares_ok C (Some p) (received (ev_prepare_events env)) e'" "d = Accept \<or> d = Reject"
proof -
  obtain r e1 where c: "createPrepare C (ev_prepare_time env) e = (r, e1)" by fastforce
  then obtain p where p: "r = Inr p" using assms(1) by (auto simp: runPrepare_def split: sum.splits)
  have s1: "static e1 = static e" "en_prepareMsgs e1 = []" "en_commitMsgs e1 = en_commitMsgs e"
    using c assms(3) by (auto simp: createPrepare_def ensureSeqForSelf_def Let_def)
  have w: "waitForPrepareThreshold C (ev_prepare_events env) (addPrepareMsg p e1) = (Some (Inr d), e')"
    using assms(1) c p by (auto simp: runPrepare_def Let_def split: if_splits)
  have sig: "cf_RequireSignatures (en_config (addPrepareMsg p e1))"
    using assms(2) static_fields(1) [OF s1(1)] by (simp add: addPrepareMsg_def)
  have init: "prepares_ok C (Some p) (received (ev_prepare_events env)) (addPrepareMsg p e1)"
    using s1(2) by (intro addPrepareMsg_ok) (auto simp: prepares_ok_def)
  note ok = waitForPrepareThreshold_ok [OF w sig order_refl, of "Some p"]
  have "fst (createPrepare C (ev_prepare_time env) e) = Inr p" using c p by simp
  moreover have "static e' = static e" "en_commitMsgs e' = en_commitMsgs e" using ok s1 by (auto simp: addPrepareMsg_def)
  moreover have "prepares_ok C (Some p) (received (ev_prepare_events env)) e'" using ok init by blast
  moreover have "d = Accept \<or> d = Reject" using ok by (auto simp: decide_def split: if_splits)
  ultimately show ?thesis by (rule that)
qed

lemma own_commit_quorum:
  assumes "own_commit C rnd B me N = Some c" "cf_RequireSignatures (nd_config N)" "permuting (ev_order (nd_env N))"
  obtains Q e where "c_BuddyID c = me" "c_Decision c = Accept \<or> c_Decision c = Reject" "c_Round c = rnd" "c_BlockHash c = B"
    "c_Version c = CommitVersionV1" "BFTThreshold (int (length (nd_buddies N))) \<le> int (card Q)"
    "en_buddies e = buddy_map (nd_buddies N)" "en_round e = rnd" "en_blockHash e = B"
    "\<forall>b \<in> Q. \<exists>m. p_BuddyID m = b \<and> p_Decision m = c_Decision c \<and> (own_prepare C rnd B me N = Some m
        \<or> verified_prepare C e m \<and> m \<in> received (ev_prepare_events (nd_env N)))"
proof -
  obtain e0 where e0: "node_engine C rnd B me N = Some e0" using assms(1) by (auto simp: own_commit_def split: option.splits)
  obtain b where b: "b \<in> set (nd_buddies N)" "bi_ID b = me"
    "e0 = new_engine (nd_config N) rnd B b (nd_buddies N) (resolve_signer C (nd_signer N) b)" by (rule node_engine_cases [OF e0])
  obtain d e where d: "runPrepare C (nd_env N) e0 = (Some (Inr d), e)"
    "fst (createCommit C (ev_order (nd_env N)) (ev_commit_time (nd_env N)) d e) = Inr c"
    using assms(1) e0 by (auto simp: own_commit_def split: option.splits prod.splits sum.splits)
  obtain p where p: "fst (createPrepare C (ev_prepare_time (nd_env N)) e0) = Inr p" "static e = static e0"
    "prepares_ok C (Some p) (received (ev_prepare_events (nd_env N))) e" "d = Accept \<or> d = Reject"
    by (rule runPrepare_ok [OF d(1)]) (use assms(2) b(3) in \<open>simp_all add: new_engine_def\<close>)
  note s = static_fields [OF p(2)]
  have own: "own_prepare C rnd B me N = Some p" using e0 p(1) by (simp add: own_prepare_def)
  have "nd_buddies N \<noteq> []" using b(1) by auto
  then have thr: "en_threshold e = BFTThreshold (int (length (nd_buddies N)))" "1 \<le> en_threshold e"
    using s(4) b(3) bft_quorum.quorum_pos [of "int (length (nd_buddies N))"] by (simp_all add: new_engine_def Suc_le_eq)
  have c: "c_BuddyID c = me" "c_Decision c = d" "c_Round c = rnd" "c_BlockHash c = B" "c_Version c = CommitVersionV1"
    "en_threshold e \<le> int (length (collectPrepareProof (ev_order (nd_env N)) d e))"
    using d(2) s b(2,3) by (auto simp: createCommit_def ensureSeqForSelf_def Let_def signCommit_def new_engine_def split: if_splits sum.splits)
  obtain Q where Q: "en_threshold e \<le> int (card Q)" "\<forall>b \<in> Q. \<exists>m. (b, m) \<in> set (en_prepareMsgs e) \<and> p_Decision m = d"
    by (rule proof_quorum [OF p(3) assms(3) c(6) thr(2)])
  have "\<forall>b \<in> Q. \<exists>m. p_BuddyID m = b \<and> p_Decision m = c_Decision c \<and> (own_prepare C rnd B me N = Some m
        \<or> verified_prepare C e m \<and> m \<in> received (ev_prepare_events (nd_env N)))"
    using Q(2) p(3) own c(2) unfolding prepares_ok_def by fastforce
  with c p(4) Q(1) thr(1) s b(3) show ?thesis by (intro that [of Q e]) (simp_all add: new_engine_def)
qed

lemma result_quorum:
  assumes "RunConsensus C (nd_config N) rnd B me (nd_buddies N) (nd_signer N) (nd_env N) = Some (Inr res)"
    and "cf_RequireSignatures (nd_config N)"
  obtains Q e where "r_Decision res = Accept \<or> r_Decision res = Reject" "BFTThreshold (int (length (nd_buddies N))) \<le> int (card Q)"
    "en_buddies e = buddy_map (nd_buddies N)" "en_round e = rnd" "en_blockHash e = B"
    "\<forall>b \<in> Q. \<exists>m. c_BuddyID m = b \<and> (c_Decision m = Accept \<longleftrightarrow> r_Decision res = Accept) \<and> (own_commit C rnd B me N = Some m
        \<or> verified_commit C e m)"
proof -
  obtain e0 d e1 e where e0: "node_engine C rnd B me N = Some e0"
    and r: "runPrepare C (nd_env N) e0 = (Some (Inr d), e1)" "runCommit C (nd_env N) d e1 = (Some (Inr (r_Decision res)), e)"
    using assms(1)
    by (auto simp: RunConsensus_def node_engine_def Let_def split: option.split_asm if_split_asm prod.split_asm sum.split_asm)
  obtain b where b: "e0 = new_engine (nd_config N) rnd B b (nd_buddies N) (resolve_signer C (nd_signer N) b)" by (rule node_engine_cases [OF e0])
  obtain p where p: "static e1 = static e0" "en_commitMsgs e1 = en_commitMsgs e0"
    by (rule runPrepare_ok [OF r(1)]) (use assms(2) b in \<open>simp_all add: new_engine_def\<close>)
  obtain x e2 where c: "createCommit C (ev_order (nd_env N)) (ev_commit_time (nd_env N)) d e1 = (x, e2)" by fastforce
  then obtain cm where cm: "x = Inr cm" using r(2) by (auto simp: runCommit_def split: sum.splits)
  have own: "own_commit C rnd B me N = Some cm" using e0 r(1) c cm by (simp add: own_commit_def)
  have s2: "static e2 = static e1" "en_commitMsgs e2 = en_commitMsgs e1"
    using c by (auto simp: createCommit_def ensureSeqForSelf_def Let_def split: if_splits)
  have w: "waitForCommitThreshold C (ev_commit_events (nd_env N)) (addCommitMsg cm e2) = (Some (Inr (r_Decision res)), e)"
    using r(2) c cm by (auto simp: runCommit_def Let_def split: if_splits)
  have st: "static (addCommitMsg cm e2) = static e0" using s2 p by simp
  have sig: "cf_RequireSignatures (en_config (addCommitMsg cm e2))"
    using static_fields(1) [OF st] assms(2) b by (simp add: new_engine_def)
  have init: "commits_ok C (Some cm) (addCommitMsg cm e2)"
    using s2(2) p(2) b by (intro addCommitMsg_ok) (auto simp: commits_ok_def new_engine_def)
  note ok = waitForCommitThreshold_ok [OF w sig, of "Some cm"]
  have ok1: "static e = static e0" "commits_ok C (Some cm) e" using ok init st by auto
  obtain t where "decide (en_threshold e) (getCommitVoteCountsClean t e) = Some (r_Decision res)" using ok by blast
  then obtain Q where Q: "en_threshold e \<le> int (card Q)" "r_Decision res = Accept \<or> r_Decision res = Reject"
    "\<forall>b \<in> Q. \<exists>m. (b, m) \<in> set (en_commitMsgs e) \<and> (c_Decision m = Accept \<longleftrightarrow> r_Decision res = Accept)"
    by (rule commit_quorum [OF ok1(2)])
  have "\<forall>b \<in> Q. \<exists>m. c_BuddyID m = b \<and> (c_Decision m = Accept \<longleftrightarrow> r_Decision res = Accept) \<and> (own_commit C rnd B me N = Some m
        \<or> verified_commit C e m)"
    using Q(3) ok1(2) own unfolding commits_ok_def by fastforce
  with Q static_fields [OF ok1(1)] b show ?thesis by (intro that [of Q e]) (simp_all add: new_engine_def)
qed

subsection \<open>Committees\<close>

text \<open>
  A committee of nodes in one round. The members outside \<open>F\<close> run the code with the same
  members and keys and require signatures; \<open>unforgeable\<close> is the assumption on SHA-256 and
  Ed25519: what verifies under the key of such a member was signed by it. It signs its own
  PREPARE and COMMIT of this round and votes of other rounds. A message can only be received
  after it was signed, which \<open>rank\<close> expresses for the signatures under COMMITs.
\<close>

definition unforgeable :: "crypto \<Rightarrow> byte list \<Rightarrow> byte list set \<Rightarrow> bool" where
  "unforgeable C pk votes \<longleftrightarrow> (\<forall>x s. ed_verify C pk (sha256 C x) s \<longrightarrow> x \<in> votes)"

definition committee ::
  "crypto \<Rightarrow> u64 \<Rightarrow> string \<Rightarrow> string list \<Rightarrow> (string \<Rightarrow> byte list) \<Rightarrow> string set \<Rightarrow> (string \<Rightarrow> bft_node) \<Rightarrow> (string \<Rightarrow> byte list set)
     \<Rightarrow> (string \<Rightarrow> nat) \<Rightarrow> bool" where
  "committee C rnd B ids pk F nodes votes rank \<longleftrightarrow>
     distinct ids \<and> F \<subseteq> set ids \<and> int (card F) \<le> ByzantineTolerance (int (length ids)) \<and>
     (\<forall>h \<in> set ids - F. id_ok h \<and> map bi_ID (nd_buddies (nodes h)) = ids
        \<and> (\<forall>b \<in> set (nd_buddies (nodes h)). bi_PublicKey b = pk (bi_ID b))
        \<and> cf_RequireSignatures (nd_config (nodes h)) \<and> permuting (ev_order (nd_env (nodes h)))
        \<and> unforgeable C (pk h) (votes h) \<and> (\<forall>x \<in> votes h. own_signed C rnd B h (nodes h) x)
        \<and> (\<forall>h' \<in> set ids - F. \<forall>c m. own_commit C rnd B h' (nodes h') = Some c \<longrightarrow> m \<in> received (ev_prepare_events (nd_env (nodes h)))
             \<longrightarrow> prepare_bytes m = commit_bytes c \<longrightarrow> rank h' < rank h))"

definition proposers :: "crypto \<Rightarrow> u64 \<Rightarrow> string \<Rightarrow> string set \<Rightarrow> (string \<Rightarrow> bft_node) \<Rightarrow> string \<Rightarrow> string set" where
  "proposers C rnd B H nodes d = {h \<in> H. \<exists>p. own_prepare C rnd B h (nodes h) = Some p \<and> p_Decision p = d}"

lemma signed_vote:
  assumes "committee C rnd B ids pk F nodes votes rank" "h \<in> set ids - F"
    and "ed_verify C (pk h) (sha256 C (vote_bytes v s rnd B h d t)) sg"
  shows "h \<in> proposers C rnd B (set ids - F) nodes d
    \<or> (\<exists>c. own_commit C rnd B h (nodes h) = Some c \<and> c_Decision c = d \<and> commit_bytes c = vote_bytes v s rnd B h d t)"
proof -
  from assms(1,2) have w: "id_ok h" "cf_RequireSignatures (nd_config (nodes h))" "permuting (ev_order (nd_env (nodes h)))"
    "unforgeable C (pk h) (votes h)" "\<forall>x \<in> votes h. own_signed C rnd B h (nodes h) x" by (auto simp: committee_def)
  have "own_signed C rnd B h (nodes h) (vote_bytes v s rnd B h d t)" using w(4,5) assms(3) by (auto simp: unforgeable_def)
  then consider (prepare) p where "own_prepare C rnd B h (nodes h) = Some p" "vote_bytes v s rnd B h d t = prepare_bytes p"
    | (commit) c where "own_commit C rnd B h (nodes h) = Some c" "vote_bytes v s rnd B h d t = commit_bytes c"
    | (other) "other_vote rnd B h (vote_bytes v s rnd B h d t)" by (auto simp: own_signed_def)
  then show ?thesis
  proof cases
    case prepare
    note p = own_prepare_fields [OF prepare(1)]
    have "vote_bytes v s rnd B h d t = vote_bytes (p_Version p) (p_Seq p) rnd B h (p_Decision p) (p_Timestamp p)"
      using prepare(2) p by (simp add: prepare_bytes_def)
    from vote_bytes_binds [OF this _ _ _ w(1)] p have "d = p_Decision p" by (auto simp: PrepareVersionV1_def Accept_def Reject_def)
    with prepare(1) assms(2) show ?thesis by (auto simp: proposers_def)
  next
    case commit
    obtain Q e where c: "c_BuddyID c = h" "c_Decision c = Accept \<or> c_Decision c = Reject" "c_Round c = rnd" "c_BlockHash c = B"
      "c_Version c = CommitVersionV1" by (rule own_commit_quorum [OF commit(1) w(2,3)])
    have "vote_bytes v s rnd B h d t = vote_bytes (c_Version c) (c_Seq c) rnd B h (c_Decision c) (c_Timestamp c)"
      using commit(2) c by (simp add: commit_bytes_def)
    from vote_bytes_binds [OF this _ _ _ w(1)] c have "d = c_Decision c" by (auto simp: CommitVersionV1_def Accept_def Reject_def)
    with commit show ?thesis by auto
  next
    case other
    then obtain v' s' r' B' d' t' where o: "vote_bytes v s rnd B h d t = vote_bytes v' s' r' B' h d' t'" "length v' \<le> 10"
      "length d' \<le> 10" "length B' = length B" "r' \<noteq> rnd \<or> B' \<noteq> B" by (auto simp: other_vote_def)
    from vote_bytes_binds [OF o(1) o(4) [symmetric] o(2,3) w(1)] o(5) show ?thesis by auto
  qed
qed

lemma member_key:
  assumes "committee C rnd B ids pk F nodes votes rank" "h \<in> set ids - F" "buddy_map (nd_buddies (nodes h)) b = Some bud"
  shows "b \<in> set ids \<and> bi_PublicKey bud = pk b"
proof -
  have bud: "bud \<in> set (nd_buddies (nodes h))" "bi_ID bud = b" using buddy_map_Some [OF assms(3)] by auto
  from assms(1,2) have "map bi_ID (nd_buddies (nodes h)) = ids" "\<forall>b \<in> set (nd_buddies (nodes h)). bi_PublicKey b = pk (bi_ID b)"
    by (auto simp: committee_def)
  with bud show ?thesis by (metis image_eqI set_map)
qed

text \<open>Behind every quorum stand honest members who proposed the decision.\<close>

lemma quorum_proposers:
  assumes "committee C rnd B ids pk F nodes votes rank" "BFTThreshold (int (length ids)) \<le> int (card Q)" "Q \<subseteq> set ids"
    and "Q - F \<subseteq> proposers C rnd B (set ids - F) nodes d \<union> K"
    and "\<And>h. h \<in> K \<Longrightarrow> BFTThreshold (int (length ids)) - int (card F) \<le> int (card (proposers C rnd B (set ids - F) nodes d))"
  shows "BFTThreshold (int (length ids)) - int (card F) \<le> int (card (proposers C rnd B (set ids - F) nodes d))"
proof (cases "K = {}")
  case True
  have "finite F" using assms(1) finite_subset by (auto simp: committee_def)
  then have "card Q - card F \<le> card (Q - F)" by (rule diff_card_le_card_Diff)
  also have "\<dots> \<le> card (proposers C rnd B (set ids - F) nodes d)"
    by (rule card_mono) (use assms(4) True in \<open>auto simp: proposers_def\<close>)
  finally show ?thesis using assms(2) by linarith
qed (use assms(5) in auto)

lemma commit_proposers:
  assumes w: "committee C rnd B ids pk F nodes votes rank" and "h \<in> set ids - F" "own_commit C rnd B h (nodes h) = Some c"
  shows "BFTThreshold (int (length ids)) - int (card F) \<le> int (card (proposers C rnd B (set ids - F) nodes (c_Decision c)))"
  using assms(2,3)
proof (induction "rank h" arbitrary: h c rule: less_induct)
  case less
  from w less.prems(1) have h: "cf_RequireSignatures (nd_config (nodes h))" "permuting (ev_order (nd_env (nodes h)))"
    "map bi_ID (nd_buddies (nodes h)) = ids"
    "\<forall>h' \<in> set ids - F. \<forall>c m. own_commit C rnd B h' (nodes h') = Some c \<longrightarrow> m \<in> received (ev_prepare_events (nd_env (nodes h)))
       \<longrightarrow> prepare_bytes m = commit_bytes c \<longrightarrow> rank h' < rank h"
    by (auto simp: committee_def)
  then have n: "length (nd_buddies (nodes h)) = length ids" by (metis length_map)
  obtain Q e where Q: "BFTThreshold (int (length (nd_buddies (nodes h)))) \<le> int (card Q)"
    "en_buddies e = buddy_map (nd_buddies (nodes h))" "en_round e = rnd" "en_blockHash e = B"
    "\<forall>b \<in> Q. \<exists>m. p_BuddyID m = b \<and> p_Decision m = c_Decision c \<and> (own_prepare C rnd B h (nodes h) = Some m
        \<or> verified_prepare C e m \<and> m \<in> received (ev_prepare_events (nd_env (nodes h))))"
    by (rule own_commit_quorum [OF less.prems(2) h(1,2)])
  let ?K = "{h' \<in> set ids - F. rank h' < rank h \<and> (\<exists>c'. own_commit C rnd B h' (nodes h') = Some c' \<and> c_Decision c' = c_Decision c)}"
  have step: "b \<in> set ids \<and> (b \<notin> F \<longrightarrow> b \<in> proposers C rnd B (set ids - F) nodes (c_Decision c) \<union> ?K)" if b: "b \<in> Q" for b
  proof -
    obtain m where m: "p_BuddyID m = b" "p_Decision m = c_Decision c" "own_prepare C rnd B h (nodes h) = Some m
        \<or> verified_prepare C e m \<and> m \<in> received (ev_prepare_events (nd_env (nodes h)))" using Q(5) b by blast
    show ?thesis
    proof (cases "own_prepare C rnd B h (nodes h) = Some m")
      case True
      with own_prepare_fields(1) [OF True] m less.prems(1) show ?thesis by (auto simp: proposers_def)
    next
      case False
      then obtain bud where v: "buddy_map (nd_buddies (nodes h)) b = Some bud" "p_Round m = rnd" "p_BlockHash m = B"
        "ed_verify C (bi_PublicKey bud) (DigestPrepare C m) (p_Signature m)" "m \<in> received (ev_prepare_events (nd_env (nodes h)))"
        using m Q(2-4) by (auto simp: verified_prepare_def)
      note key = member_key [OF w less.prems(1) v(1)]
      have bytes: "prepare_bytes m = vote_bytes (p_Version m) (p_Seq m) rnd B b (c_Decision c) (p_Timestamp m)"
        using v(2,3) m by (simp add: prepare_bytes_def)
      have "b \<in> proposers C rnd B (set ids - F) nodes (c_Decision c) \<union> ?K" if "b \<notin> F"
        using signed_vote [OF w, of b "p_Version m" "p_Seq m" "c_Decision c" "p_Timestamp m" "p_Signature m"] v(4,5) key that h(4)
        by (auto simp: DigestPrepare_def bytes)
      with key show ?thesis by blast
    qed
  qed
  show ?case
  proof (rule quorum_proposers [OF w, of Q _ ?K])
    show "BFTThreshold (int (length ids)) \<le> int (card Q)" using Q(1) n by simp
    show "Q \<subseteq> set ids" "Q - F \<subseteq> proposers C rnd B (set ids - F) nodes (c_Decision c) \<union> ?K" using step by blast+
    fix h' assume "h' \<in> ?K"
    then obtain c' where "h' \<in> set ids - F" "rank h' < rank h" "own_commit C rnd B h' (nodes h') = Some c'" "c_Decision c' = c_Decision c" by blast
    with less.hyps show "BFTThreshold (int (length ids)) - int (card F) \<le> int (card (proposers C rnd B (set ids - F) nodes (c_Decision c)))"
      by metis
  qed
qed

lemma result_proposers:
  assumes w: "committee C rnd B ids pk F nodes votes rank" "h \<in> set ids - F"
    and run: "RunConsensus C (nd_config (nodes h)) rnd B h (nd_buddies (nodes h)) (nd_signer (nodes h)) (nd_env (nodes h)) = Some (Inr res)"
  shows "BFTThreshold (int (length ids)) - int (card F) \<le> int (card (proposers C rnd B (set ids - F) nodes (r_Decision res)))"
    and "r_Decision res = Accept \<or> r_Decision res = Reject"
proof -
  let ?d = "r_Decision res"
  from w have h: "cf_RequireSignatures (nd_config (nodes h))" "map bi_ID (nd_buddies (nodes h)) = ids" by (auto simp: committee_def)
  then have n: "length (nd_buddies (nodes h)) = length ids" by (metis length_map)
  obtain Q e where Q: "?d = Accept \<or> ?d = Reject" "BFTThreshold (int (length (nd_buddies (nodes h)))) \<le> int (card Q)"
    "en_buddies e = buddy_map (nd_buddies (nodes h))" "en_round e = rnd" "en_blockHash e = B"
    "\<forall>b \<in> Q. \<exists>m. c_BuddyID m = b \<and> (c_Decision m = Accept \<longleftrightarrow> ?d = Accept) \<and> (own_commit C rnd B h (nodes h) = Some m
        \<or> verified_commit C e m)"
    by (rule result_quorum [OF run h(1)])
  let ?K = "{h' \<in> set ids - F. \<exists>c. own_commit C rnd B h' (nodes h') = Some c \<and> c_Decision c = ?d}"
  have two: "d = ?d" if "d = Accept \<or> d = Reject" "d = Accept \<longleftrightarrow> ?d = Accept" for d using that Q(1) by auto
  have committed: "c_Decision c = Accept \<or> c_Decision c = Reject" "c_BuddyID c = b"
    if "own_commit C rnd B b (nodes b) = Some c" "b \<in> set ids - F" for b c
    using own_commit_quorum [OF that(1)] w(1) that(2) by (auto simp: committee_def)
  have proposed: "d = Accept \<or> d = Reject" if "b \<in> proposers C rnd B (set ids - F) nodes d" for b d
    using that own_prepare_fields(2) by (fastforce simp: proposers_def)
  have step: "b \<in> set ids \<and> (b \<notin> F \<longrightarrow> b \<in> proposers C rnd B (set ids - F) nodes ?d \<union> ?K)" if b: "b \<in> Q" for b
  proof -
    obtain m where m: "c_BuddyID m = b" "c_Decision m = Accept \<longleftrightarrow> ?d = Accept" "own_commit C rnd B h (nodes h) = Some m \<or> verified_commit C e m"
      using Q(6) b by blast
    show ?thesis
    proof (cases "own_commit C rnd B h (nodes h) = Some m")
      case True
      with committed [OF True w(2)] m w(2) two [of "c_Decision m"] show ?thesis by blast
    next
      case False
      then obtain bud where v: "buddy_map (nd_buddies (nodes h)) b = Some bud" "c_Round m = rnd" "c_BlockHash m = B"
        "ed_verify C (bi_PublicKey bud) (DigestCommit C m) (c_Signature m)"
        using m Q(3-5) by (auto simp: verified_commit_def)
      note key = member_key [OF w v(1)]
      have bytes: "commit_bytes m = vote_bytes (c_Version m) (c_Seq m) rnd B b (c_Decision m) (c_Timestamp m)"
        using v(2,3) m by (simp add: commit_bytes_def)
      have "b \<in> proposers C rnd B (set ids - F) nodes ?d \<union> ?K" if nF: "b \<notin> F"
      proof -
        have "b \<in> set ids - F" using key nF by blast
        with signed_vote [OF w(1) this, of "c_Version m" "c_Seq m" "c_Decision m" "c_Timestamp m" "c_Signature m"] v(4) key
        consider "b \<in> proposers C rnd B (set ids - F) nodes (c_Decision m)"
          | c where "own_commit C rnd B b (nodes b) = Some c" "c_Decision c = c_Decision m" by (auto simp: DigestCommit_def bytes)
        then show ?thesis
        proof cases
          case 1
          with two [OF proposed [OF 1] m(2)] show ?thesis by simp
        next
          case 2
          with committed(1) [OF 2(1) \<open>b \<in> set ids - F\<close>] two [of "c_Decision m"] m(2) \<open>b \<in> set ids - F\<close> show ?thesis by auto
        qed
      qed
      with key show ?thesis by blast
    qed
  qed
  show "BFTThreshold (int (length ids)) - int (card F) \<le> int (card (proposers C rnd B (set ids - F) nodes ?d))"
  proof (rule quorum_proposers [OF w(1), of Q _ ?K])
    show "BFTThreshold (int (length ids)) \<le> int (card Q)" using Q(2) n by simp
    show "Q \<subseteq> set ids" "Q - F \<subseteq> proposers C rnd B (set ids - F) nodes ?d \<union> ?K" using step by blast+
    fix h' assume "h' \<in> ?K"
    then obtain c where "h' \<in> set ids - F" "own_commit C rnd B h' (nodes h') = Some c" "c_Decision c = ?d" by blast
    with commit_proposers [OF w(1)] show "BFTThreshold (int (length ids)) - int (card F) \<le> int (card (proposers C rnd B (set ids - F) nodes ?d))"
      by metis
  qed
  show "?d = Accept \<or> ?d = Reject" by (rule Q(1))
qed

end
