(* ===== verification/BFTLive.thy ===== *)
theory BFTLive
  imports BFTCommittee
begin

text \<open>
  Progress of the two-phase vote: a node that receives valid votes of a quorum before
  its contexts expire finishes the round with that decision.
\<close>

subsection \<open>Valid votes\<close>

definition sig_ok :: "crypto \<Rightarrow> buddy_input list \<Rightarrow> string \<Rightarrow> byte list \<Rightarrow> byte list \<Rightarrow> bool" where
  "sig_ok C bs b digest sig \<longleftrightarrow> sig \<noteq> [] \<and> (case buddy_map bs b of None \<Rightarrow> False
     | Some bud \<Rightarrow> length (bi_PublicKey bud) = 32 \<and> ed_verify C (bi_PublicKey bud) digest sig)"

definition good_prepare :: "crypto \<Rightarrow> buddy_input list \<Rightarrow> u64 \<Rightarrow> string \<Rightarrow> int \<Rightarrow> string \<Rightarrow> prepare_message \<Rightarrow> bool" where
  "good_prepare C bs rnd B now d m \<longleftrightarrow> p_Round m = rnd \<and> p_BlockHash m = B \<and> p_Decision m = d \<and> 0 < p_Seq m
     \<and> isTimestampFresh (unix now) (p_Timestamp m) \<and> sig_ok C bs (p_BuddyID m) (DigestPrepare C m) (p_Signature m)"

definition good_commit :: "crypto \<Rightarrow> buddy_input list \<Rightarrow> u64 \<Rightarrow> string \<Rightarrow> int \<Rightarrow> string \<Rightarrow> int \<Rightarrow> commit_message \<Rightarrow> bool" where
  "good_commit C bs rnd B now d cap m \<longleftrightarrow> c_Round m = rnd \<and> c_BlockHash m = B \<and> c_Decision m = d
     \<and> isTimestampFresh (unix now) (c_Timestamp m) \<and> sig_ok C bs (c_BuddyID m) (DigestCommit C m) (c_Signature m)
     \<and> (\<forall>p \<in> set (c_PrepareProof m). good_prepare C bs rnd B now d p) \<and> distinct (map p_BuddyID (c_PrepareProof m))
     \<and> BFTThreshold (int (length bs)) \<le> int (length (c_PrepareProof m)) \<and> int (length (c_PrepareProof m)) \<le> cap"

lemma handle_prepare_good:
  assumes "good_prepare C bs rnd B now d m" "en_buddies e = buddy_map bs" "en_round e = rnd" "en_blockHash e = B"
    "cf_RequireSignatures (en_config e)" "en_lastSeqSeen e (p_BuddyID m) < p_Seq m" "p_BuddyID m \<notin> fst ` set (en_prepareMsgs e)"
  shows "handle_prepare C now m e = (None, e\<lparr>en_lastSeqSeen := (en_lastSeqSeen e)(p_BuddyID m := p_Seq m),
     en_prepareMsgs := en_prepareMsgs e @ [(p_BuddyID m, m)]\<rparr>)"
proof -
  have "map_of (en_prepareMsgs e) (p_BuddyID m) = None" using assms(7) by (simp add: map_of_eq_None_iff)
  with assms show ?thesis
    by (auto simp: handle_prepare_def validatePrepare_def good_prepare_def sig_ok_def checkAndMarkSeq_def ed_check_def addPrepareMsg_def
        split: option.splits)
qed

lemma waitForPrepare_good:
  assumes "\<forall>m \<in> set ms. good_prepare C bs rnd B now d m" "distinct (map p_BuddyID ms)"
    and "en_buddies e = buddy_map bs" "en_round e = rnd" "en_blockHash e = B" "cf_RequireSignatures (en_config e)"
    and "\<forall>m \<in> set ms. en_lastSeqSeen e (p_BuddyID m) = 0 \<and> p_BuddyID m \<notin> fst ` set (en_prepareMsgs e)"
  shows "waitForPrepareThreshold C (map (RecvPrepare now) ms @ evs) e =
    waitForPrepareThreshold C evs (e\<lparr>en_lastSeqSeen := foldl (\<lambda>q m. q(p_BuddyID m := p_Seq m)) (en_lastSeqSeen e) ms,
      en_prepareMsgs := en_prepareMsgs e @ map (\<lambda>m. (p_BuddyID m, m)) ms\<rparr>)"
  using assms
proof (induction ms arbitrary: e)
  case (Cons m ms)
  let ?e = "e\<lparr>en_lastSeqSeen := (en_lastSeqSeen e)(p_BuddyID m := p_Seq m), en_prepareMsgs := en_prepareMsgs e @ [(p_BuddyID m, m)]\<rparr>"
  have "en_lastSeqSeen e (p_BuddyID m) < p_Seq m" using Cons.prems(1,7) by (simp add: good_prepare_def)
  then have "handle_prepare C now m e = (None, ?e)" using Cons.prems by (intro handle_prepare_good) auto
  moreover have "waitForPrepareThreshold C (map (RecvPrepare now) ms @ evs) ?e =
    waitForPrepareThreshold C evs (?e\<lparr>en_lastSeqSeen := foldl (\<lambda>q m. q(p_BuddyID m := p_Seq m)) (en_lastSeqSeen ?e) ms,
      en_prepareMsgs := en_prepareMsgs ?e @ map (\<lambda>m. (p_BuddyID m, m)) ms\<rparr>)"
    by (rule Cons.IH) (use Cons.prems in \<open>auto simp: image_iff\<close>)
  ultimately show ?case by (simp add: fun_upd_def)
qed simp

lemma check_proof_good:
  assumes "\<forall>p \<in> set ps. good_prepare C bs rnd B now d p" "distinct (map p_BuddyID ps)" "set (map p_BuddyID ps) \<inter> set seen = {}"
    and "en_buddies e = buddy_map bs" "cf_RequireSignatures (en_config e)"
  shows "check_proof C now e d seen k ps = Inr (k + int (length ps))"
  using assms
proof (induction ps arbitrary: seen k)
  case (Cons p ps)
  have "check_proof C now e d (p_BuddyID p # seen) (k + 1) ps = Inr (k + 1 + int (length ps))"
    by (rule Cons.IH) (use Cons.prems in auto)
  with Cons.prems show ?case
    by (auto simp: good_prepare_def sig_ok_def ed_check_def split: option.splits)
qed simp

lemma handle_commit_good:
  assumes "good_commit C bs rnd B now d (cf_MaxProofSize (en_config e)) m" "en_buddies e = buddy_map bs" "en_round e = rnd" "en_blockHash e = B"
    "cf_RequireSignatures (en_config e)" "en_threshold e = BFTThreshold (int (length bs))"
    "en_lastSeqSeen e (c_BuddyID m) < c_Seq m" "c_BuddyID m \<notin> fst ` set (en_commitMsgs e)"
    "\<forall>(b, p) \<in> set (en_prepareMsgs e). p_Decision p = d \<and> p_Round p = rnd \<and> p_BlockHash p = B"
  shows "handle_commit C now m e = (None, e\<lparr>en_lastSeqSeen := (en_lastSeqSeen e)(c_BuddyID m := c_Seq m),
     en_commitMsgs := en_commitMsgs e @ [(c_BuddyID m, m)]\<rparr>)"
proof -
  have fresh: "map_of (en_commitMsgs e) (c_BuddyID m) = None" using assms(8) by (simp add: map_of_eq_None_iff)
  let ?e = "e\<lparr>en_lastSeqSeen := (en_lastSeqSeen e)(c_BuddyID m := c_Seq m)\<rparr>"
  have proof_ok: "check_proof C now ?e d [] 0 (c_PrepareProof m) = Inr (int (length (c_PrepareProof m)))"
    using check_proof_good [of "c_PrepareProof m" C bs rnd B now d "[]" ?e 0] assms(1,2,5) by (simp add: good_commit_def)
  have no_conflict: "detectConflicts m (en_prepareMsgs e) = []"
    using assms(1,9) by (auto simp: detectConflicts_def good_commit_def good_prepare_def filter_empty_conv dest!: map_of_SomeD split: option.splits)
  obtain bud where "buddy_map bs (c_BuddyID m) = Some bud" "length (bi_PublicKey bud) = 32"
    "ed_verify C (bi_PublicKey bud) (DigestCommit C m) (c_Signature m)" "c_Signature m \<noteq> []"
    using assms(1) by (auto simp: good_commit_def sig_ok_def split: option.splits)
  then have "validateCommit C now m e = (None, ?e)"
    using assms(1-7) proof_ok by (auto simp: validateCommit_def good_commit_def checkAndMarkSeq_def ed_check_def)
  with fresh no_conflict show ?thesis by (simp add: handle_commit_def addCommitMsg_def)
qed

lemma waitForCommit_good:
  assumes "\<forall>m \<in> set ms. good_commit C bs rnd B now d (cf_MaxProofSize (en_config e)) m" "distinct (map c_BuddyID ms)"
    and "en_buddies e = buddy_map bs" "en_round e = rnd" "en_blockHash e = B" "cf_RequireSignatures (en_config e)"
    and "en_threshold e = BFTThreshold (int (length bs))"
    and "\<forall>m \<in> set ms. en_lastSeqSeen e (c_BuddyID m) < c_Seq m \<and> c_BuddyID m \<notin> fst ` set (en_commitMsgs e)"
    and "\<forall>(b, p) \<in> set (en_prepareMsgs e). p_Decision p = d \<and> p_Round p = rnd \<and> p_BlockHash p = B"
  shows "waitForCommitThreshold C (map (RecvCommit now) ms @ evs) e =
    waitForCommitThreshold C evs (e\<lparr>en_lastSeqSeen := foldl (\<lambda>q m. q(c_BuddyID m := c_Seq m)) (en_lastSeqSeen e) ms,
      en_commitMsgs := en_commitMsgs e @ map (\<lambda>m. (c_BuddyID m, m)) ms\<rparr>)"
  using assms
proof (induction ms arbitrary: e)
  case (Cons m ms)
  let ?e = "e\<lparr>en_lastSeqSeen := (en_lastSeqSeen e)(c_BuddyID m := c_Seq m), en_commitMsgs := en_commitMsgs e @ [(c_BuddyID m, m)]\<rparr>"
  have "handle_commit C now m e = (None, ?e)" using Cons.prems by (intro handle_commit_good) auto
  moreover have "waitForCommitThreshold C (map (RecvCommit now) ms @ evs) ?e =
    waitForCommitThreshold C evs (?e\<lparr>en_lastSeqSeen := foldl (\<lambda>q m. q(c_BuddyID m := c_Seq m)) (en_lastSeqSeen ?e) ms,
      en_commitMsgs := en_commitMsgs ?e @ map (\<lambda>m. (c_BuddyID m, m)) ms\<rparr>)"
    by (rule Cons.IH) (use Cons.prems in \<open>auto simp: image_iff\<close>)
  ultimately show ?case by (simp add: fun_upd_def)
qed simp

subsection \<open>Both phases\<close>

lemma foldl_upd_other: "x \<notin> f ` set ms \<Longrightarrow> foldl (\<lambda>q m. q(f m := g m)) q ms x = q x"
  by (induction ms arbitrary: q) auto

lemma foldl_upd_key: "distinct (map f ms) \<Longrightarrow> m \<in> set ms \<Longrightarrow> foldl (\<lambda>q m. q(f m := g m)) q ms (f m) = g m"
  by (induction ms arbitrary: q) (auto simp: foldl_upd_other)

lemma decide_all:
  assumes "d = Accept \<or> d = Reject" "1 \<le> t" "t \<le> int (length xs)" "\<forall>x \<in> set xs. f x = d"
  shows "decide t (int (length (filter (\<lambda>x. f x = Accept) xs)), int (length (filter (\<lambda>x. f x \<noteq> Accept) xs))) = Some d"
proof -
  have "filter (\<lambda>x. f x = Accept) xs = (if d = Accept then xs else [])" "filter (\<lambda>x. f x \<noteq> Accept) xs = (if d = Accept then [] else xs)"
    using assms(4) by (auto simp: filter_empty_conv intro: filter_True)
  with assms(1-3) show ?thesis by (auto simp: decide_def Accept_def Reject_def)
qed

definition own_prepare_msg :: "crypto \<Rightarrow> (byte list \<Rightarrow> byte list) \<Rightarrow> u64 \<Rightarrow> string \<Rightarrow> buddy_input \<Rightarrow> int \<Rightarrow> prepare_message" where
  "own_prepare_msg C sf rnd B b now =
     (let p = \<lparr>p_Version = PrepareVersionV1, p_Seq = 1, p_Round = rnd, p_BlockHash = B, p_BuddyID = bi_ID b, p_Decision = bi_Decision b,
         p_Timestamp = unix now, p_Signature = []\<rparr> in p\<lparr>p_Signature := sf (DigestPrepare C p)\<rparr>)"

definition after_prepare :: "crypto \<Rightarrow> (byte list \<Rightarrow> byte list) \<Rightarrow> int \<Rightarrow> buddy_input \<Rightarrow> prepare_message list \<Rightarrow> engine \<Rightarrow> engine" where
  "after_prepare C sf now b ps e = e\<lparr>en_lastSeqSeen := foldl (\<lambda>q m. q(p_BuddyID m := p_Seq m)) ((\<lambda>_. 0)(bi_ID b := 1)) ps,
     en_prepareMsgs := map (\<lambda>m. (p_BuddyID m, m)) (own_prepare_msg C sf (en_round e) (en_blockHash e) b now # ps)\<rparr>"

lemma runPrepare_good:
  assumes sg: "\<And>x. sg x = Inr (sf x)" and e: "e = new_engine cfg rnd B b bs (Some sg)"
    and cfg: "cf_RequireSignatures cfg" "bi_Decision b = Accept \<or> bi_Decision b = Reject" "bs \<noteq> []"
    and env: "ev_prepare_sent env" "ev_prepare_events env = map (RecvPrepare now) ps @ Tick t # rest"
    and ps: "\<forall>m \<in> set ps. good_prepare C bs rnd B now (bi_Decision b) m" "distinct (bi_ID b # map p_BuddyID ps)"
    and thr: "BFTThreshold (int (length bs)) \<le> 1 + int (length ps)"
  shows "runPrepare C env e = (Some (Inr (bi_Decision b)), after_prepare C sf (ev_prepare_time env) b ps e)"
proof -
  let ?p = "own_prepare_msg C sf rnd B b (ev_prepare_time env)"
  let ?e = "e\<lparr>en_lastSeqSeen := (\<lambda>_. 0)(bi_ID b := 1), en_prepareMsgs := [(bi_ID b, ?p)]\<rparr>"
  have "createPrepare C (ev_prepare_time env) e = (Inr ?p, e\<lparr>en_lastSeqSeen := (\<lambda>_. 0)(bi_ID b := 1)\<rparr>)"
    by (simp add: createPrepare_def e new_engine_def ensureSeqForSelf_def Let_def signPrepare_def sign_with_def sg own_prepare_msg_def)
  moreover have id: "p_BuddyID ?p = bi_ID b" "p_Decision ?p = bi_Decision b" by (simp_all add: own_prepare_msg_def Let_def)
  moreover have "addPrepareMsg ?p (e\<lparr>en_lastSeqSeen := (\<lambda>_. 0)(bi_ID b := 1)\<rparr>) = ?e" by (simp add: addPrepareMsg_def id e new_engine_def)
  moreover have "waitForPrepareThreshold C (map (RecvPrepare now) ps @ Tick t # rest) ?e =
      waitForPrepareThreshold C (Tick t # rest) (?e\<lparr>en_lastSeqSeen := foldl (\<lambda>q m. q(p_BuddyID m := p_Seq m)) (en_lastSeqSeen ?e) ps,
        en_prepareMsgs := en_prepareMsgs ?e @ map (\<lambda>m. (p_BuddyID m, m)) ps\<rparr>)"
    by (rule waitForPrepare_good [OF ps(1)]) (use ps(2) cfg(1) in \<open>auto simp: e new_engine_def image_iff\<close>)
  moreover have "decide (BFTThreshold (int (length bs))) (getPrepareVoteCounts (after_prepare C sf (ev_prepare_time env) b ps e)) = Some (bi_Decision b)"
    using decide_all [of "bi_Decision b" "BFTThreshold (int (length bs))" "?p # ps" p_Decision] cfg(2,3) ps(1) thr id
      bft_quorum.quorum_pos [of "int (length bs)"]
    by (auto simp: getPrepareVoteCounts_def after_prepare_def e new_engine_def good_prepare_def filter_map comp_def Suc_le_eq)
  ultimately show ?thesis
    using env by (simp add: runPrepare_def after_prepare_def e new_engine_def)
qed

definition own_commit_msg :: "crypto \<Rightarrow> (byte list \<Rightarrow> byte list) \<Rightarrow> u64 \<Rightarrow> string \<Rightarrow> buddy_input \<Rightarrow> int \<Rightarrow> prepare_message list \<Rightarrow> commit_message" where
  "own_commit_msg C sf rnd B b now proof_msgs =
     (let c = \<lparr>c_Version = CommitVersionV1, c_Seq = 2, c_Round = rnd, c_BlockHash = B, c_BuddyID = bi_ID b, c_Decision = bi_Decision b,
         c_PrepareProof = proof_msgs, c_Timestamp = unix now, c_Signature = []\<rparr> in c\<lparr>c_Signature := sf (DigestCommit C c)\<rparr>)"

lemma createCommit_good:
  assumes sg: "\<And>x. sg x = Inr (sf x)" and e: "e = after_prepare C sf now b ps (new_engine cfg rnd B b bs (Some sg))"
    and ps: "\<forall>m \<in> set ps. p_Decision m = bi_Decision b" "distinct (bi_ID b # map p_BuddyID ps)"
    and thr: "BFTThreshold (int (length bs)) \<le> 1 + int (length ps)" "BFTThreshold (int (length bs)) \<le> cf_MaxProofSize cfg" "bs \<noteq> []"
    and ord: "permuting ord"
  shows "\<exists>pf. createCommit C ord t (bi_Decision b) e =
    (Inr (own_commit_msg C sf rnd B b t pf), e\<lparr>en_lastSeqSeen := (en_lastSeqSeen e)(bi_ID b := 2)\<rparr>)"
proof -
  let ?t = "BFTThreshold (int (length bs))"
  have pos: "1 \<le> ?t" using bft_quorum.quorum_pos [of "int (length bs)"] thr(3) by (simp add: Suc_le_eq)
  have same: "set (ord (en_prepareMsgs e)) = set (en_prepareMsgs e)" "length (ord (en_prepareMsgs e)) = length (en_prepareMsgs e)"
    using ord by (auto simp: permuting_def dest: mset_eq_setD mset_eq_length)
  have "\<forall>x \<in> set (map snd (ord (en_prepareMsgs e))). p_Decision x = bi_Decision b"
    using ps(1) same(1) by (auto simp: e after_prepare_def own_prepare_msg_def Let_def)
  then have "collectPrepareProof ord (bi_Decision b) e = take (nat ?t) (map snd (ord (en_prepareMsgs e)))"
    using pos by (simp add: collectPrepareProof_def e after_prepare_def new_engine_def max_absorb2 filter_True)
  moreover have "length (en_prepareMsgs e) = Suc (length ps)" by (simp add: e after_prepare_def)
  ultimately have len: "int (length (collectPrepareProof ord (bi_Decision b) e)) = ?t" using thr(1) pos same(2) by simp
  have seq: "en_lastSeqSeen e (bi_ID b) = 1" using ps(2) by (simp add: e after_prepare_def foldl_upd_other)
  show ?thesis
    using len thr(2) seq
    by (simp add: createCommit_def Let_def ensureSeqForSelf_def signCommit_def sign_with_def own_commit_msg_def
        e after_prepare_def new_engine_def sg)
qed

lemma runCommit_good:
  assumes sg: "\<And>x. sg x = Inr (sf x)" and e: "e = after_prepare C sf now b ps (new_engine cfg rnd B b bs (Some sg))"
    and cfg: "cf_RequireSignatures cfg" "bi_Decision b = Accept \<or> bi_Decision b = Reject" "bs \<noteq> []"
    and ps: "\<forall>m \<in> set ps. good_prepare C bs rnd B now' (bi_Decision b) m" "distinct (bi_ID b # map p_BuddyID ps)"
    and thr: "BFTThreshold (int (length bs)) \<le> 1 + int (length ps)" "BFTThreshold (int (length bs)) \<le> cf_MaxProofSize cfg"
    and ord: "permuting (ev_order env)"
    and env: "ev_commit_sent env" "ev_commit_events env = map (RecvCommit tc) cs @ Tick t # rest"
    and cs: "\<forall>m \<in> set cs. good_commit C bs rnd B tc (bi_Decision b) (cf_MaxProofSize cfg) m" "distinct (bi_ID b # map c_BuddyID cs)"
      "\<forall>c \<in> set cs. 0 < c_Seq c \<and> (\<forall>p \<in> set ps. p_BuddyID p = c_BuddyID c \<longrightarrow> p_Seq p < c_Seq c)"
    and enough: "BFTThreshold (int (length bs)) \<le> 1 + int (length cs)"
  shows "\<exists>e'. runCommit C env (bi_Decision b) e = (Some (Inr (bi_Decision b)), e')"
proof -
  let ?d = "bi_Decision b" and ?n = "BFTThreshold (int (length bs))"
  obtain pf where c: "createCommit C (ev_order env) (ev_commit_time env) ?d e =
      (Inr (own_commit_msg C sf rnd B b (ev_commit_time env) pf), e\<lparr>en_lastSeqSeen := (en_lastSeqSeen e)(bi_ID b := 2)\<rparr>)"
    using createCommit_good [OF sg e _ ps(2) thr cfg(3) ord] ps(1) by (auto simp: good_prepare_def)
  let ?c = "own_commit_msg C sf rnd B b (ev_commit_time env) pf"
  have id: "c_BuddyID ?c = bi_ID b" "c_Decision ?c = ?d" by (simp_all add: own_commit_msg_def Let_def)
  let ?e = "e\<lparr>en_lastSeqSeen := (en_lastSeqSeen e)(bi_ID b := 2), en_commitMsgs := [(bi_ID b, ?c)]\<rparr>"
  have add: "addCommitMsg ?c (e\<lparr>en_lastSeqSeen := (en_lastSeqSeen e)(bi_ID b := 2)\<rparr>) = ?e"
    by (simp add: addCommitMsg_def id e after_prepare_def new_engine_def)
  have seq: "en_lastSeqSeen ?e (c_BuddyID m) < c_Seq m" if m: "m \<in> set cs" for m
  proof -
    have ne: "c_BuddyID m \<noteq> bi_ID b" using cs(2) m by (auto simp: image_iff)
    show ?thesis
    proof (cases "c_BuddyID m \<in> p_BuddyID ` set ps")
      case True
      then obtain p where p: "p \<in> set ps" "p_BuddyID p = c_BuddyID m" by auto
      have "en_lastSeqSeen e (c_BuddyID m) = p_Seq p"
        using foldl_upd_key [of p_BuddyID ps p p_Seq "(\<lambda>_. 0)(bi_ID b := 1)"] ps(2) p by (simp add: e after_prepare_def)
      with cs(3) m p ne show ?thesis by auto
    next
      case False
      then have "en_lastSeqSeen e (c_BuddyID m) = 0" using ne by (simp add: e after_prepare_def foldl_upd_other)
      with cs(3) m ne show ?thesis by auto
    qed
  qed
  let ?e' = "?e\<lparr>en_lastSeqSeen := foldl (\<lambda>q m. q(c_BuddyID m := c_Seq m)) (en_lastSeqSeen ?e) cs,
        en_commitMsgs := en_commitMsgs ?e @ map (\<lambda>m. (c_BuddyID m, m)) cs\<rparr>"
  have good: "\<forall>m \<in> set cs. good_commit C bs rnd B tc ?d (cf_MaxProofSize (en_config ?e)) m"
    using cs(1) by (simp add: e after_prepare_def new_engine_def)
  have "waitForCommitThreshold C (map (RecvCommit tc) cs @ Tick t # rest) ?e = waitForCommitThreshold C (Tick t # rest) ?e'"
  proof (rule waitForCommit_good [OF good])
    show "\<forall>m \<in> set cs. en_lastSeqSeen ?e (c_BuddyID m) < c_Seq m \<and> c_BuddyID m \<notin> fst ` set (en_commitMsgs ?e)"
      using seq cs(2) by (auto simp: image_iff)
  qed (use cs(2) cfg(1) ps(1) in \<open>auto simp: e after_prepare_def new_engine_def own_prepare_msg_def Let_def good_prepare_def\<close>)
  moreover have "decide ?n (getCommitVoteCountsClean t ?e') = Some ?d"
    using decide_all [of ?d ?n "?c # cs" c_Decision] cfg(2,3) cs(1) enough id bft_quorum.quorum_pos [of "int (length bs)"]
    by (auto simp: getCommitVoteCountsClean_def isByzantine_def e after_prepare_def new_engine_def good_commit_def filter_map comp_def Suc_le_eq Let_def)
  moreover have "en_threshold ?e' = ?n" by (simp add: e after_prepare_def new_engine_def)
  ultimately have "waitForCommitThreshold C (map (RecvCommit tc) cs @ Tick t # rest) ?e = (Some (Inr ?d), ?e')" by simp
  then show ?thesis unfolding runCommit_def c using env by (simp add: add)
qed

text \<open>A node that is given its inputs, a working signer and enough valid votes in time.\<close>

definition good_run :: "crypto \<Rightarrow> u64 \<Rightarrow> string \<Rightarrow> string \<Rightarrow> bft_node \<Rightarrow> buddy_input \<Rightarrow> (byte list \<Rightarrow> byte list)
     \<Rightarrow> prepare_message list \<Rightarrow> commit_message list \<Rightarrow> bool" where
  "good_run C rnd B me N b sf ps cs \<longleftrightarrow>
     validateInputs (nd_config N) me (nd_buddies N) = None \<and> buddy_map (nd_buddies N) me = Some b
     \<and> cf_RequireSignatures (nd_config N) \<and> resolve_signer C (nd_signer N) b = Some (\<lambda>x. Inr (sf x)) \<and> permuting (ev_order (nd_env N))
     \<and> BFTThreshold (int (length (nd_buddies N))) \<le> cf_MaxProofSize (nd_config N)
     \<and> ev_prepare_sent (nd_env N) \<and> ev_commit_sent (nd_env N)
     \<and> (\<exists>now t rest. ev_prepare_events (nd_env N) = map (RecvPrepare now) ps @ Tick t # rest
          \<and> (\<forall>m \<in> set ps. good_prepare C (nd_buddies N) rnd B now (bi_Decision b) m))
     \<and> (\<exists>now t rest. ev_commit_events (nd_env N) = map (RecvCommit now) cs @ Tick t # rest
          \<and> (\<forall>m \<in> set cs. good_commit C (nd_buddies N) rnd B now (bi_Decision b) (cf_MaxProofSize (nd_config N)) m))
     \<and> distinct (me # map p_BuddyID ps) \<and> distinct (me # map c_BuddyID cs)
     \<and> (\<forall>c \<in> set cs. 0 < c_Seq c \<and> (\<forall>p \<in> set ps. p_BuddyID p = c_BuddyID c \<longrightarrow> p_Seq p < c_Seq c))
     \<and> BFTThreshold (int (length (nd_buddies N))) \<le> 1 + int (length ps) \<and> BFTThreshold (int (length (nd_buddies N))) \<le> 1 + int (length cs)"

lemma good_run_phases:
  assumes "good_run C rnd B me N b sf ps cs"
  obtains e1 pf e2 where "node_engine C rnd B me N = Some (new_engine (nd_config N) rnd B b (nd_buddies N) (Some (\<lambda>x. Inr (sf x))))"
    "runPrepare C (nd_env N) (new_engine (nd_config N) rnd B b (nd_buddies N) (Some (\<lambda>x. Inr (sf x)))) = (Some (Inr (bi_Decision b)), e1)"
    "fst (createCommit C (ev_order (nd_env N)) (ev_commit_time (nd_env N)) (bi_Decision b) e1)
       = Inr (own_commit_msg C sf rnd B b (ev_commit_time (nd_env N)) pf)"
    "runCommit C (nd_env N) (bi_Decision b) e1 = (Some (Inr (bi_Decision b)), e2)"
proof -
  let ?sg = "\<lambda>x. Inr (sf x) :: bft_err + byte list"
  let ?e = "new_engine (nd_config N) rnd B b (nd_buddies N) (Some ?sg)"
  note g = assms [unfolded good_run_def]
  have b: "b \<in> set (nd_buddies N)" "bi_ID b = me" using buddy_map_Some g by blast+
  then have ne: "nd_buddies N \<noteq> []" by auto
  have "check_buddies me [] (nd_buddies N) = None" using g by (simp add: validateInputs_def split: if_splits)
  from check_buddies_decision [OF this b(1)] have dec: "bi_Decision b = Accept \<or> bi_Decision b = Reject" .
  obtain now t rest where p: "ev_prepare_events (nd_env N) = map (RecvPrepare now) ps @ Tick t # rest"
    "\<forall>m \<in> set ps. good_prepare C (nd_buddies N) rnd B now (bi_Decision b) m" using g by blast
  obtain now' t' rest' where c: "ev_commit_events (nd_env N) = map (RecvCommit now') cs @ Tick t' # rest'"
    "\<forall>m \<in> set cs. good_commit C (nd_buddies N) rnd B now' (bi_Decision b) (cf_MaxProofSize (nd_config N)) m" using g by blast
  let ?e1 = "after_prepare C sf (ev_prepare_time (nd_env N)) b ps ?e"
  have dist: "distinct (bi_ID b # map p_BuddyID ps)" "distinct (bi_ID b # map c_BuddyID cs)" using g b(2) by auto
  have "node_engine C rnd B me N = Some ?e" using g by (simp add: node_engine_def Let_def)
  moreover have "runPrepare C (nd_env N) ?e = (Some (Inr (bi_Decision b)), ?e1)"
    by (rule runPrepare_good [OF _ _ _ dec ne _ p dist(1)]) (use g in auto)
  moreover have "\<exists>pf. createCommit C (ev_order (nd_env N)) (ev_commit_time (nd_env N)) (bi_Decision b) ?e1 =
      (Inr (own_commit_msg C sf rnd B b (ev_commit_time (nd_env N)) pf), ?e1\<lparr>en_lastSeqSeen := (en_lastSeqSeen ?e1)(bi_ID b := 2)\<rparr>)"
    by (rule createCommit_good [OF _ refl _ dist(1) _ _ ne]) (use g p(2) in \<open>auto simp: good_prepare_def\<close>)
  then obtain pf where "fst (createCommit C (ev_order (nd_env N)) (ev_commit_time (nd_env N)) (bi_Decision b) ?e1)
       = Inr (own_commit_msg C sf rnd B b (ev_commit_time (nd_env N)) pf)" by auto
  moreover have "\<exists>e2. runCommit C (nd_env N) (bi_Decision b) ?e1 = (Some (Inr (bi_Decision b)), e2)"
    by (rule runCommit_good [OF _ refl _ dec ne p(2) dist(1) _ _ _ _ c(1) c(2) dist(2)]) (use g in auto)
  then obtain e2 where "runCommit C (nd_env N) (bi_Decision b) ?e1 = (Some (Inr (bi_Decision b)), e2)" by blast
  ultimately show ?thesis by (rule that)
qed

lemma good_run_votes:
  assumes "good_run C rnd B me N b sf ps cs"
  shows "own_prepare C rnd B me N = Some (own_prepare_msg C sf rnd B b (ev_prepare_time (nd_env N)))"
    and "\<exists>pf. own_commit C rnd B me N = Some (own_commit_msg C sf rnd B b (ev_commit_time (nd_env N)) pf)"
proof -
  obtain e1 pf e2 where g: "node_engine C rnd B me N = Some (new_engine (nd_config N) rnd B b (nd_buddies N) (Some (\<lambda>x. Inr (sf x))))"
    "runPrepare C (nd_env N) (new_engine (nd_config N) rnd B b (nd_buddies N) (Some (\<lambda>x. Inr (sf x)))) = (Some (Inr (bi_Decision b)), e1)"
    "fst (createCommit C (ev_order (nd_env N)) (ev_commit_time (nd_env N)) (bi_Decision b) e1)
       = Inr (own_commit_msg C sf rnd B b (ev_commit_time (nd_env N)) pf)"
    by (rule good_run_phases [OF assms])
  show "own_prepare C rnd B me N = Some (own_prepare_msg C sf rnd B b (ev_prepare_time (nd_env N)))"
    by (simp add: own_prepare_def g(1) createPrepare_def new_engine_def ensureSeqForSelf_def Let_def signPrepare_def sign_with_def own_prepare_msg_def)
  show "\<exists>pf. own_commit C rnd B me N = Some (own_commit_msg C sf rnd B b (ev_commit_time (nd_env N)) pf)"
    by (simp add: own_commit_def g) blast
qed

lemma good_run_result:
  assumes "good_run C rnd B me N b sf ps cs"
  obtains res where "RunConsensus C (nd_config N) rnd B me (nd_buddies N) (nd_signer N) (nd_env N) = Some (Inr res)"
    "r_Decision res = bi_Decision b" "r_BlockAccepted res = (bi_Decision b = Accept)" "r_Success res"
proof -
  note g = assms [unfolded good_run_def]
  obtain e1 pf e2 where r: "runPrepare C (nd_env N) (new_engine (nd_config N) rnd B b (nd_buddies N) (Some (\<lambda>x. Inr (sf x)))) = (Some (Inr (bi_Decision b)), e1)"
    "runCommit C (nd_env N) (bi_Decision b) e1 = (Some (Inr (bi_Decision b)), e2)"
    by (rule good_run_phases [OF assms])
  then show ?thesis using g that by (simp add: RunConsensus_def Let_def)
qed

end
