(* ===== verification/BFTProps.thy ===== *)
theory BFTProps
  imports BFTLive
begin

text \<open>
  Properties of the two-phase vote, with a committee of four of which one member is
  silent as the example.
\<close>

lemma sint_of_word: "- (2 ^ 63) \<le> k \<Longrightarrow> k < 2 ^ 63 \<Longrightarrow> sint (word_of_int k :: u64) = k"
  by (simp add: int_word_sint)

subsection \<open>A committee of four\<close>

definition bft_ids :: "string list" where "bft_ids = [''buddy-00001'', ''buddy-00002'', ''buddy-00003'', ''buddy-00004'']"

definition bft_pk :: "string \<Rightarrow> byte list" where "bft_pk b = replicate 32 (of_char (last b))"

definition bft_prepare :: "string \<Rightarrow> prepare_message" where
  "bft_prepare b = \<lparr>p_Version = PrepareVersionV1, p_Seq = 1, p_Round = 7, p_BlockHash = ''0xab'', p_BuddyID = b, p_Decision = Accept,
     p_Timestamp = 1000, p_Signature = [1]\<rparr>"

definition bft_commit :: "string \<Rightarrow> commit_message" where
  "bft_commit b = \<lparr>c_Version = CommitVersionV1, c_Seq = 2, c_Round = 7, c_BlockHash = ''0xab'', c_BuddyID = b, c_Decision = Accept,
     c_PrepareProof = map bft_prepare (b # filter (\<lambda>x. x \<noteq> b) (take 3 bft_ids)), c_Timestamp = 1001, c_Signature = [1]\<rparr>"

definition bft_crypto :: crypto where
  "bft_crypto = \<lparr>sha256 = (\<lambda>x. x),
     ed_verify = (\<lambda>pk d s. \<exists>b \<in> set (take 3 bft_ids). pk = bft_pk b \<and> (d = prepare_bytes (bft_prepare b) \<or> d = commit_bytes (bft_commit b))),
     ed_sign = (\<lambda>_ _. [1])\<rparr>"

definition bft_node_of :: "string \<Rightarrow> bft_node" where
  "bft_node_of b =
     (let peers = filter (\<lambda>x. x \<noteq> b) (take 3 bft_ids); t = 1000 * 10 ^ 9
      in \<lparr>nd_config = DefaultConfig\<lparr>cf_MinBuddies := 4\<rparr>,
          nd_buddies = map (\<lambda>i. \<lparr>bi_ID = i, bi_Decision = Accept, bi_PublicKey = bft_pk i, bi_PrivateKey = replicate 64 0\<rparr>) bft_ids,
          nd_signer = None,
          nd_env = \<lparr>ev_prepare_time = t, ev_prepare_sent = True,
             ev_prepare_events = map (\<lambda>x. RecvPrepare t (bft_prepare x)) peers @ [Tick t, Expire], ev_order = (\<lambda>xs. xs),
             ev_commit_time = t + 10 ^ 9, ev_commit_sent = True,
             ev_commit_events = map (\<lambda>x. RecvCommit (t + 10 ^ 9) (bft_commit x)) peers @ [Tick t, Expire]\<rparr>\<rparr>)"

definition bft_run :: "string \<Rightarrow> (bft_err + bft_result) option" where
  "bft_run b = RunConsensus bft_crypto (nd_config (bft_node_of b)) 7 ''0xab'' b (nd_buddies (bft_node_of b)) (nd_signer (bft_node_of b))
     (nd_env (bft_node_of b))"

definition bft_honest :: "string set" where "bft_honest = set (take 3 bft_ids)"

lemma bft_fresh:
  "isTimestampFresh (unix 1000000000000) 1000" "isTimestampFresh (unix 1001000000000) 1000"
  "isTimestampFresh (unix 1001000000000) 1001" "unix 1000000000000 = 1000" "unix 1001000000000 = 1001"
  by code_simp+

lemma bft_buddy:
  "buddy_map (nd_buddies (bft_node_of h)) b = (if b \<in> set bft_ids then
     Some \<lparr>bi_ID = b, bi_Decision = Accept, bi_PublicKey = bft_pk b, bi_PrivateKey = replicate 64 0\<rparr> else None)"
  by (auto simp: bft_node_of_def Let_def buddy_map_def bft_ids_def)

lemma bft_sig_ok:
  assumes "b \<in> bft_honest" "s \<noteq> []" "x = prepare_bytes (bft_prepare b) \<or> x = commit_bytes (bft_commit b)"
  shows "sig_ok bft_crypto (nd_buddies (bft_node_of h)) b x s"
proof -
  have "b \<in> set bft_ids" using assms(1) by (auto simp: bft_honest_def dest: in_set_takeD)
  with assms show ?thesis by (auto simp: sig_ok_def bft_buddy bft_crypto_def bft_honest_def bft_pk_def)
qed

lemma bft_good_prepare:
  "b \<in> bft_honest \<Longrightarrow> t = 1000000000000 \<or> t = 1001000000000 \<Longrightarrow>
   good_prepare bft_crypto (nd_buddies (bft_node_of h)) 7 ''0xab'' t Accept (bft_prepare b)"
  using bft_sig_ok [of b "[1]" "DigestPrepare bft_crypto (bft_prepare b)" h] bft_fresh
  by (auto simp: good_prepare_def bft_prepare_def DigestPrepare_def bft_crypto_def)

lemma bft_good_commit:
  assumes "b \<in> bft_honest"
  shows "good_commit bft_crypto (nd_buddies (bft_node_of h)) 7 ''0xab'' 1001000000000 Accept 256 (bft_commit b)"
proof -
  have "length (nd_buddies (bft_node_of h)) = 4" by (simp add: bft_node_of_def Let_def bft_ids_def)
  moreover have "\<forall>p \<in> set (c_PrepareProof (bft_commit b)). \<exists>x \<in> bft_honest. p = bft_prepare x"
    using assms by (auto simp: bft_commit_def bft_honest_def)
  moreover have "distinct (map p_BuddyID (c_PrepareProof (bft_commit b)))" "length (c_PrepareProof (bft_commit b)) = 3"
    using assms by (auto simp: bft_commit_def bft_honest_def bft_ids_def bft_prepare_def)
  ultimately show ?thesis
    using bft_sig_ok [OF assms, of "[1]" "DigestCommit bft_crypto (bft_commit b)" h] bft_fresh bft_good_prepare
    by (auto simp: good_commit_def DigestCommit_def bft_crypto_def quorum_defs) (auto simp: bft_commit_def)
qed

lemma bft_good_run:
  assumes "h \<in> bft_honest"
  shows "good_run bft_crypto 7 ''0xab'' h (bft_node_of h) \<lparr>bi_ID = h, bi_Decision = Accept, bi_PublicKey = bft_pk h, bi_PrivateKey = replicate 64 0\<rparr>
    (\<lambda>_. [1]) (map bft_prepare (filter (\<lambda>x. x \<noteq> h) (take 3 bft_ids))) (map bft_commit (filter (\<lambda>x. x \<noteq> h) (take 3 bft_ids)))"
proof -
  let ?N = "bft_node_of h" and ?peers = "filter (\<lambda>x. x \<noteq> h) (take 3 bft_ids)"
  have h: "h \<in> set bft_ids" "h \<noteq> []" using assms by (auto simp: bft_honest_def bft_ids_def)
  have cfg: "nd_config ?N = DefaultConfig\<lparr>cf_MinBuddies := 4\<rparr>" "length (nd_buddies ?N) = 4" "nd_signer ?N = None"
    by (simp_all add: bft_node_of_def Let_def bft_ids_def)
  have peers: "set ?peers \<subseteq> bft_honest" "h \<notin> set ?peers" "distinct ?peers" "length ?peers = 2"
    using assms by (auto simp: bft_honest_def bft_ids_def)
  have "check_buddies h [] (nd_buddies ?N) = None" by (simp add: bft_node_of_def Let_def bft_ids_def bft_pk_def)
  then have "validateInputs (nd_config ?N) h (nd_buddies ?N) = None" using h(2) cfg by (simp add: validateInputs_def)
  moreover have "resolve_signer bft_crypto (nd_signer ?N) \<lparr>bi_ID = h, bi_Decision = Accept, bi_PublicKey = bft_pk h, bi_PrivateKey = replicate 64 0\<rparr>
      = Some (\<lambda>x. Inr [1])"
    by (simp add: cfg resolve_signer_def NewLocalSigner_def bft_crypto_def fun_eq_iff)
  moreover have "ev_prepare_events (nd_env ?N) = map (RecvPrepare 1000000000000) (map bft_prepare ?peers) @ Tick 1000000000000 # [Expire]"
    "ev_commit_events (nd_env ?N) = map (RecvCommit 1001000000000) (map bft_commit ?peers) @ Tick 1000000000000 # [Expire]"
    by (simp_all add: bft_node_of_def Let_def)
  moreover have "permuting (ev_order (nd_env ?N))" "ev_prepare_sent (nd_env ?N)" "ev_commit_sent (nd_env ?N)"
    by (simp_all add: bft_node_of_def Let_def permuting_def)
  moreover have "\<forall>m \<in> set (map bft_prepare ?peers). good_prepare bft_crypto (nd_buddies ?N) 7 ''0xab'' 1000000000000 Accept m"
    "\<forall>m \<in> set (map bft_commit ?peers). good_commit bft_crypto (nd_buddies ?N) 7 ''0xab'' 1001000000000 Accept 256 m"
    using peers(1) bft_good_prepare bft_good_commit by fastforce+
  moreover have "distinct (h # map p_BuddyID (map bft_prepare ?peers))" "distinct (h # map c_BuddyID (map bft_commit ?peers))"
    using peers by (simp_all add: comp_def bft_prepare_def bft_commit_def)
  moreover have "\<forall>c \<in> set (map bft_commit ?peers). 0 < c_Seq c \<and> (\<forall>p \<in> set (map bft_prepare ?peers). p_Seq p < c_Seq c)"
    by (simp add: bft_commit_def bft_prepare_def)
  ultimately show ?thesis
    unfolding good_run_def using h(1) peers(4) cfg by (simp add: bft_buddy DefaultConfig_def quorum_defs) blast
qed

lemma bft_own_votes:
  assumes "h \<in> bft_honest"
  shows "own_prepare bft_crypto 7 ''0xab'' h (bft_node_of h) = Some (bft_prepare h)"
    "\<exists>c. own_commit bft_crypto 7 ''0xab'' h (bft_node_of h) = Some c \<and> commit_bytes c = commit_bytes (bft_commit h)"
proof -
  have t: "ev_prepare_time (nd_env (bft_node_of h)) = 1000000000000" "ev_commit_time (nd_env (bft_node_of h)) = 1001000000000"
    by (simp_all add: bft_node_of_def Let_def)
  note v = good_run_votes [OF bft_good_run [OF assms]]
  show "own_prepare bft_crypto 7 ''0xab'' h (bft_node_of h) = Some (bft_prepare h)"
    by (simp add: v(1) t own_prepare_msg_def bft_prepare_def bft_fresh)
  show "\<exists>c. own_commit bft_crypto 7 ''0xab'' h (bft_node_of h) = Some c \<and> commit_bytes c = commit_bytes (bft_commit h)"
    using v(2) by (auto simp: t own_commit_msg_def bft_commit_def commit_bytes_def bft_fresh)
qed

lemma bft_committee:
  "committee bft_crypto 7 ''0xab'' bft_ids bft_pk {''buddy-00004''} bft_node_of
     (\<lambda>h. {prepare_bytes (bft_prepare h), commit_bytes (bft_commit h)}) (\<lambda>_. 0)"
proof -
  have F: "set bft_ids - {''buddy-00004''} = bft_honest" by (auto simp: bft_ids_def bft_honest_def)
  have "id_ok h" if "h \<in> bft_honest" for h
  proof -
    have "list_all id_ok (take 3 bft_ids)" by code_simp
    with that show ?thesis by (simp add: list_all_iff bft_honest_def)
  qed
  moreover have "map bi_ID (nd_buddies (bft_node_of h)) = bft_ids" "\<forall>b \<in> set (nd_buddies (bft_node_of h)). bi_PublicKey b = bft_pk (bi_ID b)"
    "cf_RequireSignatures (nd_config (bft_node_of h))" "permuting (ev_order (nd_env (bft_node_of h)))" for h
    by (auto simp: bft_node_of_def Let_def DefaultConfig_def permuting_def bft_ids_def)
  moreover have "unforgeable bft_crypto (bft_pk h) {prepare_bytes (bft_prepare h), commit_bytes (bft_commit h)}" if "h \<in> bft_honest" for h
    using that by (auto simp: unforgeable_def bft_crypto_def bft_honest_def bft_ids_def bft_pk_def)
  moreover have "\<forall>x \<in> {prepare_bytes (bft_prepare h), commit_bytes (bft_commit h)}. own_signed bft_crypto 7 ''0xab'' h (bft_node_of h) x"
    if "h \<in> bft_honest" for h using bft_own_votes [OF that] by (auto simp: own_signed_def)
  moreover have "prepare_bytes m \<noteq> commit_bytes c"
    if c: "h' \<in> bft_honest" "own_commit bft_crypto 7 ''0xab'' h' (bft_node_of h') = Some c" "m \<in> received (ev_prepare_events (nd_env (bft_node_of h)))" for h h' c m
  proof -
    have "commit_bytes c = commit_bytes (bft_commit h')" using bft_own_votes(2) [OF c(1)] c(2) by auto
    moreover obtain x where "m = bft_prepare x" using c(3) by (auto simp: received_def bft_node_of_def Let_def)
    ultimately show ?thesis
      by (simp add: prepare_bytes_def commit_bytes_def vote_bytes_def bft_prepare_def bft_commit_def str_bytes_def PrepareVersionV1_def CommitVersionV1_def)
  qed
  ultimately show ?thesis unfolding committee_def F by (auto simp: bft_ids_def quorum_defs)
qed

lemma bft_run_ok:
  assumes "h \<in> bft_honest"
  obtains res where "bft_run h = Some (Inr res)" "r_Decision res = Accept"
  by (rule good_run_result [OF bft_good_run [OF assms]]) (auto simp: bft_run_def)

subsection \<open>Properties\<close>

text \<open>
  C10. Agreement and validity of the two-phase vote: in a committee with at most
  \<^verbatim>\<open>ByzantineTolerance\<close> arbitrary members, on any network, two correct nodes that finish a
  round report the same decision, and more correct members than may be faulty proposed it.
  It holds although a COMMIT's proof may carry prepares of other rounds, although the phase
  of a signature is not checked, so that a PREPARE can be presented as a COMMIT, and although
  nodes ban each other independently.
\<close>
theorem bft_agreement:
  assumes "committee C rnd B ids pk F nodes votes rank" "h1 \<in> set ids - F" "h2 \<in> set ids - F"
    and "RunConsensus C (nd_config (nodes h1)) rnd B h1 (nd_buddies (nodes h1)) (nd_signer (nodes h1)) (nd_env (nodes h1)) = Some (Inr res1)"
    and "RunConsensus C (nd_config (nodes h2)) rnd B h2 (nd_buddies (nodes h2)) (nd_signer (nodes h2)) (nd_env (nodes h2)) = Some (Inr res2)"
  shows "r_Decision res1 = r_Decision res2 \<and> r_BlockAccepted res1 = r_BlockAccepted res2 \<and>
    ByzantineTolerance (int (length ids)) < int (card (proposers C rnd B (set ids - F) nodes (r_Decision res1)))"
proof -
  let ?P = "proposers C rnd B (set ids - F) nodes"
  let ?t = "BFTThreshold (int (length ids))" and ?f = "ByzantineTolerance (int (length ids))"
  note r1 = result_proposers [OF assms(1,2,4)] and r2 = result_proposers [OF assms(1,3,5)]
  from assms(1,2) have ids: "distinct ids" "F \<subseteq> set ids" "int (card F) \<le> ?f" "1 \<le> int (length ids)"
    by (auto simp: committee_def Suc_le_eq)
  have thr: "int (length ids) + ?f + 1 \<le> 2 * ?t" "?t \<le> int (length ids) - ?f"
    using bft_quorum.q_intersect [OF ids(4)] bft_quorum.q_available [OF ids(4)] by auto
  have "card (set ids - F) = length ids - card F" using ids(1,2) by (simp add: card_Diff_subset finite_subset distinct_card)
  moreover have "card F \<le> length ids" using card_mono [of "set ids" F] ids(1,2) by (simp add: distinct_card)
  ultimately have honest: "int (card (set ids - F)) = int (length ids) - int (card F)" by simp
  have same: "r_Decision res1 = r_Decision res2"
  proof (rule ccontr)
    assume ne: "r_Decision res1 \<noteq> r_Decision res2"
    have "?P (r_Decision res1) \<inter> ?P (r_Decision res2) = {}" using ne by (auto simp: proposers_def)
    then have "card (?P (r_Decision res1)) + card (?P (r_Decision res2)) = card (?P (r_Decision res1) \<union> ?P (r_Decision res2))"
      by (simp add: card_Un_disjoint proposers_def)
    also have "\<dots> \<le> card (set ids - F)" by (rule card_mono) (auto simp: proposers_def)
    finally show False using r1(1) r2(1) honest thr(1) ids(3) by linarith
  qed
  have "r_BlockAccepted res = (r_Decision res = Accept)"
    if "RunConsensus C cfg rnd B me bs sg env = Some (Inr res)" for cfg me bs sg env res
    using that by (auto simp: RunConsensus_def Let_def split: option.split_asm if_split_asm prod.split_asm sum.split_asm)
  from this [OF assms(4)] this [OF assms(5)] same have "r_BlockAccepted res1 = r_BlockAccepted res2" by simp
  moreover have "?f < int (card (?P (r_Decision res1)))" using r1(1) thr ids(3) by linarith
  ultimately show ?thesis using same by blast
qed

theorem bft_agreement_witness:
  "\<exists>r1 r2. bft_run ''buddy-00001'' = Some (Inr r1) \<and> bft_run ''buddy-00003'' = Some (Inr r2) \<and> r_Decision r1 = r_Decision r2"
proof -
  have h: "''buddy-00001'' \<in> bft_honest" "''buddy-00003'' \<in> bft_honest" "bft_honest = set bft_ids - {''buddy-00004''}"
    by (auto simp: bft_honest_def bft_ids_def)
  obtain r1 where r1: "bft_run ''buddy-00001'' = Some (Inr r1)" by (rule bft_run_ok [OF h(1)])
  obtain r2 where r2: "bft_run ''buddy-00003'' = Some (Inr r2)" by (rule bft_run_ok [OF h(2)])
  from bft_agreement [OF bft_committee h(1,2) [unfolded h(3)] r1 [unfolded bft_run_def] r2 [unfolded bft_run_def]] have "r_Decision r1 = r_Decision r2" by blast
  with r1 r2 show ?thesis by simp
qed

text \<open>
  Every run ends: once both contexts have expired, \<^verbatim>\<open>RunConsensus\<close> has returned a
  result or an error, whatever was received and in whichever order.
\<close>
theorem bft_returns:
  assumes "Expire \<in> set (ev_prepare_events env)" "Expire \<in> set (ev_commit_events env)"
  shows "\<exists>r. RunConsensus C cfg rnd B me bs sg env = Some r"
proof -
  have p: "Expire \<in> set evs \<Longrightarrow> waitForPrepareThreshold C evs e \<noteq> (None, e')" for evs e e'
  proof (induction evs arbitrary: e)
    case (Cons ev evs)
    then show ?case by (cases ev) (auto split: option.split prod.split)
  qed simp
  have c: "Expire \<in> set evs \<Longrightarrow> waitForCommitThreshold C evs e \<noteq> (None, e')" for evs e e'
  proof (induction evs arbitrary: e)
    case (Cons ev evs)
    then show ?case by (cases ev) (auto split: option.split prod.split)
  qed simp
  have "runPrepare C env e \<noteq> (None, e')" "runCommit C env d e \<noteq> (None, e')" for e e' d
    using p [OF assms(1)] c [OF assms(2)]
    by (auto simp: runPrepare_def runCommit_def Let_def split: prod.split_asm sum.split_asm if_split_asm)
  then show ?thesis
    unfolding RunConsensus_def Let_def by (auto split: option.split prod.split sum.split)
qed

theorem bft_returns_witness:
  "\<exists>r. bft_run ''buddy-00004'' = Some r"
proof -
  have "Expire \<in> set (ev_prepare_events (nd_env (bft_node_of ''buddy-00004'')))" "Expire \<in> set (ev_commit_events (nd_env (bft_node_of ''buddy-00004'')))"
    by (simp_all add: bft_node_of_def Let_def)
  from bft_returns [OF this] show ?thesis unfolding bft_run_def .
qed



text \<open>
  The freshness window: a timestamp passes exactly when it is not zero and lies within
  thirty seconds of the clock, or is the one value half the range of \<^verbatim>\<open>int64\<close> away,
  whose difference the negation leaves negative.
\<close>
theorem freshness_exact:
  "isTimestampFresh now ts \<longleftrightarrow> ts \<noteq> 0 \<and> ((\<exists>k \<in> {- 30..30}. ts = now + word_of_int k) \<or> ts = now + 2 ^ 63)"
proof -
  define w where "w = now - ts"
  define k where "k = sint w"
  have k: "- (2 ^ 63) \<le> k" "k < 2 ^ 63" using sint_ge [of w] sint_lt [of w] by (simp_all add: k_def)
  have w: "w = word_of_int k" by (simp add: k_def)
  then have neg: "- w = word_of_int (- k)" by simp
  have eq: "ts = now + word_of_int j \<longleftrightarrow> k = - j" if "- (2 ^ 63) < j" "j \<le> 2 ^ 63" for j
  proof -
    have "ts = now + word_of_int j \<longleftrightarrow> w = word_of_int (- j)" by (auto simp: w_def algebra_simps)
    also have "\<dots> \<longleftrightarrow> k = - j" using sint_of_word [of "- j"] that w k_def by (metis add.inverse_inverse neg_le_iff_le neg_less_iff_less)
    finally show ?thesis .
  qed
  have "sint (- w) = - k" if "k \<noteq> - (2 ^ 63)" using sint_of_word [of "- k"] that k neg by simp
  moreover have "sint (- w) = k" if "k = - (2 ^ 63)" unfolding neg that by (simp add: int_word_sint)
  ultimately have "isTimestampFresh now ts \<longleftrightarrow> ts \<noteq> 0 \<and> (- 30 \<le> k \<and> k \<le> 30 \<or> k = - (2 ^ 63))"
    using k by (auto simp: isTimestampFresh_def Let_def AllowedTimestampSkew_def k_def simp flip: w_def)
  moreover have "ts = now + 2 ^ 63 \<longleftrightarrow> k = - (2 ^ 63)" using eq [of "2 ^ 63"] by simp
  moreover have "(\<exists>j \<in> {- 30..30}. ts = now + word_of_int j) \<longleftrightarrow> - 30 \<le> k \<and> k \<le> 30"
    using eq by (auto intro!: bexI [of _ "- k"])
  ultimately show ?thesis by blast
qed
end
