(* ===== verification/CRDT.thy ===== *)
theory CRDT
  imports Prelude "HOL-Library.Finite_Map" "HOL-Library.List_Lexorder" "HOL-Library.Char_ord"
begin

text \<open>
  The replicated data types of \<^verbatim>\<open>src/crdt\<close>: vector clocks, the last-writer-wins set
  and the grow-only counter (\<^verbatim>\<open>crdt.go\<close>), the bounded operation log (\<^verbatim>\<open>Heap.go\<close>), the
  in-memory store (\<^verbatim>\<open>MemoryStore.go\<close>) and the engine in front of it
  (\<^verbatim>\<open>CRDT_DBOps.go\<close>, \<^verbatim>\<open>helper.go\<close>).

  Go maps are finite maps, and clocks are values: the code copies a clock before it
  increments it. Where the result of a loop over a map depends on the order of iteration
  the order is an argument. Element order in \<^verbatim>\<open>sort.Strings\<close> is the order of byte strings.
\<close>

subsection \<open>Vector clocks\<close>

type_synonym VectorClock = "(string, u64) fmap"

definition clock_less :: "VectorClock \<Rightarrow> VectorClock \<Rightarrow> bool" where
  "clock_less vc other \<longleftrightarrow> fBex (fmdom vc |\<union>| fmdom other) (\<lambda>node. case fmlookup vc node of
     None \<Rightarrow> True | Some ourTS \<Rightarrow> (case fmlookup other node of None \<Rightarrow> False | Some otherTS \<Rightarrow> ourTS < otherTS))"

definition clock_greater :: "VectorClock \<Rightarrow> VectorClock \<Rightarrow> bool" where
  "clock_greater vc other \<longleftrightarrow> fBex (fmdom vc |\<union>| fmdom other) (\<lambda>node. case fmlookup vc node of
     None \<Rightarrow> False | Some ourTS \<Rightarrow> (case fmlookup other node of None \<Rightarrow> True | Some otherTS \<Rightarrow> ourTS > otherTS))"

definition Compare :: "VectorClock \<Rightarrow> VectorClock \<Rightarrow> int" where
  "Compare vc other =
     (let less = clock_less vc other; greater = clock_greater vc other
      in if \<not> less \<and> \<not> greater then 0 else if less \<and> greater then 0 else if greater then 1 else -1)"

definition clock_merge :: "VectorClock \<Rightarrow> VectorClock \<Rightarrow> VectorClock" where
  "clock_merge vc other = vc ++\<^sub>f fmfilter (\<lambda>node. case fmlookup vc node of None \<Rightarrow> True
     | Some ourTS \<Rightarrow> (case fmlookup other node of None \<Rightarrow> False | Some otherTS \<Rightarrow> otherTS > ourTS)) other"

definition Increment :: "string \<Rightarrow> VectorClock \<Rightarrow> VectorClock" where
  "Increment nodeID vc = (case fmlookup vc nodeID of Some current \<Rightarrow> fmupd nodeID (current + 1) vc | None \<Rightarrow> fmupd nodeID 1 vc)"

definition Prune :: "(string \<Rightarrow> bool) \<Rightarrow> VectorClock \<Rightarrow> VectorClock" where
  "Prune activeNodes vc = fmfilter activeNodes vc"

text \<open>The iteration order of a clock.\<close>

type_synonym clock_order = "VectorClock \<Rightarrow> string list"

definition extractNodeID :: "clock_order \<Rightarrow> VectorClock \<Rightarrow> string" where
  "extractNodeID ord ts =
     fst (foldl (\<lambda>(maxNode, maxTS) node. case fmlookup ts node of None \<Rightarrow> (maxNode, maxTS)
       | Some timestamp \<Rightarrow> if timestamp > maxTS then (node, timestamp) else (maxNode, maxTS)) ([], 0 :: u64) (ord ts))"

definition deterministicMerge :: "VectorClock \<Rightarrow> VectorClock \<Rightarrow> string \<Rightarrow> string \<Rightarrow> VectorClock" where
  "deterministicMerge ts1 ts2 nodeID1 nodeID2 =
     (let compare = Compare ts1 ts2
      in if compare > 0 then ts1 else if compare < 0 then ts2 else if nodeID1 < nodeID2 then ts1 else ts2)"

subsection \<open>Last-writer-wins set\<close>

record lww_set =
  s_Key :: string
  s_Adds :: "(string, VectorClock) fmap"
  s_Removes :: "(string, VectorClock) fmap"
  s_Timestamp :: VectorClock

definition NewLWWSet :: "string \<Rightarrow> lww_set" where
  "NewLWWSet key = \<lparr>s_Key = key, s_Adds = fmempty, s_Removes = fmempty, s_Timestamp = fmempty\<rparr>"

definition set_applyOp :: "string \<Rightarrow> string \<Rightarrow> bool \<Rightarrow> lww_set \<Rightarrow> lww_set" where
  "set_applyOp nodeID element isAdd s =
     (let ts = Increment nodeID (s_Timestamp s)
      in (if isAdd then s\<lparr>s_Adds := fmupd element ts (s_Adds s)\<rparr> else s\<lparr>s_Removes := fmupd element ts (s_Removes s)\<rparr>)
           \<lparr>s_Timestamp := ts\<rparr>)"

definition Contains :: "lww_set \<Rightarrow> string \<Rightarrow> bool" where
  "Contains s element =
     (case fmlookup (s_Adds s) element of
        None \<Rightarrow> False
      | Some addTS \<Rightarrow> (case fmlookup (s_Removes s) element of None \<Rightarrow> True | Some rmTS \<Rightarrow> Compare addTS rmTS > 0))"

definition GetElements :: "lww_set \<Rightarrow> string list" where
  "GetElements s = sorted_list_of_fset (ffilter (Contains s) (fmdom (s_Adds s)))"

definition merge_entry :: "clock_order \<Rightarrow> VectorClock \<Rightarrow> VectorClock \<Rightarrow> VectorClock" where
  "merge_entry ord our ts =
     (let compare = Compare ts our
      in if compare > 0 then ts else if compare < 0 then our
         else deterministicMerge our ts (extractNodeID ord our) (extractNodeID ord ts))"

definition merge_entries ::
  "clock_order \<Rightarrow> (string, VectorClock) fmap \<Rightarrow> (string, VectorClock) fmap \<Rightarrow> (string, VectorClock) fmap" where
  "merge_entries ord ours theirs =
     ours ++\<^sub>f fmmap_keys (\<lambda>e ts. case fmlookup ours e of None \<Rightarrow> ts | Some our \<Rightarrow> merge_entry ord our ts) theirs"

datatype crdt_err = EDifferentTypes | EDifferentKeys | EWrongType | EEmptyNode | EEmptyKey | EEmptyElement | ETooLong | EZeroDelta | EDeltaTooLarge

definition set_merge :: "clock_order \<Rightarrow> lww_set \<Rightarrow> lww_set \<Rightarrow> crdt_err + lww_set" where
  "set_merge ord s oth =
     (if s_Key s \<noteq> s_Key oth then Inl EDifferentKeys
      else Inr \<lparr>s_Key = s_Key s, s_Adds = merge_entries ord (s_Adds s) (s_Adds oth),
        s_Removes = merge_entries ord (s_Removes s) (s_Removes oth), s_Timestamp = clock_merge (s_Timestamp s) (s_Timestamp oth)\<rparr>)"

subsection \<open>Grow-only counter\<close>

record g_counter =
  g_Key :: string
  g_Counters :: "(string, u64) fmap"
  g_Timestamp :: VectorClock

definition NewCounter :: "string \<Rightarrow> g_counter" where
  "NewCounter key = \<lparr>g_Key = key, g_Counters = fmempty, g_Timestamp = fmempty\<rparr>"

definition add_count :: "string \<Rightarrow> u64 \<Rightarrow> (string, u64) fmap \<Rightarrow> (string, u64) fmap" where
  "add_count nodeID v m = fmupd nodeID ((case fmlookup m nodeID of None \<Rightarrow> 0 | Some x \<Rightarrow> x) + v) m"

definition counter_Increment :: "string \<Rightarrow> u64 \<Rightarrow> g_counter \<Rightarrow> g_counter" where
  "counter_Increment nodeID v c =
     c\<lparr>g_Counters := add_count nodeID v (g_Counters c), g_Timestamp := Increment nodeID (g_Timestamp c)\<rparr>"

definition IncrementWithTimestamp :: "string \<Rightarrow> u64 \<Rightarrow> VectorClock \<Rightarrow> g_counter \<Rightarrow> g_counter" where
  "IncrementWithTimestamp nodeID v ts c =
     c\<lparr>g_Counters := add_count nodeID v (g_Counters c),
       g_Timestamp := (if ts \<noteq> fmempty then clock_merge (g_Timestamp c) ts else Increment nodeID (g_Timestamp c))\<rparr>"

definition counter_Value :: "g_counter \<Rightarrow> u64" where
  "counter_Value c = (\<Sum>n \<in> fset (fmdom (g_Counters c)). case fmlookup (g_Counters c) n of None \<Rightarrow> 0 | Some v \<Rightarrow> v)"

definition counter_merge :: "g_counter \<Rightarrow> g_counter \<Rightarrow> crdt_err + g_counter" where
  "counter_merge c oth =
     (if g_Key c \<noteq> g_Key oth then Inl EDifferentKeys
      else Inr \<lparr>g_Key = g_Key c, g_Counters = clock_merge (g_Counters c) (g_Counters oth),
        g_Timestamp = clock_merge (g_Timestamp c) (g_Timestamp oth)\<rparr>)"

datatype crdt = LWWSet lww_set | Counter g_counter

fun crdt_key :: "crdt \<Rightarrow> string" where
  "crdt_key (LWWSet s) = s_Key s"
| "crdt_key (Counter c) = g_Key c"

fun crdt_Merge :: "clock_order \<Rightarrow> crdt \<Rightarrow> crdt \<Rightarrow> crdt_err + crdt" where
  "crdt_Merge ord (LWWSet s) (LWWSet oth) = (case set_merge ord s oth of Inl e \<Rightarrow> Inl e | Inr r \<Rightarrow> Inr (LWWSet r))"
| "crdt_Merge ord (Counter c) (Counter oth) = (case counter_merge c oth of Inl e \<Rightarrow> Inl e | Inr r \<Rightarrow> Inr (Counter r))"
| "crdt_Merge ord _ _ = Inl EDifferentTypes"

subsection \<open>Operation log\<close>

datatype op_kind = OpAdd | OpRemove | OpCounterInc | OpUnknown

record crdt_op =
  op_Key :: string
  op_Kind :: op_kind
  op_NodeID :: string
  op_Element :: string
  op_Value :: u64
  op_TS :: VectorClock

definition approxSize :: "crdt_op \<Rightarrow> int" where
  "approxSize op =
     80 + (16 + int (length (op_Key op))) + (16 + int (length (op_NodeID op))) + (16 + int (length (op_Element op))) + (8 + 8)
     + (\<Sum>nodeID \<in> fset (fmdom (op_TS op)). 16 + int (length nodeID) + 8 + 8) + int (fcard (fmdom (op_TS op))) * 2"

record op_heap =
  h_ops :: "crdt_op list"
  h_bytes :: int
  h_capBytes :: int

definition NewOpHeap :: "int \<Rightarrow> op_heap" where
  "NewOpHeap capBytes = \<lparr>h_ops = [], h_bytes = 0, h_capBytes = capBytes\<rparr>"

fun evict :: "crdt_op list \<Rightarrow> int \<Rightarrow> int \<Rightarrow> crdt_op list \<times> crdt_op list \<times> int" where
  "evict [] bytes capBytes = ([], [], bytes)"
| "evict (old # ops) bytes capBytes =
     (if bytes > capBytes
      then case evict ops (bytes - approxSize old) capBytes of (evicted, rest, b) \<Rightarrow> (old # evicted, rest, b)
      else ([], old # ops, bytes))"

definition heap_Append :: "crdt_op \<Rightarrow> op_heap \<Rightarrow> crdt_op list \<times> op_heap" where
  "heap_Append op h =
     (case evict (h_ops h @ [op]) (h_bytes h + approxSize op) (h_capBytes h) of
        (evicted, ops, bytes) \<Rightarrow> (evicted, h\<lparr>h_ops := ops, h_bytes := bytes\<rparr>))"

subsection \<open>Memory store and engine\<close>

record mem_store =
  objects :: "(string, crdt) fmap"
  ops :: op_heap
  TotalOpsAppended :: u64
  TotalOpsEvicted :: u64

definition NewMemStore :: "int \<Rightarrow> mem_store" where
  "NewMemStore maxBytes = \<lparr>objects = fmempty, ops = NewOpHeap maxBytes, TotalOpsAppended = 0, TotalOpsEvicted = 0\<rparr>"

definition getOrCreateSet :: "string \<Rightarrow> mem_store \<Rightarrow> lww_set option" where
  "getOrCreateSet key s =
     (case fmlookup (objects s) key of None \<Rightarrow> Some (NewLWWSet key) | Some (LWWSet st) \<Rightarrow> Some st | Some (Counter _) \<Rightarrow> None)"

definition getOrCreateCounter :: "string \<Rightarrow> mem_store \<Rightarrow> g_counter option" where
  "getOrCreateCounter key s =
     (case fmlookup (objects s) key of None \<Rightarrow> Some (NewCounter key) | Some (Counter c) \<Rightarrow> Some c | Some (LWWSet _) \<Rightarrow> None)"

definition applySetOp :: "string \<Rightarrow> string \<Rightarrow> bool \<Rightarrow> VectorClock \<Rightarrow> lww_set \<Rightarrow> lww_set" where
  "applySetOp nodeID element isAdd ts st =
     (let ts = (if ts = fmempty then Increment nodeID (s_Timestamp st) else ts)
      in (if isAdd then st\<lparr>s_Adds := fmupd element ts (s_Adds st)\<rparr> else st\<lparr>s_Removes := fmupd element ts (s_Removes st)\<rparr>)
           \<lparr>s_Timestamp := clock_merge (s_Timestamp st) ts\<rparr>)"

definition put_object :: "string \<Rightarrow> crdt \<Rightarrow> mem_store \<Rightarrow> mem_store" where
  "put_object key x s = s\<lparr>objects := fmupd key x (objects s)\<rparr>"

definition apply_op :: "crdt_op \<Rightarrow> mem_store \<Rightarrow> crdt_err + mem_store" where
  "apply_op op s =
     (case op_Kind op of
        OpAdd \<Rightarrow> (case getOrCreateSet (op_Key op) s of None \<Rightarrow> Inl EWrongType
          | Some st \<Rightarrow> Inr (put_object (op_Key op) (LWWSet (applySetOp (op_NodeID op) (op_Element op) True (op_TS op) st)) s))
      | OpRemove \<Rightarrow> (case getOrCreateSet (op_Key op) s of None \<Rightarrow> Inl EWrongType
          | Some st \<Rightarrow> Inr (put_object (op_Key op) (LWWSet (applySetOp (op_NodeID op) (op_Element op) False (op_TS op) st)) s))
      | OpCounterInc \<Rightarrow> (case getOrCreateCounter (op_Key op) s of None \<Rightarrow> Inl EWrongType
          | Some c \<Rightarrow> Inr (put_object (op_Key op) (Counter (IncrementWithTimestamp (op_NodeID op) (op_Value op) (op_TS op) c)) s))
      | OpUnknown \<Rightarrow> Inr s)"

definition AppendOp :: "crdt_op \<Rightarrow> mem_store \<Rightarrow> crdt_err option \<times> mem_store" where
  "AppendOp op s =
     (case apply_op op s of
        Inl e \<Rightarrow> (Some e, s)
      | Inr s \<Rightarrow>
          (case heap_Append op (ops s) of (evicted, h) \<Rightarrow>
             (None, s\<lparr>ops := h, TotalOpsEvicted := TotalOpsEvicted s + of_nat (length evicted),
                TotalOpsAppended := TotalOpsAppended s + 1\<rparr>)))"

definition GetSetElements :: "mem_store \<Rightarrow> string \<Rightarrow> string list option" where
  "GetSetElements s key =
     (case fmlookup (objects s) key of Some (LWWSet st) \<Rightarrow> Some (GetElements st) | _ \<Rightarrow> None)"

definition GetCounterValue :: "mem_store \<Rightarrow> string \<Rightarrow> u64 option" where
  "GetCounterValue s key =
     (case fmlookup (objects s) key of Some (Counter c) \<Rightarrow> Some (counter_Value c) | _ \<Rightarrow> None)"

definition validateInput :: "string \<Rightarrow> string \<Rightarrow> string \<Rightarrow> crdt_err option" where
  "validateInput nodeID key element =
     (if TrimSpace nodeID = [] then Some EEmptyNode
      else if TrimSpace key = [] then Some EEmptyKey
      else if TrimSpace element = [] then Some EEmptyElement
      else if length nodeID > 256 then Some ETooLong
      else if length key > 256 then Some ETooLong
      else if length element > 1024 then Some ETooLong
      else None)"

definition validateCounterInput :: "string \<Rightarrow> string \<Rightarrow> u64 \<Rightarrow> crdt_err option" where
  "validateCounterInput nodeID key delta =
     (if TrimSpace nodeID = [] then Some EEmptyNode
      else if TrimSpace key = [] then Some EEmptyKey
      else if delta = 0 then Some EZeroDelta
      else if delta > 1000000 then Some EDeltaTooLarge
      else if length nodeID > 256 then Some ETooLong
      else if length key > 256 then Some ETooLong
      else None)"

definition LWWAdd :: "string \<Rightarrow> string \<Rightarrow> string \<Rightarrow> VectorClock \<Rightarrow> mem_store \<Rightarrow> crdt_err option \<times> mem_store" where
  "LWWAdd nodeID key element ts s =
     (case validateInput nodeID key element of Some e \<Rightarrow> (Some e, s)
      | None \<Rightarrow> AppendOp \<lparr>op_Key = key, op_Kind = OpAdd, op_NodeID = nodeID, op_Element = element, op_Value = 0, op_TS = ts\<rparr> s)"

definition LWWRemove :: "string \<Rightarrow> string \<Rightarrow> string \<Rightarrow> VectorClock \<Rightarrow> mem_store \<Rightarrow> crdt_err option \<times> mem_store" where
  "LWWRemove nodeID key element ts s =
     (case validateInput nodeID key element of Some e \<Rightarrow> (Some e, s)
      | None \<Rightarrow> AppendOp \<lparr>op_Key = key, op_Kind = OpRemove, op_NodeID = nodeID, op_Element = element, op_Value = 0, op_TS = ts\<rparr> s)"

definition CounterInc :: "string \<Rightarrow> string \<Rightarrow> u64 \<Rightarrow> VectorClock \<Rightarrow> mem_store \<Rightarrow> crdt_err option \<times> mem_store" where
  "CounterInc nodeID key delta ts s =
     (case validateCounterInput nodeID key delta of Some e \<Rightarrow> (Some e, s)
      | None \<Rightarrow> AppendOp \<lparr>op_Key = key, op_Kind = OpCounterInc, op_NodeID = nodeID, op_Element = [], op_Value = delta, op_TS = ts\<rparr> s)"

definition ApplyMergedCRDT :: "string \<Rightarrow> crdt \<Rightarrow> mem_store \<Rightarrow> mem_store" where
  "ApplyMergedCRDT key x s = put_object key x s"

subsection \<open>Synchronisation of two nodes\<close>

fun with_key :: "string \<Rightarrow> crdt \<Rightarrow> crdt" where
  "with_key key (LWWSet s) = LWWSet (s\<lparr>s_Key := key\<rparr>)"
| "with_key key (Counter c) = Counter (c\<lparr>g_Key := key\<rparr>)"

definition GetAllCRDTs :: "mem_store \<Rightarrow> (string, crdt) fmap" where
  "GetAllCRDTs s = fmmap_keys with_key (objects s)"

fun sync_into :: "clock_order \<Rightarrow> (string, crdt) fmap \<Rightarrow> (string, crdt) fmap \<Rightarrow> string list \<Rightarrow> mem_store \<Rightarrow> crdt_err option \<times> mem_store" where
  "sync_into ord ours theirs [] s = (None, s)"
| "sync_into ord ours theirs (key # keys) s =
     (case fmlookup theirs key of
        None \<Rightarrow> sync_into ord ours theirs keys s
      | Some their \<Rightarrow>
          (case fmlookup ours key of
             None \<Rightarrow> sync_into ord ours theirs keys (ApplyMergedCRDT key their s)
           | Some our \<Rightarrow>
               (case crdt_Merge ord our their of
                  Inl e \<Rightarrow> (Some e, s)
                | Inr merged \<Rightarrow> sync_into ord ours theirs keys (ApplyMergedCRDT key merged s))))"

definition SyncWithNode ::
  "clock_order \<Rightarrow> ((string, crdt) fmap \<Rightarrow> string list) \<Rightarrow> mem_store \<Rightarrow> mem_store \<Rightarrow> crdt_err option \<times> mem_store \<times> mem_store" where
  "SyncWithNode ord keys local remote =
     (let localCRDTs = GetAllCRDTs local; remoteCRDTs = GetAllCRDTs remote
      in case sync_into ord localCRDTs remoteCRDTs (keys remoteCRDTs) local of
           (Some e, local) \<Rightarrow> (Some e, local, remote)
         | (None, local) \<Rightarrow>
             (case sync_into ord remoteCRDTs localCRDTs (keys localCRDTs) remote of (e, remote) \<Rightarrow> (e, local, remote)))"

end
