(* ===== verification/CRDTProps.thy ===== *)
theory CRDTProps
  imports CRDTLaws
begin

text \<open>
  Properties of the replicated types, the operation log and the store: what every
  operation keeps, what a node reads after its own writes, which types converge and
  which do not.
\<close>

subsection \<open>Well-formed objects and stores\<close>

definition set_wf :: "lww_set \<Rightarrow> bool" where
  "set_wf s \<longleftrightarrow> (\<forall>e ts. fmlookup (s_Adds s) e = Some ts \<longrightarrow> clock_le ts (s_Timestamp s))
     \<and> (\<forall>e ts. fmlookup (s_Removes s) e = Some ts \<longrightarrow> clock_le ts (s_Timestamp s))"

fun crdt_wf :: "crdt \<Rightarrow> bool" where
  "crdt_wf (LWWSet s) = set_wf s"
| "crdt_wf (Counter c) = True"

definition heap_wf :: "op_heap \<Rightarrow> bool" where
  "heap_wf h \<longleftrightarrow> h_bytes h = sum_list (map approxSize (h_ops h)) \<and> (h_bytes h \<le> h_capBytes h \<or> h_ops h = [])"

definition store_wf :: "mem_store \<Rightarrow> bool" where
  "store_wf s \<longleftrightarrow> heap_wf (ops s) \<and> (\<forall>key x. fmlookup (objects s) key = Some x \<longrightarrow> crdt_key x = key \<and> crdt_wf x)"

lemma evict_spec:
  assumes "evict xs b k = (gone, rest, b')" "b = sum_list (map approxSize xs)"
  shows "gone @ rest = xs \<and> b' = sum_list (map approxSize rest) \<and> (b' \<le> k \<or> rest = [])"
  using assms
proof (induction xs arbitrary: b gone)
  case (Cons x xs)
  show ?case
  proof (cases "b > k")
    case True
    obtain g r c where e: "evict xs (b - approxSize x) k = (g, r, c)" by (cases "evict xs (b - approxSize x) k") auto
    with True Cons.prems(1) have "gone = x # g" "evict xs (b - approxSize x) k = (g, rest, b')" by auto
    with Cons.IH [of "b - approxSize x" g] Cons.prems(2) show ?thesis by auto
  qed (use Cons.prems in auto)
qed auto

lemma heap_Append_spec:
  assumes "heap_Append op h = (gone, h')" "heap_wf h"
  shows "gone @ h_ops h' = h_ops h @ [op]" "heap_wf h'" "h_capBytes h' = h_capBytes h"
proof -
  obtain g r b where e: "evict (h_ops h @ [op]) (h_bytes h + approxSize op) (h_capBytes h) = (g, r, b)"
    by (cases "evict (h_ops h @ [op]) (h_bytes h + approxSize op) (h_capBytes h)") auto
  have "h_bytes h + approxSize op = sum_list (map approxSize (h_ops h @ [op]))" using assms(2) by (simp add: heap_wf_def)
  note s = evict_spec [OF e this]
  show "gone @ h_ops h' = h_ops h @ [op]" "heap_wf h'" "h_capBytes h' = h_capBytes h"
    using assms(1) e s by (auto simp: heap_Append_def heap_wf_def)
qed

lemma set_wf_new [simp]: "set_wf (NewLWWSet k)"
  by (simp add: set_wf_def NewLWWSet_def)

lemma applySetOp_wf: "set_wf st \<Longrightarrow> set_wf (applySetOp n e isAdd ts st)"
  by (auto simp: set_wf_def applySetOp_def Let_def)

lemma applySetOp_key [simp]: "s_Key (applySetOp n e isAdd ts st) = s_Key st"
  by (simp add: applySetOp_def Let_def)


lemma merge_entries_lookup:
  "fmlookup (merge_entries ord a b) e = (case fmlookup b e of None \<Rightarrow> fmlookup a e
     | Some ts \<Rightarrow> Some (case fmlookup a e of None \<Rightarrow> ts | Some our \<Rightarrow> merge_entry ord our ts))"
  by (auto simp: merge_entries_def fmlookup_dom_iff split: option.splits)



lemma apply_op_wf:
  assumes "apply_op op s = Inr s'" "store_wf s"
  shows "store_wf s' \<and> ops s' = ops s"
proof -
  have new: "set_wf (NewLWWSet k)" for k by (simp add: set_wf_def NewLWWSet_def)
  show ?thesis
    using assms
    by (auto simp: apply_op_def store_wf_def put_object_def getOrCreateSet_def getOrCreateCounter_def IncrementWithTimestamp_def
        NewCounter_def NewLWWSet_def intro!: applySetOp_wf new [unfolded NewLWWSet_def] split: op_kind.splits option.splits crdt.splits if_splits)
      fastforce+
qed

lemma AppendOp_wf:
  assumes "store_wf s"
  shows "store_wf (snd (AppendOp op s)) \<and> h_capBytes (ops (snd (AppendOp op s))) = h_capBytes (ops s)"
proof (cases "apply_op op s")
  case (Inr s1)
  obtain g h where h: "heap_Append op (ops s) = (g, h)" by fastforce
  note s1 = apply_op_wf [OF Inr assms]
  from heap_Append_spec(2,3) [OF h] assms have "heap_wf h" "h_capBytes h = h_capBytes (ops s)" by (auto simp: store_wf_def)
  with s1 show ?thesis by (simp add: AppendOp_def Inr h store_wf_def)
qed (use assms in \<open>simp add: AppendOp_def\<close>)

lemma api_wf:
  assumes "store_wf s"
  shows "store_wf (snd (LWWAdd n k e ts s)) \<and> h_capBytes (ops (snd (LWWAdd n k e ts s))) = h_capBytes (ops s)"
    "store_wf (snd (LWWRemove n k e ts s)) \<and> h_capBytes (ops (snd (LWWRemove n k e ts s))) = h_capBytes (ops s)"
    "store_wf (snd (CounterInc n k d ts s)) \<and> h_capBytes (ops (snd (CounterInc n k d ts s))) = h_capBytes (ops s)"
  using AppendOp_wf [OF assms] assms by (auto simp: LWWAdd_def LWWRemove_def CounterInc_def split: option.splits)








subsection \<open>Reads\<close>

definition visible :: "mem_store \<Rightarrow> string \<Rightarrow> string \<Rightarrow> bool" where
  "visible s key x = (case GetSetElements s key of None \<Rightarrow> False | Some es \<Rightarrow> x \<in> set es)"

lemma set_GetElements: "x \<in> set (GetElements st) \<longleftrightarrow> Contains st x"
  by (auto simp: GetElements_def Contains_def fmlookup_dom_iff split: option.splits)

lemma visible_object:
  "visible s key x = (case fmlookup (objects s) key of Some (LWWSet st) \<Rightarrow> Contains st x | _ \<Rightarrow> False)"
  by (auto simp: visible_def GetSetElements_def set_GetElements split: option.splits crdt.splits)

lemma applySetOp_Contains:
  assumes "set_wf st" "fmlookup (s_Timestamp st) n \<noteq> Some (-1)"
  shows "Contains (applySetOp n e isAdd fmempty st) x = (if x = e then isAdd else Contains st x)"
proof -
  note up = Increment_above [OF assms(2)]
  have "Compare (Increment n (s_Timestamp st)) ts > 0" "\<not> Compare ts (Increment n (s_Timestamp st)) > 0"
    if "clock_le ts (s_Timestamp st)" for ts
    using up that clock_le_trans by (auto simp: Compare_iff)
  then show ?thesis
    using assms(1) by (auto simp: Contains_def applySetOp_def Let_def set_wf_def split: option.splits)
qed

lemma api_add:
  assumes "LWWAdd n k e ts s = (None, s')"
  obtains st where "getOrCreateSet k s = Some st" "objects s' = fmupd k (LWWSet (applySetOp n e True ts st)) (objects s)"
  using assms
  by (auto simp: LWWAdd_def AppendOp_def apply_op_def put_object_def split: option.splits sum.splits prod.splits)

lemma api_remove:
  assumes "LWWRemove n k e ts s = (None, s')"
  obtains st where "getOrCreateSet k s = Some st" "objects s' = fmupd k (LWWSet (applySetOp n e False ts st)) (objects s)"
  using assms
  by (auto simp: LWWRemove_def AppendOp_def apply_op_def put_object_def split: option.splits sum.splits prod.splits)

subsection \<open>Counters\<close>

definition merge_counters :: "string \<Rightarrow> g_counter list \<Rightarrow> crdt_err + g_counter" where
  "merge_counters key cs = foldl (\<lambda>acc c. case acc of Inl e \<Rightarrow> Inl e | Inr a \<Rightarrow> counter_merge a c) (Inr (NewCounter key)) cs"

definition pair_join :: "(string, u64) fmap \<times> VectorClock \<Rightarrow> (string, u64) fmap \<times> VectorClock \<Rightarrow> (string, u64) fmap \<times> VectorClock" where
  "pair_join a b = (clock_merge (fst a) (fst b), clock_merge (snd a) (snd b))"

interpretation counters: replica pair_join "(fmempty, fmempty)"
  by unfold_locales (auto simp: pair_join_def clock_merge_assoc intro: clock_merge_commute)

lemma merge_counters_join:
  assumes "\<forall>c \<in> set cs. g_Key c = key"
  shows "merge_counters key cs = (let j = foldl pair_join (fmempty, fmempty) (map (\<lambda>c. (g_Counters c, g_Timestamp c)) cs)
    in Inr \<lparr>g_Key = key, g_Counters = fst j, g_Timestamp = snd j\<rparr>)"
proof -
  have "foldl (\<lambda>acc c. case acc of Inl e \<Rightarrow> Inl e | Inr a \<Rightarrow> counter_merge a c) (Inr \<lparr>g_Key = key, g_Counters = fst p, g_Timestamp = snd p\<rparr>) cs
    = (let j = foldl pair_join p (map (\<lambda>c. (g_Counters c, g_Timestamp c)) cs) in Inr \<lparr>g_Key = key, g_Counters = fst j, g_Timestamp = snd j\<rparr>)" for p
    using assms by (induction cs arbitrary: p) (auto simp: counter_merge_def pair_join_def Let_def)
  from this [of "(fmempty, fmempty)"] show ?thesis by (simp add: merge_counters_def NewCounter_def)
qed

subsection \<open>Sets\<close>

text \<open>Clocks that are concurrent and name the same node cannot be told apart by the tie-breaker.\<close>

definition iterates :: "clock_order \<Rightarrow> bool" where
  "iterates ord \<longleftrightarrow> (\<forall>ts. distinct (ord ts) \<and> set (ord ts) = fset (fmdom ts))"









subsection \<open>Example stores\<close>

definition sorted_order :: clock_order where "sorted_order ts = sorted_list_of_fset (fmdom ts)"

lemma sorted_fset_list: "distinct (sorted_list_of_fset S) \<and> set (sorted_list_of_fset S) = fset S"
  by (simp add: sorted_list_of_fset.rep_eq)

lemma sorted_order_iterates: "iterates sorted_order"
  by (simp add: iterates_def sorted_order_def sorted_fset_list)

definition store1 :: mem_store where "store1 = snd (LWWAdd ''n1'' ''peers'' ''p'' fmempty (NewMemStore 1000))"
definition store2 :: mem_store where "store2 = snd (LWWAdd ''n2'' ''peers'' ''p'' fmempty (NewMemStore 1000))"
definition sorted_keys :: "(string, crdt) fmap \<Rightarrow> string list" where "sorted_keys m = sorted_list_of_fset (fmdom m)"

lemma store_examples:
  "fst (LWWAdd ''n1'' ''peers'' ''q'' fmempty store1) = None" "fst (LWWRemove ''n1'' ''peers'' ''q'' fmempty store1) = None"
  "fst (SyncWithNode sorted_order sorted_keys store1 store2) = None"
  by code_simp+

lemma example_objects:
  "objects store1 = fmap_of_list [(''peers'', LWWSet \<lparr>s_Key = ''peers'', s_Adds = fmap_of_list [(''p'', fmap_of_list [(''n1'', 1)])],
     s_Removes = fmempty, s_Timestamp = fmap_of_list [(''n1'', 1)]\<rparr>)]"
  "objects store2 = fmap_of_list [(''peers'', LWWSet \<lparr>s_Key = ''peers'', s_Adds = fmap_of_list [(''p'', fmap_of_list [(''n2'', 1)])],
     s_Removes = fmempty, s_Timestamp = fmap_of_list [(''n2'', 1)]\<rparr>)]"
  by code_simp+

lemma new_store_wf: "store_wf (NewMemStore cap)"
  by (simp add: store_wf_def NewMemStore_def NewOpHeap_def heap_wf_def)

lemma example_wf: "store_wf store1" "store_wf store2"
  unfolding store1_def store2_def using api_wf(1) [OF new_store_wf] by blast+


subsection \<open>Properties\<close>



text \<open>
  A node reads its own writes: on a well-formed store, after a successful
  \<^verbatim>\<open>LWWAdd\<close> without a timestamp the set shows exactly the added element besides what it
  showed, after \<^verbatim>\<open>LWWRemove\<close> everything but the removed one, and no other key changes,
  as long as the node's own counter is not at its last value.
\<close>
theorem reads_own_writes:
  assumes "store_wf s" "LWWAdd n k e fmempty s = (None, s1)" "LWWRemove n k e fmempty s = (None, s2)"
    and "\<forall>st. fmlookup (objects s) k = Some (LWWSet st) \<longrightarrow> fmlookup (s_Timestamp st) n \<noteq> Some (-1)"
  shows "visible s1 k x = (x = e \<or> visible s k x) \<and> visible s2 k x = (x \<noteq> e \<and> visible s k x) \<and>
    (k' \<noteq> k \<longrightarrow> fmlookup (objects s1) k' = fmlookup (objects s) k' \<and> fmlookup (objects s2) k' = fmlookup (objects s) k')"
proof -
  obtain st where st: "getOrCreateSet k s = Some st" "objects s1 = fmupd k (LWWSet (applySetOp n e True fmempty st)) (objects s)"
    by (rule api_add [OF assms(2)])
  obtain st' where st': "getOrCreateSet k s = Some st'" "objects s2 = fmupd k (LWWSet (applySetOp n e False fmempty st')) (objects s)"
    by (rule api_remove [OF assms(3)])
  have wf: "set_wf st"
    using st(1) assms(1) by (fastforce simp: getOrCreateSet_def store_wf_def split: option.splits crdt.splits)
  have clock: "fmlookup (s_Timestamp st) n \<noteq> Some (-1)" and same: "Contains st x = visible s k x"
    using st(1) assms(4) by (auto simp: getOrCreateSet_def visible_object NewLWWSet_def Contains_def split: option.splits crdt.splits)
  show ?thesis
    using st st' applySetOp_Contains [OF wf clock] same by (auto simp: visible_object)
qed

theorem reads_own_writes_witness:
  "visible (snd (LWWAdd ''n1'' ''peers'' ''q'' fmempty store1)) ''peers'' ''q'' \<and>
   \<not> visible (snd (LWWRemove ''n1'' ''peers'' ''q'' fmempty store1)) ''peers'' ''q''"
proof -
  have add: "LWWAdd ''n1'' ''peers'' ''q'' fmempty store1 = (None, snd (LWWAdd ''n1'' ''peers'' ''q'' fmempty store1))"
    and rem: "LWWRemove ''n1'' ''peers'' ''q'' fmempty store1 = (None, snd (LWWRemove ''n1'' ''peers'' ''q'' fmempty store1))"
    using store_examples(1,2) by (simp_all add: prod_eq_iff)
  have "\<forall>st. fmlookup (objects store1) ''peers'' = Some (LWWSet st) \<longrightarrow> fmlookup (s_Timestamp st) ''n1'' \<noteq> Some (-1)"
    by (auto simp: example_objects)
  from reads_own_writes [OF example_wf(1) add rem this, of "''q''"] show ?thesis by blast
qed

text \<open>
  C34. Counters converge: replicas that receive the same counter states in any order and any
  number of times end in the same state, the least one that is above all of them.
\<close>
theorem counters_converge:
  assumes "set cs = set ds" "\<forall>c \<in> set cs. g_Key c = key"
  shows "merge_counters key cs = merge_counters key ds \<and> (\<exists>r. merge_counters key cs = Inr r \<and>
    (\<forall>u. clock_le (g_Counters r) u \<longleftrightarrow> (\<forall>c \<in> set cs. clock_le (g_Counters c) u)))"
proof -
  let ?p = "\<lambda>c. (g_Counters c, g_Timestamp c)"
  have lub: "clock_le (fst (foldl pair_join j ps)) u \<longleftrightarrow> clock_le (fst j) u \<and> (\<forall>p \<in> set ps. clock_le (fst p) u)" for j ps u
    by (induction ps arbitrary: j) (auto simp: pair_join_def intro: clock_merge_least dest: clock_le_trans [OF clock_merge_upper(1)] clock_le_trans [OF clock_merge_upper(2)])
  have "set (map ?p cs) = set (map ?p ds)" using assms(1) by auto
  from counters.convergence [OF this] show ?thesis
    using assms lub [of "(fmempty, fmempty)" "map ?p cs"]
    by (simp add: merge_counters_join Let_def) (simp add: clock_le_def)
qed

theorem counters_converge_witness:
  "merge_counters ''k'' [counter_Increment ''a'' 2 (NewCounter ''k''), counter_Increment ''b'' 3 (NewCounter ''k'')]
   = merge_counters ''k'' [counter_Increment ''b'' 3 (NewCounter ''k''), counter_Increment ''a'' 2 (NewCounter ''k''),
       counter_Increment ''b'' 3 (NewCounter ''k'')]"
proof -
  have "g_Key (counter_Increment n v (NewCounter ''k'')) = ''k''" for n v by (simp add: counter_Increment_def NewCounter_def)
  then show ?thesis by (intro counters_converge [THEN conjunct1]) auto
qed



definition div_a :: VectorClock where "div_a = fmap_of_list [(''A'', 5)]"
definition div_b :: VectorClock where "div_b = fmap_of_list [(''A'', 5), (''Z'', 9)]"
definition div_c :: VectorClock where "div_c = fmap_of_list [(''M'', 7)]"
definition div_r :: VectorClock where "div_r = fmap_of_list [(''M'', 6)]"

definition div_set :: "VectorClock \<Rightarrow> lww_set" where
  "div_set ts = \<lparr>s_Key = ''k'', s_Adds = fmap_of_list [(''e'', ts)], s_Removes = fmap_of_list [(''e'', div_r)],
     s_Timestamp = clock_merge ts div_r\<rparr>"

lemma div_compare:
  "Compare div_b div_a = 1" "Compare div_c div_b = 0" "Compare div_b div_c = 0" "Compare div_a div_c = 0" "Compare div_c div_a = 0"
  "Compare div_c div_r = 1" "Compare div_a div_r = 0"
  by code_simp+

lemma list_of_two:
  assumes "distinct xs" "set xs = {a, b}" "a \<noteq> b"
  shows "xs = [a, b] \<or> xs = [b, a]"
proof -
  have "length xs = 2" using distinct_card [OF assms(1)] assms(2,3) by simp
  then obtain x y where "xs = [x, y]" by (auto simp: numeral_2_eq_2 length_Suc_conv)
  with assms show ?thesis by (auto simp: doubleton_eq_iff)
qed

lemma div_nodes:
  assumes "iterates ord"
  shows "extractNodeID ord div_a = ''A''" "extractNodeID ord div_c = ''M''" "extractNodeID ord div_b = ''Z''"
proof -
  have one: "ord ts = [n]" if "fset (fmdom ts) = {n}" for ts n
  proof -
    have d: "distinct (ord ts)" "set (ord ts) = {n}" using assms that by (auto simp: iterates_def)
    then have "length (ord ts) = 1" using distinct_card [OF d(1)] by simp
    with d(2) show ?thesis by (cases "ord ts") auto
  qed
  have b: "ord div_b = [''A'', ''Z''] \<or> ord div_b = [''Z'', ''A'']"
    by (rule list_of_two) (use assms in \<open>auto simp: iterates_def div_b_def\<close>)
  show "extractNodeID ord div_a = ''A''" "extractNodeID ord div_c = ''M''"
    using one [of div_a "''A''"] one [of div_c "''M''"] by (simp_all add: div_a_def div_c_def extractNodeID_def)
  show "extractNodeID ord div_b = ''Z''" using b by (auto simp: extractNodeID_def div_b_def)
qed

lemma div_merge:
  assumes "iterates ord"
  shows "merge_entry ord div_a div_b = div_b" "merge_entry ord div_b div_c = div_c" "merge_entry ord div_a div_c = div_a"
    "merge_entry ord div_r div_r = div_r"
  by (auto simp: merge_entry_def deterministicMerge_def Let_def div_compare div_nodes [OF assms] Compare_iff)

lemma div_set_merge:
  assumes "iterates ord" "merge_entry ord x y = z"
  shows "set_merge ord (div_set x\<lparr>s_Timestamp := t\<rparr>) (div_set y\<lparr>s_Timestamp := u\<rparr>) = Inr (div_set z\<lparr>s_Timestamp := clock_merge t u\<rparr>)"
proof -
  have "merge_entries ord (fmap_of_list [(''e'', a)]) (fmap_of_list [(''e'', b)]) = fmap_of_list [(''e'', merge_entry ord a b)]" for a b
    by (rule fmap_ext) (auto simp: merge_entries_lookup)
  with assms(2) show ?thesis by (simp add: set_merge_def div_set_def div_merge(4) [OF assms(1)])
qed

text \<open>
  The set merge is not associative, so replicas of a last-writer-wins set may never agree:
  there are three well-formed states whose merges in two orders differ in whether an element
  is visible, whatever the iteration order of maps.
\<close>
theorem lww_merge_diverges:
  assumes "iterates ord"
  shows "\<exists>a b c ab bc r1 r2 e. set_wf a \<and> set_wf b \<and> set_wf c \<and> set_merge ord a b = Inr ab \<and> set_merge ord ab c = Inr r1 \<and>
    set_merge ord b c = Inr bc \<and> set_merge ord a bc = Inr r2 \<and> Contains r1 e \<and> \<not> Contains r2 e"
proof -
  let ?s = "\<lambda>x. div_set x\<lparr>s_Timestamp := clock_merge x div_r\<rparr>"
  let ?t = "\<lambda>x. clock_merge x div_r"
  note m = div_set_merge [OF assms div_merge(1) [OF assms], of "?t div_a" "?t div_b"]
    div_set_merge [OF assms div_merge(2) [OF assms], of "clock_merge (?t div_a) (?t div_b)" "?t div_c"]
    div_set_merge [OF assms div_merge(2) [OF assms], of "?t div_b" "?t div_c"]
    div_set_merge [OF assms div_merge(3) [OF assms], of "?t div_a" "clock_merge (?t div_b) (?t div_c)"]
  have wf: "set_wf (?s x)" for x by (auto simp: set_wf_def div_set_def split: if_splits)
  have "Contains (div_set div_c\<lparr>s_Timestamp := t\<rparr>) ''e''" "\<not> Contains (div_set div_a\<lparr>s_Timestamp := t\<rparr>) ''e''" for t
    by (simp_all add: Contains_def div_set_def div_compare)
  then show ?thesis using m wf by blast
qed

theorem lww_merge_diverges_witness:
  "\<exists>a b c ab bc r1 r2 e. set_wf a \<and> set_wf b \<and> set_wf c \<and> set_merge sorted_order a b = Inr ab \<and> set_merge sorted_order ab c = Inr r1 \<and>
    set_merge sorted_order b c = Inr bc \<and> set_merge sorted_order a bc = Inr r2 \<and> Contains r1 e \<and> \<not> Contains r2 e"
  by (rule lww_merge_diverges [OF sorted_order_iterates])

end
