(* ===== verification/BlockValidation.thy ===== *)
theory BlockValidation
  imports BlockStore Security "HOL-Library.List_Lexorder" "HOL-Library.Char_ord"
begin

text \<open>
  The check a committee member runs before it votes: \<^verbatim>\<open>CheckZKBlockValidation\<close>,
  \<^verbatim>\<open>AllChecks\<close> and \<^verbatim>\<open>allChecksWithConn\<close> of \<^verbatim>\<open>src/Security/Security.go\<close>, with the account
  cache of \<^verbatim>\<open>src/Security/security_cache.go\<close>, the bulk read of
  \<^verbatim>\<open>src/DB_OPs/BulkGetAccounts.go\<close> and the identities the sequencer stamps on a block
  (\<^verbatim>\<open>EnrichBlockAccountNonces\<close> of \<^verbatim>\<open>src/DB_OPs/art_ordinal.go\<close>).

  The cache is keyed by \<^verbatim>\<open>Address.Hex\<close>, which is injective; the model keys it by
  address. A pooled connection is the outcome of one client call. A dereference of a
  nil \<^verbatim>\<open>From\<close> or \<^verbatim>\<open>Value\<close> is \<^const>\<open>Panic\<close>.
\<close>

subsection \<open>Bulk reads\<close>

definition GetMultipleAccounts :: "addr list \<Rightarrow> (err + ledger) go" where
  "GetMultipleAccounts addrs =
     (if addrs = [] then ret (Inr Map.empty)
      else sys (\<lambda>oc s. (if oc = Done
        then Inr (fold (\<lambda>k m. case accounts s k of None \<Rightarrow> m | Some acc \<Rightarrow> m(a_Address acc \<mapsto> acc)) addrs Map.empty)
        else Inl EDb, s)))"

subsection \<open>The account cache\<close>

type_synonym security_cache = ledger

definition LoadAccounts :: "addr list \<Rightarrow> security_cache \<Rightarrow> (err + security_cache) go" where
  "LoadAccounts addrs cache =
     (if addrs = [] then ret (Inr cache)
      else attempt (GetMultipleAccounts addrs) (\<lambda>e. ret (Inl e)) (\<lambda>fetched. ret (Inr (cache ++ fetched))))"

definition AddBalance :: "addr \<Rightarrow> int \<Rightarrow> security_cache \<Rightarrow> security_cache" where
  "AddBalance a wei cache =
     (case cache a of None \<Rightarrow> cache
      | Some acc \<Rightarrow> (case big_SetString (a_Balance acc) of None \<Rightarrow> cache
          | Some balance \<Rightarrow> cache(a \<mapsto> acc\<lparr>a_Balance := big_String (balance + wei)\<rparr>)))"

definition SubBalance :: "addr \<Rightarrow> int \<Rightarrow> security_cache \<Rightarrow> security_cache" where
  "SubBalance a wei cache =
     (case cache a of None \<Rightarrow> cache
      | Some acc \<Rightarrow> (case big_SetString (a_Balance acc) of None \<Rightarrow> cache
          | Some balance \<Rightarrow> cache(a \<mapsto> acc\<lparr>a_Balance := big_String (balance - wei)\<rparr>)))"

definition UpdateTxNonce :: "addr \<Rightarrow> u64 \<Rightarrow> security_cache \<Rightarrow> security_cache" where
  "UpdateTxNonce a newNonce cache =
     (case cache a of None \<Rightarrow> cache | Some acc \<Rightarrow> cache(a \<mapsto> acc\<lparr>a_TxNonce := newNonce\<rparr>))"

definition GetTxNonce :: "addr \<Rightarrow> security_cache \<Rightarrow> u64" where
  "GetTxNonce a cache = (case cache a of None \<Rightarrow> 0 | Some acc \<Rightarrow> a_TxNonce acc)"

datatype val_error =
    VNilBlock
  | VNoTransactions
  | VDb err
  | VChainIDNotConfigured
  | VChainIDMissing
  | VChainIDMismatch
  | VTx sec_error
  | VSenderNil
  | VSenderUnknown
  | VReceiverUnknown
  | VBadBalance
  | VInsufficientFunds
  | VNonceTooLow
  | VBlockHash

text \<open>\<open>allowNew\<close> is the package variable \<^verbatim>\<open>AllowNewReceiverAccounts\<close>.\<close>

definition CheckAddressExistWithCache :: "bool \<Rightarrow> transaction \<Rightarrow> security_cache \<Rightarrow> val_error option" where
  "CheckAddressExistWithCache allowNew tx cache =
     (case tx_From tx of
        None \<Rightarrow> Some VSenderNil
      | Some f \<Rightarrow>
          if cache f = None then Some VSenderUnknown
          else (case tx_To tx of
                  None \<Rightarrow> None
                | Some t \<Rightarrow> if \<not> allowNew \<and> cache t = None then Some VReceiverUnknown else None))"

definition CheckBalanceWithCache :: "transaction \<Rightarrow> security_cache \<Rightarrow> (val_error + security_cache) result" where
  "CheckBalanceWithCache tx cache =
     (case tx_From tx of
        None \<Rightarrow> Ret (Inl VSenderNil)
      | Some f \<Rightarrow> (case cache f of
          None \<Rightarrow> Ret (Inl VSenderUnknown)
        | Some sender \<Rightarrow> (case big_SetString (a_Balance sender) of
            None \<Rightarrow> Ret (Inl VBadBalance)
          | Some balance \<Rightarrow> (case tx_Value tx of
              None \<Rightarrow> Panic
            | Some cost \<Rightarrow>
                let gasCost = GasFee (tx_Type tx) (tx_GasLimit tx) (tx_GasPrice tx) (tx_MaxFee tx) (tx_MaxPriorityFee tx);
                    totalCost = cost + gasCost
                in if balance < totalCost then Ret (Inl VInsufficientFunds)
                   else Ret (Inr (let cache1 = SubBalance f totalCost cache
                     in case tx_To tx of None \<Rightarrow> cache1 | Some t \<Rightarrow> AddBalance t cost cache1))))))"

subsection \<open>One transaction\<close>

definition check_chain_id :: "signer_cache \<Rightarrow> transaction \<Rightarrow> val_error option" where
  "check_chain_id signers tx =
     (case expectedChainID signers of
        None \<Rightarrow> Some VChainIDNotConfigured
      | Some expected \<Rightarrow> (case tx_ChainID tx of
          None \<Rightarrow> Some VChainIDMissing
        | Some got \<Rightarrow> if got \<noteq> expected then Some VChainIDMismatch else None))"

definition check_nonce_with_cache :: "transaction \<Rightarrow> security_cache \<Rightarrow> (val_error + security_cache) result" where
  "check_nonce_with_cache tx cache =
     (case tx_From tx of
        None \<Rightarrow> Panic
      | Some f \<Rightarrow> (case cache f of
          None \<Rightarrow> Ret (Inl VSenderUnknown)
        | Some acc \<Rightarrow>
            if tx_Nonce tx < a_TxNonce acc then Ret (Inl VNonceTooLow)
            else Ret (Inr (UpdateTxNonce f (tx_Nonce tx + 1) cache))))"

definition allChecksWithConn ::
  "geth \<Rightarrow> signer_cache \<Rightarrow> bool \<Rightarrow> transaction \<Rightarrow> security_cache \<Rightarrow> (val_error + security_cache) result" where
  "allChecksWithConn G signers allowNew tx cache =
     (case check_chain_id signers tx of Some e \<Rightarrow> Ret (Inl e)
      | None \<Rightarrow> (case CheckTransactionHash G tx of Some e \<Rightarrow> Ret (Inl (VTx e))
      | None \<Rightarrow> (case CheckSignature G signers tx of Some e \<Rightarrow> Ret (Inl (VTx e))
      | None \<Rightarrow> (case CheckAddressExistWithCache allowNew tx cache of Some e \<Rightarrow> Ret (Inl e)
      | None \<Rightarrow> (case CheckBalanceWithCache tx cache of
            Panic \<Rightarrow> Panic
          | Ret (Inl e) \<Rightarrow> Ret (Inl e)
          | Ret (Inr cache1) \<Rightarrow> check_nonce_with_cache tx cache1)))))"

definition AllChecks :: "geth \<Rightarrow> signer_cache \<Rightarrow> bool \<Rightarrow> transaction \<Rightarrow> (val_error + unit) go" where
  "AllChecks G signers allowNew tx =
     (case CheckTransactionValues tx of
        Some e \<Rightarrow> ret (Inl (VTx e))
      | None \<Rightarrow>
          attempt acquire (\<lambda>e. ret (Inl (VDb e))) (\<lambda>_.
          attempt acquire (\<lambda>e. ret (Inl (VDb e))) (\<lambda>_.
          case tx_From tx of
            None \<Rightarrow> go_panic
          | Some f \<Rightarrow>
              attempt (LoadAccounts (f # (case tx_To tx of None \<Rightarrow> [] | Some t \<Rightarrow> [t])) Map.empty)
                (\<lambda>e. ret (Inl (VDb e)))
                (\<lambda>cache. case allChecksWithConn G signers allowNew tx cache of
                    Panic \<Rightarrow> go_panic
                  | Ret (Inl e) \<Rightarrow> ret (Inl e)
                  | Ret (Inr _) \<Rightarrow> ret (Inr ())))))"

subsection \<open>One block\<close>

text \<open>The addresses of the transactions, in first-seen order; \<^const>\<open>None\<close> is the nil \<^verbatim>\<open>From\<close>.\<close>

primrec collect_addresses :: "transaction list \<Rightarrow> addr list option" where
  "collect_addresses [] = Some []"
| "collect_addresses (tx # txs) =
     (case (tx_From tx, collect_addresses txs) of
        (Some f, Some as) \<Rightarrow> Some (f # (case tx_To tx of None \<Rightarrow> as | Some t \<Rightarrow> t # as))
      | _ \<Rightarrow> None)"

primrec check_all ::
  "geth \<Rightarrow> signer_cache \<Rightarrow> bool \<Rightarrow> transaction list \<Rightarrow> security_cache \<Rightarrow> (val_error + security_cache) result" where
  "check_all G signers allowNew [] cache = Ret (Inr cache)"
| "check_all G signers allowNew (tx # txs) cache =
     (case allChecksWithConn G signers allowNew tx cache of
        Panic \<Rightarrow> Panic
      | Ret (Inl e) \<Rightarrow> Ret (Inl e)
      | Ret (Inr cache') \<Rightarrow> check_all G signers allowNew txs cache')"

definition CheckZKBlockValidation ::
  "geth \<Rightarrow> signer_cache \<Rightarrow> bool \<Rightarrow> zkblock option \<Rightarrow> (val_error + unit) go" where
  "CheckZKBlockValidation G signers allowNew zkBlock =
     (case zkBlock of
        None \<Rightarrow> ret (Inl VNilBlock)
      | Some b \<Rightarrow>
          if b_Transactions b = [] then ret (Inl VNoTransactions)
          else
            attempt acquire (\<lambda>e. ret (Inl (VDb e))) (\<lambda>_.
            attempt acquire (\<lambda>e. ret (Inl (VDb e))) (\<lambda>_.
            case collect_addresses (b_Transactions b) of
              None \<Rightarrow> go_panic
            | Some addrs \<Rightarrow>
                attempt (LoadAccounts (remdups addrs) Map.empty) (\<lambda>e. ret (Inl (VDb e))) (\<lambda>cache.
                  case check_all G signers allowNew (b_Transactions b) cache of
                    Panic \<Rightarrow> go_panic
                  | Ret (Inl e) \<Rightarrow> ret (Inl e)
                  | Ret (Inr _) \<Rightarrow>
                      if BytesToHash (geth_Keccak256 G (concat (map tx_Hash (b_Transactions b)))) \<noteq> b_BlockHash b
                      then ret (Inl VBlockHash) else ret (Inr ())))))"

subsection \<open>Identities carried by a block\<close>

primrec touched_addrs :: "transaction list \<Rightarrow> addr list \<Rightarrow> addr list" where
  "touched_addrs [] ordered = ordered"
| "touched_addrs (tx # txs) ordered =
     (let touch = (\<lambda>p as. case p of None \<Rightarrow> as | Some a \<Rightarrow> if a \<in> set as then as else as @ [a])
      in touched_addrs txs (touch (tx_To tx) (touch (tx_From tx) ordered)))"

primrec read_identities :: "addr list \<Rightarrow> (addr \<rightharpoonup> u64) \<Rightarrow> addr list \<Rightarrow> (err + (addr \<rightharpoonup> u64) \<times> addr list) go" where
  "read_identities [] nonces missing = ret (Inr (nonces, missing))"
| "read_identities (a # as) nonces missing = bnd (GetAccount a) (\<lambda>r. case r of
      Inr doc \<Rightarrow> if a_Nonce doc \<noteq> 0 then read_identities as (nonces(a \<mapsto> a_Nonce doc)) missing
                 else read_identities as nonces (missing @ [a])
    | Inl e \<Rightarrow> if e = ENotFound then read_identities as nonces (missing @ [a]) else ret (Inl e))"

primrec assign_ordinals :: "addr list \<Rightarrow> u64 \<Rightarrow> (addr \<rightharpoonup> u64) \<Rightarrow> (addr \<rightharpoonup> u64)" where
  "assign_ordinals [] n nonces = nonces"
| "assign_ordinals (a # as) n nonces = assign_ordinals as (n + 1) (nonces(a \<mapsto> n))"

definition stamp :: "addr list \<Rightarrow> (addr \<rightharpoonup> u64) \<Rightarrow> account_nonce list" where
  "stamp ordered nonces =
     map (\<lambda>a. \<lparr>an_Address = a, an_Nonce = (case nonces a of Some n \<Rightarrow> n | None \<Rightarrow> 0)\<rparr>) ordered"

text \<open>\<open>hexa\<close> is \<^verbatim>\<open>Address.Hex\<close>; the missing addresses are sorted by it.\<close>

definition EnrichBlockAccountNonces :: "(addr \<Rightarrow> string) \<Rightarrow> zkblock \<Rightarrow> (err + zkblock) go" where
  "EnrichBlockAccountNonces hexa b =
     (if b_Transactions b = [] then ret (Inr (b\<lparr>b_AccountNonces := []\<rparr>))
      else attempt acquire (\<lambda>e. ret (Inl e)) (\<lambda>_.
        let ordered = touched_addrs (b_Transactions b) []
        in attempt (read_identities ordered Map.empty []) (\<lambda>e. ret (Inl e)) (\<lambda>(nonces, missing).
             if missing = [] then ret (Inr (b\<lparr>b_AccountNonces := stamp ordered nonces\<rparr>))
             else attempt (reserveARTOrdinals (of_nat (length missing))) (\<lambda>e. ret (Inl e)) (\<lambda>first.
               ret (Inr (b\<lparr>b_AccountNonces :=
                 stamp ordered (assign_ordinals (sort_key hexa missing) first nonces)\<rparr>))))))"

end
