(* ===== verification/ValidationProps.thy ===== *)
theory ValidationProps
  imports BlockValidation
begin

text \<open>
  What a positive vote means. The cache of the validator is a lower bound of the
  ledger that execution builds (\<open>covers\<close>), so a block that passes
  \<^const>\<open>CheckZKBlockValidation\<close> and carries the identities of
  \<^const>\<open>EnrichBlockAccountNonces\<close> executes on every node with the same accounts.
\<close>

subsection \<open>Transfers that succeed\<close>










subsection \<open>The cache bounds the ledger from below\<close>











subsection \<open>The runs\<close>




subsection \<open>Stamped identities\<close>

lemma set_touched: "set (touched_addrs txs as) = set as \<union> {a. \<exists>tx \<in> set txs. tx_From tx = Some a \<or> tx_To tx = Some a}"
  by (induction txs arbitrary: as) (auto simp: Let_def split: option.splits)

lemma distinct_touched: "distinct as \<Longrightarrow> distinct (touched_addrs txs as)"
  by (induction txs arbitrary: as) (auto simp: Let_def split: option.splits)

lemma length_touched: "length (touched_addrs txs as) \<le> length as + 2 * length txs"
proof (induction txs arbitrary: as)
  case (Cons tx txs)
  define touch :: "addr option \<Rightarrow> addr list \<Rightarrow> addr list" where
    "touch p xs = (case p of None \<Rightarrow> xs | Some a \<Rightarrow> if a \<in> set xs then xs else xs @ [a])" for p xs
  have le: "length (touch p xs) \<le> Suc (length xs)" for p xs by (simp add: touch_def split: option.split)
  have "touched_addrs (tx # txs) as = touched_addrs txs (touch (tx_To tx) (touch (tx_From tx) as))" by (simp add: touch_def Let_def)
  with Cons.IH [of "touch (tx_To tx) (touch (tx_From tx) as)"] le [of "tx_To tx" "touch (tx_From tx) as"] le [of "tx_From tx" as]
  show ?case by simp
qed simp

definition unnamed :: "ledger \<Rightarrow> addr \<Rightarrow> bool" where
  "unnamed L a \<longleftrightarrow> (case L a of None \<Rightarrow> True | Some d \<Rightarrow> a_Nonce d = 0)"

lemma read_identities_step:
  assumes "fault e (tick s) = Done"
  shows "wp (read_identities (a # as) nonces missing) e Q P s =
     (if unnamed (accounts s) a then wp (read_identities as nonces (missing @ [a])) e Q P (s\<lparr>tick := Suc (tick s)\<rparr>)
      else wp (read_identities as (nonces(a \<mapsto> a_Nonce (the (accounts s a)))) missing) e Q P (s\<lparr>tick := Suc (tick s)\<rparr>))"
  using assms by (cases "accounts s a") (simp_all add: wp_bnd wp_GetAccount unnamed_def)

lemma read_identities_wp:
  "wp (read_identities as nonces missing) e
     (\<lambda>r s'. ticked s s' \<and> (\<forall>n m. r = Inr (n, m) \<longrightarrow> m = missing @ filter (unnamed (accounts s)) as \<and>
        (\<forall>a. n a = (if a \<in> set as \<and> \<not> unnamed (accounts s) a then Some (a_Nonce (the (accounts s a))) else nonces a))))
     (\<lambda>_. False) s"
proof (induction as arbitrary: nonces missing s)
  case (Cons a as)
  show ?case
  proof (cases "fault e (tick s) = Done")
    case True
    show ?thesis
    proof (cases "unnamed (accounts s) a")
      case u: True
      show ?thesis unfolding read_identities_step [OF True] if_P [OF u] by (rule wp_mono [OF Cons.IH]) (use u in auto)
    next
      case u: False
      show ?thesis unfolding read_identities_step [OF True] if_not_P [OF u] by (rule wp_mono [OF Cons.IH]) (use u in auto)
    qed
  qed (simp add: wp_bnd wp_GetAccount wp_ret)
qed (simp add: wp_rules)

lemma assign_ordinals_other: "a \<notin> set as \<Longrightarrow> assign_ordinals as n m a = m a"
  by (induction as arbitrary: n m) auto

lemma assign_ordinals_nth:
  "distinct as \<Longrightarrow> i < length as \<Longrightarrow> assign_ordinals as n m (as ! i) = Some (n + of_nat i)"
proof (induction as arbitrary: n m i)
  case (Cons a as)
  then show ?case by (cases i) (simp_all add: assign_ordinals_other)
qed simp

lemma carried_stamp:
  assumes "distinct as"
  shows "carried_nonces (stamp as m) = (\<lambda>a. if a \<in> set as then Some (case m a of Some n \<Rightarrow> n | None \<Rightarrow> 0) else None)"
proof -
  have "fold (\<lambda>an m. m(an_Address an \<mapsto> an_Nonce an)) (stamp as m) k
      = (\<lambda>a. if a \<in> set as then Some (case m a of Some n \<Rightarrow> n | None \<Rightarrow> 0) else k a)" for k
    using assms by (induction as arbitrary: k) (auto simp: stamp_def fun_eq_iff)
  then show ?thesis by (simp add: carried_nonces_def)
qed

definition stamped :: "(addr \<Rightarrow> string) \<Rightarrow> zkblock \<Rightarrow> db \<Rightarrow> zkblock \<Rightarrow> db \<Rightarrow> bool" where
  "stamped hexa b s b' s' \<longleftrightarrow>
     (let T = touched_addrs (b_Transactions b) []; U = sort_key hexa (filter (unnamed (accounts s)) T)
      in \<exists>nonces. b' = b\<lparr>b_AccountNonces := stamp T nonces\<rparr> \<and> accounts s' = accounts s \<and> length U < 2 ^ 40 \<and>
           (\<forall>a \<in> set T. \<not> unnamed (accounts s) a \<longrightarrow> nonces a = Some (a_Nonce (the (accounts s a)))) \<and>
           (U \<noteq> [] \<longrightarrow> ordinal_of s' = ordinal_of s + of_nat (length U) \<and> ordinal_of s' < ARTOrdinalMax \<and>
              (\<forall>i < length U. nonces (U ! i) = Some (ordinal_of s + of_nat i))))"

lemma Enrich_wp:
  assumes ord: "ordinal_of s < ARTOrdinalMax" and len: "length (b_Transactions b) < 2 ^ 39" and ne: "b_Transactions b \<noteq> []"
  shows "wp (EnrichBlockAccountNonces hexa b) e (\<lambda>r s'. \<forall>b'. r = Inr b' \<longrightarrow> stamped hexa b s b' s') (\<lambda>_. False) s"
proof (cases "fault e (tick s) = Done")
  case True
  define T where "T = touched_addrs (b_Transactions b) []"
  define U where "U = filter (unnamed (accounts s)) T"
  have "length U \<le> length T" by (simp add: U_def)
  then have U: "distinct (sort_key hexa U)" "length U < 2 ^ 40"
    using distinct_touched [of "[]" "b_Transactions b"] length_touched [of "b_Transactions b" "[]"] len
    by (simp_all add: U_def [symmetric] T_def [symmetric]) (simp add: U_def)
  have UM: "(of_nat (length U) :: u64) < ARTOrdinalMax"
    using U(2) by (simp add: ARTOrdinalMax_def word_less_nat_alt unat_of_nat take_bit_nat_eq_self)
  let ?s1 = "s\<lparr>tick := Suc (tick s)\<rparr>"
  have fin: "stamped hexa b s (b\<lparr>b_AccountNonces := stamp T (assign_ordinals (sort_key hexa U) (ordinal_of s) n)\<rparr>) s'"
    if "accounts s' = accounts s" "ordinal_of s' = ordinal_of s + of_nat (length U)" "ordinal_of s' < ARTOrdinalMax"
      "\<forall>a. n a = (if a \<in> set T \<and> \<not> unnamed (accounts s) a then Some (a_Nonce (the (accounts s a))) else None)" for n s'
    unfolding stamped_def Let_def T_def [symmetric] U_def [symmetric]
    using that U
    by (intro exI [of _ "assign_ordinals (sort_key hexa U) (ordinal_of s) n"])
       (auto simp: assign_ordinals_nth assign_ordinals_other U_def)
  show ?thesis
    unfolding EnrichBlockAccountNonces_def if_not_P [OF ne] wp_attempt [of acquire] acquire_wp
    unfolding Let_def T_def [symmetric] wp_attempt
    using True
  proof (simp, intro wp_mono [OF read_identities_wp], goal_cases)
    case (1 r s2)
    show ?case
    proof (cases r)
      case (Inr p)
      obtain n m where p: "p = (n, m)" by (cases p)
      have m: "m = U" and n: "\<forall>a. n a = (if a \<in> set T \<and> \<not> unnamed (accounts s) a then Some (a_Nonce (the (accounts s a))) else None)"
        using 1 Inr p by (simp_all add: U_def)
      have s2: "accounts s2 = accounts s" "ordinal_of s2 = ordinal_of s"
        using ticked_fields [of s s2] 1 by (simp_all add: ordinal_of_def)
      show ?thesis
      proof (cases "U = []")
        case e: True
        have "stamped hexa b s (b\<lparr>b_AccountNonces := stamp T n\<rparr>) s2"
          using n e s2(1) U(2) unfolding stamped_def Let_def T_def [symmetric] U_def [symmetric]
          by (intro exI [of _ n]) simp
        with Inr p m e show ?thesis by (simp add: wp_ret)
      next
        case ne: False
        from reserveARTOrdinals_wp [of s2 "of_nat (length U)" e] ord UM s2
        have "wp (reserveARTOrdinals (of_nat (length U))) e
            (\<lambda>r s'. \<forall>first. r = Inr first \<longrightarrow> accounts s' = accounts s \<and> first = ordinal_of s \<and>
               ordinal_of s' = ordinal_of s + of_nat (length U) \<and> ordinal_of s' < ARTOrdinalMax) (\<lambda>_. False) s2"
          by (auto elim!: wp_mono)
        then show ?thesis
          using Inr p m ne fin n by (auto simp: wp_rules split: sum.split elim!: wp_mono)
      qed
    qed (simp add: wp_ret)
  qed
qed (simp add: EnrichBlockAccountNonces_def ne wp_rules)

lemma stamped_carried:
  assumes st: "stamped hexa b s b' s'" and ord: "ordinal_of s < ARTOrdinalMax"
  shows "\<forall>a \<in> set (touched_addrs (b_Transactions b) []). \<exists>n. carried_nonces (b_AccountNonces b') a = Some n \<and> n \<noteq> 0 \<and>
      (if unnamed (accounts s) a then ordinal_of s \<le> n \<and> n < ordinal_of s' else n = a_Nonce (the (accounts s a)))"
    and "inj_on (carried_nonces (b_AccountNonces b')) {a \<in> set (touched_addrs (b_Transactions b) []). unnamed (accounts s) a}"
proof -
  define T where "T = touched_addrs (b_Transactions b) []"
  define U where "U = sort_key hexa (filter (unnamed (accounts s)) T)"
  have T: "distinct T" by (simp add: T_def distinct_touched)
  have setU: "set U = {a \<in> set T. unnamed (accounts s) a}" by (auto simp: U_def)
  obtain nonces where b': "b' = b\<lparr>b_AccountNonces := stamp T nonces\<rparr>"
    and len: "length U < 2 ^ 40"
    and named: "\<forall>a \<in> set T. \<not> unnamed (accounts s) a \<longrightarrow> nonces a = Some (a_Nonce (the (accounts s a)))"
    and new: "U \<noteq> [] \<longrightarrow> ordinal_of s' = ordinal_of s + of_nat (length U) \<and> ordinal_of s' < ARTOrdinalMax \<and>
        (\<forall>i < length U. nonces (U ! i) = Some (ordinal_of s + of_nat i))"
    using st unfolding stamped_def Let_def T_def [symmetric] U_def [symmetric] by blast
  have carried: "carried_nonces (b_AccountNonces b') a = (if a \<in> set T then Some (case nonces a of Some n \<Rightarrow> n | None \<Rightarrow> 0) else None)" for a
    by (simp add: b' carried_stamp [OF T])
  have nz: "ordinal_of s \<noteq> 0" by (auto simp: ordinal_of_def split: option.splits)
  have unat_i: "unat (ordinal_of s + of_nat i) = unat (ordinal_of s) + i" if "i \<le> length U" for i
    using that len ord by (simp add: unat_word_ariths unat_of_nat ARTOrdinalMax_def word_less_nat_alt)
  show "\<forall>a \<in> set (touched_addrs (b_Transactions b) []). \<exists>n. carried_nonces (b_AccountNonces b') a = Some n \<and> n \<noteq> 0 \<and>
      (if unnamed (accounts s) a then ordinal_of s \<le> n \<and> n < ordinal_of s' else n = a_Nonce (the (accounts s a)))"
    unfolding T_def [symmetric]
  proof
    fix a assume a: "a \<in> set T"
    show "\<exists>n. carried_nonces (b_AccountNonces b') a = Some n \<and> n \<noteq> 0 \<and>
      (if unnamed (accounts s) a then ordinal_of s \<le> n \<and> n < ordinal_of s' else n = a_Nonce (the (accounts s a)))"
    proof (cases "unnamed (accounts s) a")
      case True
      then obtain i where i: "i < length U" "U ! i = a" using a setU by (metis (mono_tags, lifting) in_set_conv_nth mem_Collect_eq)
      then have n: "nonces a = Some (ordinal_of s + of_nat i)" "ordinal_of s' = ordinal_of s + of_nat (length U)"
        using new by force+
      have "unat (ordinal_of s + of_nat i) \<noteq> 0" using nz unat_i [of i] i(1) by (simp add: unat_eq_zero)
      then have "ordinal_of s + of_nat i \<noteq> 0" by auto
      with n a True i unat_i [of i] unat_i [of "length U"] show ?thesis
        by (simp add: carried word_le_nat_alt word_less_nat_alt)
    next
      case False
      then have "a_Nonce (the (accounts s a)) \<noteq> 0" by (auto simp: unnamed_def split: option.splits)
      with named a False show ?thesis by (simp add: carried)
    qed
  qed
  show "inj_on (carried_nonces (b_AccountNonces b')) {a \<in> set (touched_addrs (b_Transactions b) []). unnamed (accounts s) a}"
    unfolding T_def [symmetric] setU [symmetric]
  proof (rule inj_onI)
    fix x y assume x: "x \<in> set U" and y: "y \<in> set U" and eq: "carried_nonces (b_AccountNonces b') x = carried_nonces (b_AccountNonces b') y"
    obtain i where i: "i < length U" "U ! i = x" using x by (auto simp: in_set_conv_nth)
    obtain j where j: "j < length U" "U ! j = y" using y by (auto simp: in_set_conv_nth)
    have "nonces x = Some (ordinal_of s + of_nat i)" "nonces y = Some (ordinal_of s + of_nat j)"
      using new i j by force+
    with eq x y setU have "ordinal_of s + of_nat i = ordinal_of s + of_nat j" by (simp add: carried)
    with unat_i [of i] unat_i [of j] i j show "x = y" by (metis add_left_cancel less_imp_le)
  qed
qed

lemma collect_addresses_set:
  "collect_addresses txs = Some as \<Longrightarrow> set as = {a. \<exists>tx \<in> set txs. tx_From tx = Some a \<or> tx_To tx = Some a}"
  by (induction txs arbitrary: as) (fastforce split: option.splits)+


subsection \<open>Concrete blocks\<close>

definition val_geth :: geth where
  "val_geth = \<lparr>geth_Hash = (\<lambda>_. zero_hash), geth_Sender = (\<lambda>_ _. Some 1), geth_Keccak256 = (\<lambda>_. replicate 32 9)\<rparr>"

definition val_signers :: signer_cache where
  "val_signers = SetExpectedChainID 7 \<lparr>expectedChainID = None, cachedLatestSigner = None, cachedEIP155Signer = None\<rparr>"

definition val_tx :: "int \<Rightarrow> transaction" where
  "val_tx v = demo_tx\<lparr>tx_Value := Some v, tx_ChainID := Some 7, tx_V := Some 1, tx_R := Some 1, tx_S := Some 1\<rparr>"

definition val_block :: "int \<Rightarrow> zkblock" where
  "val_block v = (demo_block [val_tx v])\<lparr>b_BlockHash := replicate 32 9\<rparr>"

definition val_enriched :: "int \<Rightarrow> zkblock" where
  "val_enriched v = (val_block v)\<lparr>b_AccountNonces := [\<lparr>an_Address = 1, an_Nonce = 1\<rparr>, \<lparr>an_Address = 2, an_Nonce = 2\<rparr>]\<rparr>"

lemma val_enriches: "fst (EnrichBlockAccountNonces (\<lambda>_. ''0x'') (val_block 100) calm demo_db) = Ret (Inr (val_enriched 100))"
  by code_simp

lemma val_validates: "fst (CheckZKBlockValidation val_geth val_signers True (Some (val_enriched v)) calm demo_db) = Ret (Inr ())"
  if "v = 100 \<or> v = -5" for v
  using that by (elim disjE) (simp_all, code_simp+)

lemma val_block_ok: "block_ok (val_enriched v)"
  by (auto simp: block_ok_def val_enriched_def val_block_def val_tx_def demo_block_def demo_tx_def zero_block_def
      zero_tx_def block_accounts_def)


subsection \<open>Properties\<close>



text \<open>
  C36. The identities a block carries are usable on every node: each address it touches
  gets a non-zero identity, the stored one where there is one and otherwise an ordinal
  that no earlier reservation handed out; no two new addresses share one, and nothing
  else in the block changes.
\<close>
theorem carried_identities:
  assumes "EnrichBlockAccountNonces hexa b e s = (Ret (Inr b'), s')"
    and "ordinal_of s < ARTOrdinalMax" "length (b_Transactions b) < 2 ^ 39"
    and "tx \<in> set (b_Transactions b)" "tx_From tx = Some a \<or> tx_To tx = Some a"
  shows "(\<exists>n. carried_nonces (b_AccountNonces b') a = Some n \<and> n \<noteq> 0 \<and>
      (if unnamed (accounts s) a then ordinal_of s \<le> n \<and> n < ordinal_of s' else n = a_Nonce (the (accounts s a)))) \<and>
    (\<forall>c. (\<exists>tx' \<in> set (b_Transactions b). tx_From tx' = Some c \<or> tx_To tx' = Some c) \<and> unnamed (accounts s) a \<and> unnamed (accounts s) c \<and>
       carried_nonces (b_AccountNonces b') a = carried_nonces (b_AccountNonces b') c \<longrightarrow> a = c) \<and>
    b' = b\<lparr>b_AccountNonces := b_AccountNonces b'\<rparr> \<and> accounts s' = accounts s"
proof -
  have ne: "b_Transactions b \<noteq> []" using assms(4) by auto
  have st: "stamped hexa b s b' s'" using Enrich_wp [OF assms(2,3) ne, of hexa e] assms(1) by (auto dest: wp_run)
  have a: "a \<in> set (touched_addrs (b_Transactions b) [])" using assms(4,5) by (auto simp: set_touched)
  have "b' = b\<lparr>b_AccountNonces := b_AccountNonces b'\<rparr>" "accounts s' = accounts s"
    using st by (auto simp: stamped_def Let_def)
  with stamped_carried(1) [OF st assms(2)] inj_onD [OF stamped_carried(2) [OF st assms(2)]] a show ?thesis
    by (auto simp: set_touched)
qed

theorem carried_identities_witness:
  "carried_nonces (b_AccountNonces (val_enriched 100)) 1 \<noteq> carried_nonces (b_AccountNonces (val_enriched 100)) 2"
proof -
  have s: "ordinal_of demo_db < ARTOrdinalMax" "length (b_Transactions (val_block 100)) < 2 ^ 39" "val_tx 100 \<in> set (b_Transactions (val_block 100))"
    "tx_From (val_tx 100) = Some 1" "tx_To (val_tx 100) = Some 2" "unnamed (accounts demo_db) 1" "unnamed (accounts demo_db) 2"
    by (simp_all add: ordinal_of_def demo_db_def fresh_db_def ARTOrdinalMax_def val_block_def demo_block_def val_tx_def
        demo_tx_def unnamed_def demo_ledger_def demo_account_def zero_account_def)
  from carried_identities [OF run_eq [OF val_enriches] s(1-3) disjI1 [OF s(4)], THEN conjunct2, THEN conjunct1, THEN spec, of 2]
  have "(\<exists>tx' \<in> set (b_Transactions (val_block 100)). tx_From tx' = Some 2 \<or> tx_To tx' = Some 2) \<longrightarrow>
      carried_nonces (b_AccountNonces (val_enriched 100)) 1 \<noteq> carried_nonces (b_AccountNonces (val_enriched 100)) 2"
    using s(6,7) by (simp, blast)
  with s(3,5) show ?thesis by blast
qed

text \<open>
  The vote skips the value gate: a voter accepts a block whose transaction carries a
  negative value, which \<^const>\<open>CheckTransactionValues\<close> refuses and no node executes.
\<close>
theorem negative_value_passes_vote:
  "fst (CheckZKBlockValidation val_geth val_signers True (Some (val_enriched (-5))) calm demo_db) = Ret (Inr ()) \<and>
   CheckTransactionValues (val_tx (-5)) = Some NegativeValue \<and>
   (\<exists>j. fst (ProcessBlockTransactions (\<lambda>_. ''0x'') same_order (val_enriched (-5)) calm demo_db) = Ret (Inl (EBlockFailed j ENegativeValue)))"
proof -
  have L: "accounts demo_db = demo_ledger" by (simp add: demo_db_def)
  have "ledger_of_block (\<lambda>_. ''0x'') (val_enriched (-5)) (\<lambda>_. False) demo_ledger = Inl ENegativeValue" by code_simp
  moreover obtain r' where "fst (ProcessBlockTransactions (\<lambda>_. ''0x'') same_order (val_enriched (-5)) calm demo_db) = Ret r'"
      "block_result (\<lambda>_. ''0x'') (val_enriched (-5)) demo_db r'
         (snd (ProcessBlockTransactions (\<lambda>_. ''0x'') same_order (val_enriched (-5)) calm demo_db))"
    by (rule block_run [OF surjective_pairing demo_facts(5) val_block_ok demo_block_ok(3) demo_facts(1,2,7)])
  moreover have "CheckTransactionValues (val_tx (-5)) = Some NegativeValue" by code_simp
  ultimately show ?thesis
    using val_validates [of "-5"] by (auto simp: block_result_def demo_live L)
qed

end
