(* ===== verification/Voting.thy ===== *)
theory Voting
  imports Certificate CRDT BlockValidation
begin

text \<open>
  The committee member's side of a vote: casting it (\<^verbatim>\<open>src/Vote/Trigger.go\<close>), receiving
  votes of others over a stream (\<^verbatim>\<open>handleSubmitVote\<close> of
  \<^verbatim>\<open>src/AVC/BuddyNodes/MessagePassing/ListenerHandler.go\<close>) or over gossip
  (\<^verbatim>\<open>handleReceivedMessage\<close> of \<^verbatim>\<open>MessagePassing/Service/subscriptionService.go\<close>), aggregating
  them (\<^verbatim>\<open>Structs/Utils.go\<close>, \<^verbatim>\<open>src/AVC/VoteModule\<close>) and answering the sequencer with a
  signature (\<^verbatim>\<open>handleVoteResultRequest\<close>).

  A JSON number decodes to a finite float64, which is a rational. Float addition and the
  conversion to int8 are functions of a \<open>go_float\<close> record, because Go leaves the
  conversion of a value out of range to the implementation and addition rounds. The JSON
  decoder is a parameter as well. Peer ids are their text form.
\<close>

subsection \<open>Decoded JSON and floats\<close>

datatype json = JNull | JBool bool | JNum rat | JStr string | JArr "json list" | JObj "(string \<times> json) list"

type_synonym json_object = "string \<rightharpoonup> json"

record go_float =
  fl_add :: "rat \<Rightarrow> rat \<Rightarrow> rat"
  fl_int8 :: "rat \<Rightarrow> int"

record json_lib =
  js_object :: "string \<Rightarrow> json_object option"
  js_request :: "string \<Rightarrow> (string \<times> u64) option"

subsection \<open>Weighted aggregation\<close>

datatype vote_error =
    NodeNotReady
  | HashRequired
  | NoVotes
  | NoSeedClient
  | NoWeightedVotes
  | LengthMismatch
  | InvalidWeight
  | InvalidVote

text \<open>The weights are an association list in the iteration order of the Go map.\<close>

primrec aggregate :: "go_float \<Rightarrow> (string \<times> int) list \<Rightarrow> (string \<times> rat) list \<Rightarrow> rat \<Rightarrow> rat \<Rightarrow> vote_error + rat \<times> rat" where
  "aggregate F votes [] pos neg = Inr (pos, neg)"
| "aggregate F votes (aw # ws) pos neg =
     (let voteValue = (case map_of votes (fst aw) of None \<Rightarrow> 0 | Some v \<Rightarrow> v); weight = snd aw
      in if weight > 1 \<or> weight < 0 then Inl InvalidWeight
         else if voteValue \<noteq> 1 \<and> voteValue \<noteq> -1 then Inl InvalidVote
         else if voteValue = 1 then aggregate F votes ws (fl_add F pos weight) neg
         else aggregate F votes ws pos (fl_add F neg weight))"

definition VoteAggregation :: "go_float \<Rightarrow> (string \<times> rat) list \<Rightarrow> (string \<times> int) list \<Rightarrow> vote_error + bool" where
  "VoteAggregation F weights votes =
     (if length weights \<noteq> length votes then Inl LengthMismatch
      else case aggregate F votes weights 0 0 of
          Inl e \<Rightarrow> Inl e
        | Inr (positiveVotes, negativeVotes) \<Rightarrow> Inr (positiveVotes > negativeVotes))"

subsection \<open>Votes in the CRDT\<close>

record peer_vote =
  pv_vote :: int
  pv_blockHash :: string
  pv_reason :: string

text \<open>One element of a set: not a vote, or not for this block, is \<^const>\<open>None\<close>.\<close>

definition read_vote :: "json_lib \<Rightarrow> go_float \<Rightarrow> string \<Rightarrow> string \<Rightarrow> peer_vote option" where
  "read_vote J F target voteStr =
     (case js_object J voteStr of
        None \<Rightarrow> None
      | Some obj \<Rightarrow> (case (obj ''vote'', obj ''block_hash'') of
          (Some (JNum v), Some (JStr h)) \<Rightarrow>
            if h \<noteq> target then None
            else Some \<lparr>pv_vote = fl_int8 F v, pv_blockHash = h,
              pv_reason = (case obj ''rejection_reason'' of Some (JStr r) \<Rightarrow> r | _ \<Rightarrow> [])\<rparr>
        | _ \<Rightarrow> None))"

text \<open>The loop over one set: each vote for the block overwrites the one before.\<close>

primrec last_vote :: "json_lib \<Rightarrow> go_float \<Rightarrow> string \<Rightarrow> string list \<Rightarrow> peer_vote option \<Rightarrow> peer_vote option" where
  "last_vote J F target [] acc = acc"
| "last_vote J F target (v # vs) acc =
     last_vote J F target vs (case read_vote J F target v of None \<Rightarrow> acc | Some pv \<Rightarrow> Some pv)"

definition collect_votes ::
  "json_lib \<Rightarrow> go_float \<Rightarrow> string \<Rightarrow> mem_store \<Rightarrow> string list \<Rightarrow> (string \<times> peer_vote) list" where
  "collect_votes J F target s keys =
     List.map_filter (\<lambda>key. case GetSetElements s key of
         None \<Rightarrow> None
       | Some votes \<Rightarrow> map_option (Pair key) (last_vote J F target votes None)) keys"

text \<open>
  The answer of the seed node: no client, a refused or failed read of the weights, or the
  weights. A refused read gives every voter the weight 1.
\<close>

datatype seed_reply = SeedUnreachable | WeightsRefused | PeerWeights "string \<rightharpoonup> rat"

definition voter_weight :: "seed_reply \<Rightarrow> string \<Rightarrow> rat option" where
  "voter_weight seed p = (case seed of PeerWeights w \<Rightarrow> w p | _ \<Rightarrow> Some 1)"

definition rejection_reasons :: "(string \<times> peer_vote) list \<Rightarrow> (string \<times> string) list" where
  "rejection_reasons votes =
     List.map_filter (\<lambda>(p, pv). if pv_vote pv = -1 \<and> pv_reason pv \<noteq> [] then Some (p, pv_reason pv) else None) votes"

text \<open>
  \<open>keys\<close> is the iteration order of the CRDT map and \<open>ord\<close> that of the map of weights.
  \<^const>\<open>None\<close> for the store is a node without a CRDT layer.
\<close>

definition ProcessVotesFromCRDT ::
  "json_lib \<Rightarrow> go_float \<Rightarrow> ((string, crdt) fmap \<Rightarrow> string list) \<Rightarrow> ((string \<times> rat) list \<Rightarrow> (string \<times> rat) list) \<Rightarrow>
     seed_reply \<Rightarrow> mem_store option \<Rightarrow> string \<Rightarrow> vote_error + int \<times> (string \<times> string) list" where
  "ProcessVotesFromCRDT J F keys ord seed node targetBlockHash =
     (case node of
        None \<Rightarrow> Inl NodeNotReady
      | Some s \<Rightarrow>
          if targetBlockHash = [] then Inl HashRequired
          else let voteData = collect_votes J F targetBlockHash s (keys (GetAllCRDTs s))
               in if voteData = [] then Inl NoVotes
                  else if seed = SeedUnreachable then Inl NoSeedClient
                  else let filtered = filter (\<lambda>(p, _). voter_weight seed p \<noteq> None) voteData;
                           weights = map (\<lambda>(p, _). (p, the (voter_weight seed p))) filtered;
                           votes = map (\<lambda>(p, pv). (p, pv_vote pv)) filtered
                       in if filtered = [] then Inl NoWeightedVotes
                          else case VoteAggregation F (ord weights) votes of
                              Inl e \<Rightarrow> Inl e
                            | Inr result \<Rightarrow> Inr (if result then 1 else -1, rejection_reasons filtered))"

subsection \<open>Receiving votes\<close>

datatype op_type = ADD | REMOVE | SYNC | OTHER_OP int

datatype op_error = CrdtError crdt_err | InvalidOperation

definition op_result :: "crdt_err option \<times> mem_store \<Rightarrow> op_error option \<times> mem_store" where
  "op_result r = (map_option CrdtError (fst r), snd r)"

definition controller_add :: "string \<Rightarrow> string \<Rightarrow> string \<Rightarrow> mem_store \<Rightarrow> op_error option \<times> mem_store" where
  "controller_add nodeID key v s = op_result (LWWAdd nodeID key v fmempty s)"

text \<open>
  \<^verbatim>\<open>SYNC\<close> synchronises with the controller of the process itself, so both passes of
  \<^const>\<open>SyncWithNode\<close> write to the one store.
\<close>

definition sync_with_self :: "clock_order \<Rightarrow> ((string, crdt) fmap \<Rightarrow> string list) \<Rightarrow> mem_store \<Rightarrow> crdt_err option \<times> mem_store" where
  "sync_with_self ord keys s =
     (let crdts = GetAllCRDTs s
      in case sync_into ord crdts crdts (keys crdts) s of
           (Some e, s') \<Rightarrow> (Some e, s')
         | (None, s') \<Rightarrow> sync_into ord crdts crdts (keys crdts) s')"

definition Controller ::
  "clock_order \<Rightarrow> ((string, crdt) fmap \<Rightarrow> string list) \<Rightarrow> op_type \<Rightarrow> string \<Rightarrow> string \<Rightarrow> string \<Rightarrow> mem_store \<Rightarrow> op_error option \<times> mem_store" where
  "Controller ord keys op nodeID key v s =
     (case op of ADD \<Rightarrow> controller_add nodeID key v s
      | REMOVE \<Rightarrow> op_result (LWWRemove nodeID key v fmempty s)
      | SYNC \<Rightarrow> op_result (sync_with_self ord keys s)
      | OTHER_OP _ \<Rightarrow> (Some InvalidOperation, s))"

text \<open>
  Over a stream: the sender is the authenticated remote peer and the payload a vote.
  The second component says whether the vote is published to the other members.
\<close>

definition handleSubmitVote :: "json_lib \<Rightarrow> string \<Rightarrow> string \<Rightarrow> string \<Rightarrow> mem_store \<Rightarrow> bool \<times> mem_store" where
  "handleSubmitVote J remote sender message s =
     (case js_object J message of
        None \<Rightarrow> (False, s)
      | Some voteData \<Rightarrow>
          if sender \<noteq> remote then (False, s)
          else (case (voteData ''vote'', voteData ''block_hash'') of
              (Some (JNum v), Some (JStr h)) \<Rightarrow>
                if (v \<noteq> 1 \<and> v \<noteq> -1) \<or> h = [] then (False, s)
                else (case controller_add sender sender message s of
                    (Some _, s') \<Rightarrow> (False, s')
                  | (None, s') \<Rightarrow> (True, s'))
            | _ \<Rightarrow> (False, s)))"

text \<open>Over gossip: \<open>sender\<close> is a field of the message.\<close>

definition handleGossipedVote :: "json_lib \<Rightarrow> string \<Rightarrow> string \<Rightarrow> string \<Rightarrow> mem_store \<Rightarrow> bool \<times> mem_store" where
  "handleGossipedVote J self sender message s =
     (if sender = self then (False, s)
      else case js_object J message of
          None \<Rightarrow> (False, s)
        | Some voteData \<Rightarrow>
            if voteData ''vote'' = None then (False, s)
            else (case controller_add sender sender message s of
                (Some _, s') \<Rightarrow> (False, s')
              | (None, s') \<Rightarrow> (True, s')))"

subsection \<open>Gates of the signing request\<close>

definition MaxConsensusLagBlocks :: u64 where "MaxConsensusLagBlocks = 2"

definition ConsensusVoteEligible :: "u64 \<Rightarrow> u64 \<Rightarrow> bool \<Rightarrow> bool" where
  "ConsensusVoteEligible localHead sequencerHead headKnown =
     (if localHead = 0 then False
      else if \<not> headKnown then True
      else if sequencerHead \<le> localHead then True
      else sequencerHead - localHead \<le> MaxConsensusLagBlocks)"

definition GateDecision :: "bool \<Rightarrow> u64 \<Rightarrow> u64 \<Rightarrow> bool \<Rightarrow> bool" where
  "GateDecision localTipKnown localHead sequencerHead headKnown =
     (if \<not> localTipKnown then True else ConsensusVoteEligible localHead sequencerHead headKnown)"

definition consensusVoteReady :: "bool \<Rightarrow> bool option \<Rightarrow> bool" where
  "consensusVoteReady enforceConsensusSyncGate gate =
     (if \<not> enforceConsensusSyncGate then True else case gate of None \<Rightarrow> True | Some ready \<Rightarrow> ready)"

definition voteRequesterAuthorized :: "bool \<Rightarrow> (string \<Rightarrow> bool) option \<Rightarrow> string list \<Rightarrow> string \<Rightarrow> bool" where
  "voteRequesterAuthorized enforceVoteRequesterAuth authorizer buddySet remote =
     (if \<not> enforceVoteRequesterAuth then True
      else case authorizer of
          Some f \<Rightarrow> f remote
        | None \<Rightarrow> if remote = [] then False else if buddySet = [] then True else remote \<in> set buddySet)"

subsection \<open>Answering the sequencer\<close>

record buddy =
  bp_PeerID :: string
  bp_Multiaddr :: string

definition no_buddy :: buddy where
  "no_buddy = \<lparr>bp_PeerID = [], bp_Multiaddr = []\<rparr>"

type_synonym buddies = "(int, buddy) fmap"

record buddy_node =
  bn_PeerID :: string
  bn_CRDT :: "mem_store option"
  bn_Buddies :: "string list"

definition buddy_at :: "buddies \<Rightarrow> nat \<Rightarrow> buddy option" where
  "buddy_at m i = fmlookup m (int i)"

definition buddy_count :: "buddies \<Rightarrow> nat" where
  "buddy_count m = fcard (fmdom m)"

text \<open>The members of one consensus message, in index order, without this node.\<close>

definition message_buddies :: "string \<Rightarrow> buddies \<Rightarrow> string list" where
  "message_buddies self m =
     filter (\<lambda>p. p \<noteq> self) (map bp_PeerID (List.map_filter (buddy_at m) [0..<min (nat MaxMainPeers) (buddy_count m)]))"

text \<open>\<open>cached\<close> holds the cached consensus messages in iteration order.\<close>

definition populate_buddies :: "buddies list \<Rightarrow> buddy_node \<Rightarrow> buddy_node" where
  "populate_buddies cached n =
     (if bn_Buddies n \<noteq> [] then n
      else n\<lparr>bn_Buddies := take (nat MaxMainPeers) (concat (map (message_buddies (bn_PeerID n)) cached))\<rparr>)"

datatype vote_reply =
    NoReply
  | Unauthorized
  | NotSynced
  | BadRequest
  | VoteReply int bls_response "(string \<times> string) list"

definition no_signature :: bls_response where
  "no_signature = \<lparr>r_Signature = [], r_Agree = False, r_PubKey = [], r_PeerID = [], r_RejectionReasons = Map.empty\<rparr>"

definition sign_vote ::
  "bls_lib \<Rightarrow> (byte list \<times> byte list) option \<Rightarrow> bool \<Rightarrow> u64 \<Rightarrow> int \<Rightarrow> u64 \<Rightarrow> string \<Rightarrow> bls_response" where
  "sign_vote L keypair emitBlockBound chain result height hash =
     (case (if emitBlockBound \<and> hash \<noteq> [] then SignMessageForBlock L keypair result chain height hash
            else SignMessage L keypair result) of
        None \<Rightarrow> no_signature | Some r \<Rightarrow> r)"

text \<open>
  \<open>authorized\<close> and \<open>ready\<close> are the verdicts of \<^const>\<open>voteRequesterAuthorized\<close> and
  \<^const>\<open>consensusVoteReady\<close>; \<open>sync\<close> is the effect of the CRDT synchronisation, whose
  failure is only logged. An absent node is \<^const>\<open>None\<close>.
\<close>

definition handleVoteResultRequest ::
  "json_lib \<Rightarrow> go_float \<Rightarrow> ((string, crdt) fmap \<Rightarrow> string list) \<Rightarrow> ((string \<times> rat) list \<Rightarrow> (string \<times> rat) list) \<Rightarrow> seed_reply \<Rightarrow>
     bls_lib \<Rightarrow> (byte list \<times> byte list) option \<Rightarrow> bool \<Rightarrow> u64 \<Rightarrow> bool \<Rightarrow> bool \<Rightarrow> buddies list \<Rightarrow> (mem_store \<Rightarrow> mem_store) \<Rightarrow>
     string \<Rightarrow> buddy_node option \<Rightarrow> vote_reply \<times> buddy_node option" where
  "handleVoteResultRequest J F keys ord seed L keypair emit chain authorized ready cached sync message node =
     (case node of
        None \<Rightarrow> (NoReply, None)
      | Some n \<Rightarrow>
          if bn_CRDT n = None then (NoReply, Some n)
          else if \<not> authorized then (Unauthorized, Some n)
          else if \<not> ready then (NotSynced, Some n)
          else (case js_request J message of
              None \<Rightarrow> (BadRequest, Some n)
            | Some (targetBlockHash, targetBlockNumber) \<Rightarrow>
                let n1 = populate_buddies cached n;
                    n2 = n1\<lparr>bn_CRDT := map_option sync (bn_CRDT n1)\<rparr>
                in (case ProcessVotesFromCRDT J F keys ord seed (bn_CRDT n2) targetBlockHash of
                      Inl _ \<Rightarrow> NoReply
                    | Inr (result, reasons) \<Rightarrow>
                        VoteReply result
                          ((sign_vote L keypair emit chain result targetBlockNumber targetBlockHash)\<lparr>r_PeerID := bn_PeerID n2\<rparr>)
                          reasons, Some n2)))"

subsection \<open>Casting a vote\<close>

record vote =
  v_Vote :: int
  v_BlockHash :: string
  v_Reason :: string

text \<open>\<open>text\<close> is \<^verbatim>\<open>err.Error()\<close> of the validation error.\<close>

definition cast_vote :: "(val_error \<Rightarrow> string) \<Rightarrow> string \<Rightarrow> val_error + unit \<Rightarrow> vote" where
  "cast_vote text blockHash r =
     (case r of
        Inl e \<Rightarrow> \<lparr>v_Vote = -1, v_BlockHash = blockHash, v_Reason = text e\<rparr>
      | Inr _ \<Rightarrow> \<lparr>v_Vote = 1, v_BlockHash = blockHash, v_Reason = []\<rparr>)"

definition setVote :: "vote \<Rightarrow> vote option" where
  "setVote v = (if v_Vote v \<noteq> 1 \<and> v_Vote v \<noteq> -1 then None else if v_BlockHash v = [] then None else Some v)"

definition be_u64 :: "byte list \<Rightarrow> u64" where
  "be_u64 bs = fold (\<lambda>b acc. acc * 256 + ucast b) bs 0"

definition consistentHashing :: "(byte list \<Rightarrow> byte list) \<Rightarrow> string \<Rightarrow> nat \<Rightarrow> nat" where
  "consistentHashing sha256 peerID num = unat (be_u64 (take 8 (sha256 (str_bytes peerID))) mod of_nat num)"

text \<open>The call may recurse for ever, which is \<^const>\<open>None\<close>.\<close>

partial_function (option) PickListnerWithOffset :: "buddies \<Rightarrow> nat \<Rightarrow> nat \<Rightarrow> buddy option" where
  [code]: "PickListnerWithOffset m baseKey offset =
     (let numKeys = buddy_count m
      in if numKeys = 0 then Some no_buddy
         else case buddy_at m ((baseKey + offset) mod numKeys) of
             None \<Rightarrow> if offset < numKeys then PickListnerWithOffset m baseKey ((offset + 1) mod numKeys)
                     else Some (case buddy_at m 0 of None \<Rightarrow> no_buddy | Some b \<Rightarrow> b)
           | Some b \<Rightarrow> Some b)"

datatype submit_result = Submitted string "vote option" | SubmitFailed | NeverReturns | NoListener | NoConsensusMessage

record consensus_message =
  cm_ZKBlock :: "zkblock option"
  cm_Buddies :: buddies

text \<open>The third number counts the attempts that are left, the current one included; \<open>send\<close> says whether a peer got the vote.\<close>

primrec submit_attempts :: "(nat \<Rightarrow> buddy option) \<Rightarrow> string \<Rightarrow> (string \<Rightarrow> bool) \<Rightarrow> vote option \<Rightarrow> nat \<Rightarrow> nat \<Rightarrow> submit_result" where
  "submit_attempts pick self send v k 0 = SubmitFailed"
| "submit_attempts pick self send v k (Suc left) =
     (case pick k of
        None \<Rightarrow> NeverReturns
      | Some b \<Rightarrow>
          if bp_PeerID b = self \<and> left > 0 then submit_attempts pick self send v (Suc k) left
          else if send (bp_PeerID b) then Submitted (bp_PeerID b) v
          else submit_attempts pick self send v (Suc k) left)"

text \<open>
  A vote that \<^const>\<open>setVote\<close> refuses leaves the field \<^verbatim>\<open>Vote\<close> nil, which is what is sent then.
  A message without a block panics.
\<close>

definition SubmitVote ::
  "geth \<Rightarrow> signer_cache \<Rightarrow> bool \<Rightarrow> (val_error \<Rightarrow> string) \<Rightarrow> (byte list \<Rightarrow> byte list) \<Rightarrow> (string \<Rightarrow> bool) \<Rightarrow>
     string option \<Rightarrow> consensus_message option \<Rightarrow> submit_result go" where
  "SubmitVote G signers allowNew text sha256 send listenerNode consensusMessage =
     (case listenerNode of
        None \<Rightarrow> ret NoListener
      | Some self \<Rightarrow> (case consensusMessage of
          None \<Rightarrow> ret NoConsensusMessage
        | Some cm \<Rightarrow> (case cm_ZKBlock cm of
            None \<Rightarrow> go_panic
          | Some zkBlock \<Rightarrow>
              bnd (CheckZKBlockValidation G signers allowNew (Some zkBlock)) (\<lambda>r.
                let v = setVote (cast_vote text (Hash_Hex (b_BlockHash zkBlock)) r); m = cm_Buddies cm
                in ret (submit_attempts (PickListnerWithOffset m (consistentHashing sha256 self (buddy_count m))) self send v 0 3)))))"

end
