(* ===== verification/VotingProps.thy ===== *)
theory VotingProps
  imports Voting CRDTProps
begin

text \<open>
  What happens to a vote between the member that casts it and the signature the sequencer
  receives: the choice of the member it is sent to, the CRDT that stores it, the
  aggregate, and the reply.
\<close>

subsection \<open>Choosing a member\<close>

lemma pick_step:
  "0 < buddy_count m \<Longrightarrow> buddy_at m ((base + off) mod buddy_count m) = None \<Longrightarrow> off < buddy_count m \<Longrightarrow>
     PickListnerWithOffset m base off = PickListnerWithOffset m base ((off + 1) mod buddy_count m)"
  by (subst PickListnerWithOffset.simps) (simp add: Let_def)

lemma pick_found:
  "0 < buddy_count m \<Longrightarrow> buddy_at m ((base + off) mod buddy_count m) = Some b \<Longrightarrow> PickListnerWithOffset m base off = Some b"
  by (subst PickListnerWithOffset.simps) (simp add: Let_def)

lemma pick_some_member:
  assumes "PickListnerWithOffset m base off = Some b" "0 < buddy_count m" "off < buddy_count m"
  shows "\<exists>i < buddy_count m. buddy_at m i = Some b"
proof -
  have "PickListnerWithOffset m base off = Some b \<Longrightarrow> 0 < buddy_count m \<and> off < buddy_count m \<longrightarrow> (\<exists>i < buddy_count m. buddy_at m i = Some b)"
    for b
  proof (induction rule: PickListnerWithOffset.raw_induct [rotated, consumes 1])
    case (1 f m base off y)
    show ?case
    proof (intro impI)
      assume n: "0 < buddy_count m \<and> off < buddy_count m"
      show "\<exists>i < buddy_count m. buddy_at m i = Some y"
      proof (cases "buddy_at m ((base + off) mod buddy_count m)")
        case None
        with n "1.hyps" have "f m base ((off + 1) mod buddy_count m) = Some y" by (simp add: Let_def)
        from "1.IH" [OF this] n show ?thesis by simp
      next
        case (Some c)
        with n "1.hyps" have "c = y" by (simp add: Let_def)
        with Some n show ?thesis by (intro exI [of _ "(base + off) mod buddy_count m"]) simp
      qed
    qed
  qed
  with assms show ?thesis by simp
qed

lemma pick_reaches:
  assumes "i < buddy_count m" "buddy_at m i \<noteq> None" "off < buddy_count m"
  shows "\<exists>b. PickListnerWithOffset m base off = Some b"
  using assms(3)
proof (induction d \<equiv> "nat ((int i - int base - int off) mod int (buddy_count m))" arbitrary: off)
  case 0
  let ?n = "buddy_count m"
  have n: "0 < ?n" using assms(1) by simp
  have "(int i - int base - int off) mod int ?n = 0" using 0(1) n pos_mod_sign [of "int ?n" "int i - int base - int off"] by linarith
  then have "int i mod int ?n = int (base + off) mod int ?n" unfolding mod_eq_dvd_iff by (simp add: mod_eq_0_iff_dvd diff_diff_eq)
  then have "int (i mod ?n) = int ((base + off) mod ?n)" by (simp add: of_nat_mod)
  then have "(base + off) mod ?n = i" using assms(1) by simp
  with assms(2) n show ?case by (auto intro: pick_found)
next
  case (Suc d)
  let ?n = "buddy_count m"
  have n: "0 < ?n" using assms(1) by simp
  let ?x = "int i - int base - int off"
  have next_off: "int ((off + 1) mod ?n) mod int ?n = (int off + 1) mod int ?n" by (simp add: of_nat_mod add.commute)
  have "(int i - int base - int ((off + 1) mod ?n)) mod int ?n = (int i - int base - (int off + 1)) mod int ?n"
    by (metis next_off mod_diff_right_eq)
  also have "\<dots> = (?x - 1) mod int ?n" by (simp add: algebra_simps)
  also have "\<dots> = (?x mod int ?n - 1) mod int ?n" by (simp add: mod_diff_left_eq)
  also have "\<dots> = ?x mod int ?n - 1"
    by (rule mod_pos_pos_trivial; use Suc(2) n pos_mod_bound [of "int ?n" ?x] in linarith)
  finally have d: "d = nat ((int i - int base - int ((off + 1) mod ?n)) mod int ?n)" using Suc(2) by simp
  have "\<exists>b. PickListnerWithOffset m base ((off + 1) mod ?n) = Some b" by (rule Suc(1) [OF d]) (simp add: n)
  then show ?case using pick_step [OF n _ Suc(3)] pick_found [OF n] by (cases "buddy_at m ((base + off) mod ?n)") auto
qed

text \<open>
  C40. \<^verbatim>\<open>PickListnerWithOffset\<close> returns exactly when the message names no member, the
  offset is past the members, or a member is filed under one of the keys 0 to n-1, n the
  number of members. Otherwise it calls itself for ever.
\<close>

theorem pick_listener_returns:
  "(\<exists>b. PickListnerWithOffset m base off = Some b) \<longleftrightarrow>
     buddy_count m = 0 \<or> buddy_count m \<le> off \<or> (\<exists>i < buddy_count m. buddy_at m i \<noteq> None)"
proof -
  consider "buddy_count m = 0" | "0 < buddy_count m" "buddy_count m \<le> off" | "0 < buddy_count m" "off < buddy_count m"
    by linarith
  then show ?thesis
  proof cases
    case 1
    then show ?thesis by (subst PickListnerWithOffset.simps) simp
  next
    case 2
    then have "\<exists>b. PickListnerWithOffset m base off = Some b"
      by (subst PickListnerWithOffset.simps) (auto simp: Let_def split: option.splits)
    with 2 show ?thesis by simp
  next
    case 3
    then show ?thesis using pick_reaches [of _ m off base] pick_some_member [of m base off] by fastforce
  qed
qed

subsection \<open>Aggregation\<close>







subsection \<open>Votes stored and read back\<close>

lemma elements_visible: "(x \<in> set (case GetSetElements s k of None \<Rightarrow> [] | Some xs \<Rightarrow> xs)) = visible s k x"
  by (auto simp: visible_def split: option.splits)






lemma last_vote_greatest:
  assumes "sorted vs" "last_vote J F h vs acc = Some pv" "\<forall>x \<in> set vs. read_vote J F h x = None \<Longrightarrow> acc \<noteq> Some pv"
  shows "\<exists>x \<in> set vs. read_vote J F h x = Some pv \<and> (\<forall>y \<in> set vs. read_vote J F h y \<noteq> None \<longrightarrow> y \<le> x)"
  using assms
proof (induction vs arbitrary: acc)
  case (Cons v vs)
  show ?case
  proof (cases "\<exists>y \<in> set vs. read_vote J F h y \<noteq> None")
    case True
    with Cons.prems(1,2) have "\<exists>x \<in> set vs. read_vote J F h x = Some pv \<and> (\<forall>y \<in> set vs. read_vote J F h y \<noteq> None \<longrightarrow> y \<le> x)"
      by (intro Cons.IH [of "case read_vote J F h v of None \<Rightarrow> acc | Some pv \<Rightarrow> Some pv"]) auto
    with Cons.prems(1) show ?thesis by auto
  next
    case False
    then have "last_vote J F h vs a = a" for a by (induction vs arbitrary: a) auto
    with False Cons.prems(2,3) show ?thesis by (cases "read_vote J F h v") auto
  qed
qed simp

definition demo_json :: json_lib where
  "demo_json = \<lparr>js_object = (\<lambda>m. if m = ''yes'' then Some [''vote'' \<mapsto> JNum 1, ''block_hash'' \<mapsto> JStr ''h'']
       else if m = ''no'' then Some [''vote'' \<mapsto> JNum (-1), ''block_hash'' \<mapsto> JStr ''h'', ''rejection_reason'' \<mapsto> JStr ''nonce'']
       else if m = ''zap'' then Some [''vote'' \<mapsto> JNum 7, ''block_hash'' \<mapsto> JStr ''h''] else None),
     js_request = (\<lambda>m. if m = ''req'' then Some (''h'', 5) else None)\<rparr>"

definition demo_float :: go_float where
  "demo_float = \<lparr>fl_add = (+), fl_int8 = floor\<rparr>"


definition ballot :: "(string \<times> string) list \<Rightarrow> mem_store" where
  "ballot votes = fold (\<lambda>(p, m) s. snd (handleSubmitVote demo_json p p m s)) votes (NewMemStore 100000)"




subsection \<open>Properties\<close>







text \<open>
  The vote a member reads for a peer is the lexicographically greatest text of the
  peer's votes for the block, so a second vote replaces the first only if its text is
  greater.
\<close>

theorem vote_read_is_greatest:
  assumes "GetSetElements s p = Some texts" "last_vote J F h texts None = Some pv"
  shows "\<exists>x. visible s p x \<and> read_vote J F h x = Some pv \<and> (\<forall>y. visible s p y \<longrightarrow> read_vote J F h y \<noteq> None \<longrightarrow> y \<le> x)"
proof -
  have "sorted texts" using assms(1) by (auto simp: GetSetElements_def GetElements_def sorted_list_of_fset.rep_eq split: option.splits crdt.splits)
  from last_vote_greatest [OF this assms(2)] elements_visible [of _ s p] assms(1) show ?thesis by simp blast
qed

theorem vote_read_is_greatest_witness:
  "\<exists>x. visible (ballot [(''a'', ''yes''), (''a'', ''no'')]) ''a'' x \<and>
     read_vote demo_json demo_float ''h'' x = Some \<lparr>pv_vote = 1, pv_blockHash = ''h'', pv_reason = []\<rparr>"
proof -
  have a: "GetSetElements (ballot [(''a'', ''yes''), (''a'', ''no'')]) ''a'' = Some [''no'', ''yes'']"
    "last_vote demo_json demo_float ''h'' [''no'', ''yes''] None = Some \<lparr>pv_vote = 1, pv_blockHash = ''h'', pv_reason = []\<rparr>"
    by code_simp+
  from vote_read_is_greatest [OF a] show ?thesis by blast
qed

end
