(* ===== verification/Spec2Isabelle.thy ===== *)
theory Spec2Isabelle
  imports GateProps ReconProps BFTProps CRDTProps ValidationProps VotingProps
begin

text \<open>
  JMDN node: a verification library for the ledger, consensus and replication
  code of the repository.

  \<^item> \<^verbatim>\<open>Prelude\<close>: machine types, Go string and decimal routines, shared lemmas.
  \<^item> \<^verbatim>\<open>ZKBlock\<close>: the wire data of \<^verbatim>\<open>src/config/ZKBlock.go\<close>.
  \<^item> \<^verbatim>\<open>GasFee\<close>: the fee formula of \<^verbatim>\<open>src/config/gasfee.go\<close>.
\<close>

end
